(* ===== verification/Bridge_Prelude.thy ===== *)
theory Bridge_Prelude
  imports Main "HOL-Library.Word"
begin

text \<open>
  Shared vocabulary of the development: the machine types of the native bridge (bytes,
  64-bit addresses, C strings), the little-endian image of a machine word, the theorem
  collections the components add to, and the generic lemmas on lists, options and words
  that more than one component uses.
\<close>

unbundle bit_operations_syntax

section \<open>Machine types\<close>

type_synonym byte = "8 word"
type_synonym u32 = "32 word"
type_synonym u64 = "64 word"
type_synonym i32 = "32 word"
type_synonym i8 = "8 word"
type_synonym addr = "64 word"
type_synonym port = "64 word"

text \<open>A \<open>const char*\<close> that may be NULL.\<close>

type_synonym cstr = "string option"

named_theorems wire_simps \<open>equations of the wire format\<close>
named_theorems post_simps \<open>equations of the posting helpers\<close>
named_theorems worker_simps \<open>equations of the worker threads\<close>

section \<open>Characters and bytes\<close>

text \<open>
  \<open>char\<close> has exactly the 256 values of a C \<open>char\<close>; the reinterpretation of
  \<open>const char*\<close> as \<open>const uint8_t*\<close> is the bijection below.
\<close>

definition byte_of_char :: "char \<Rightarrow> byte" where
  "byte_of_char c = word_of_nat (of_char c)"

definition char_of_byte :: "byte \<Rightarrow> char" where
  "char_of_byte b = char_of (unat b)"

lemma char_of_byte_of_char [simp]: "char_of_byte (byte_of_char c) = c"
proof -
  have "of_char c < (256 :: nat)" by (rule nat_of_char_less_256)
  then have "unat (word_of_nat (of_char c) :: byte) = of_char c"
    by (simp add: unat_of_nat)
  then show ?thesis by (simp add: char_of_byte_def byte_of_char_def)
qed

lemma byte_of_char_of_byte [simp]: "byte_of_char (char_of_byte b) = b"
proof -
  have "unat b < 256" using unsigned_less [of b] by simp
  then show ?thesis by (simp add: char_of_byte_def byte_of_char_def)
qed

definition bytes_of :: "string \<Rightarrow> byte list" where
  "bytes_of s = map byte_of_char s"

definition string_of :: "byte list \<Rightarrow> string" where
  "string_of bs = map char_of_byte bs"

lemma string_of_bytes_of [simp]: "string_of (bytes_of s) = s"
  by (simp add: string_of_def bytes_of_def map_idI)

lemma bytes_of_string_of [simp]: "bytes_of (string_of bs) = bs"
  by (simp add: string_of_def bytes_of_def map_idI)

lemma length_bytes_of [simp]: "length (bytes_of s) = length s"
  by (simp add: bytes_of_def)

lemma length_string_of [simp]: "length (string_of bs) = length bs"
  by (simp add: string_of_def)

lemma bytes_of_eq_iff [simp]: "bytes_of s = bytes_of t \<longleftrightarrow> s = t"
  by (metis string_of_bytes_of)

lemma bytes_of_append: "bytes_of (s @ t) = bytes_of s @ bytes_of t"
  by (simp add: bytes_of_def)

section \<open>The little-endian image of a word\<close>

text \<open>
  \<open>le_bytes n v\<close> is the object representation of an \<open>n\<close>-byte integer on the
  little-endian hosts the bridge is built for; \<open>le_word\<close> reads one back.
\<close>

fun le_bytes :: "nat \<Rightarrow> 'a::len word \<Rightarrow> byte list" where
  "le_bytes 0 v = []"
| "le_bytes (Suc n) v = ucast v # le_bytes n (drop_bit 8 v)"

fun le_word :: "byte list \<Rightarrow> 'a::len word" where
  "le_word [] = 0"
| "le_word (b # bs) = ucast b OR push_bit 8 (le_word bs)"

lemma length_le_bytes [simp]: "length (le_bytes n v) = n"
  by (induction n v rule: le_bytes.induct) auto

lemma le_word_le_bytes_take: "le_word (le_bytes n v) = take_bit (8 * n) v"
proof (induction n v rule: le_bytes.induct)
  case (1 v)
  then show ?case by simp
next
  case (2 n v)
  show ?case
  proof (rule bit_eqI)
    fix i
    assume "possible_bit TYPE('a word) i"
    then have "i < LENGTH('a)" by simp
    then show "bit (le_word (le_bytes (Suc n) v) :: 'a word) i \<longleftrightarrow> bit (take_bit (8 * Suc n) v) i"
      by (auto simp: 2 bit_simps)
  qed
qed

lemma le_word_le_bytes:
  "LENGTH('a) \<le> 8 * n \<Longrightarrow> le_word (le_bytes n (v :: 'a::len word)) = v"
  by (simp add: le_word_le_bytes_take take_bit_word_eq_self)

lemma le_word_le_bytes_std [simp]:
  "le_word (le_bytes (Suc 0) (v8 :: 8 word)) = v8"
  "le_word (le_bytes 4 (v32 :: 32 word)) = v32"
  "le_word (le_bytes 8 (v64 :: 64 word)) = v64"
  by (simp_all add: le_word_le_bytes)

section \<open>Lists, options and words\<close>

lemma take_drop_append_exact [simp]: "take (length xs) (xs @ ys) = xs"
  by simp

lemma unat_of_nat_lt: "n < 2 ^ LENGTH('a) \<Longrightarrow> unat (of_nat n :: 'a::len word) = n"
  by (simp add: unat_of_nat take_bit_nat_eq_self_iff)

lemma unat_plus_of_nat:
  fixes a :: "'a::len word"
  assumes "unat a + n < 2 ^ LENGTH('a)"
  shows "unat (a + of_nat n) = unat a + n"
proof -
  have "n < 2 ^ LENGTH('a)" using assms by simp
  then have "unat (of_nat n :: 'a word) = n" by (rule unat_of_nat_lt)
  with assms show ?thesis by (simp add: unat_word_ariths)
qed

text \<open>\<open>safe_str\<close>, which every translation unit of the bridge defines for itself.\<close>

definition safe_str :: "cstr \<Rightarrow> string" where
  "safe_str s = (case s of None \<Rightarrow> '''' | Some t \<Rightarrow> t)"

lemma safe_str_simps [simp]: "safe_str None = ''''" "safe_str (Some t) = t"
  by (simp_all add: safe_str_def)

text \<open>\<open>(s && *s) ? s : nullptr\<close>, the bridge's reading of an optional argument.\<close>

definition hint :: "cstr \<Rightarrow> cstr" where
  "hint s = (case s of None \<Rightarrow> None | Some t \<Rightarrow> if t = '''' then None else Some t)"

lemma hint_simps [simp]:
  "hint None = None" "hint (Some '''') = None" "t \<noteq> '''' \<Longrightarrow> hint (Some t) = Some t"
  by (simp_all add: hint_def)

lemma hint_eq_Some: "hint s = Some t \<longleftrightarrow> s = Some t \<and> t \<noteq> ''''"
  by (auto simp: hint_def split: option.splits)

end
