(* ===== verification/Child_Reaper.thy ===== *)
theory Child_Reaper
  imports Bridge_Prelude "HOL-Library.Multiset"
begin

text \<open>
  native/src/child_reaper.cpp: the one thread that reaps every launched child. A state has the
  members of the class, where its loop thread is, the thread starts that \<open>add\<close> owes, the
  detached waiter threads, and the pids handed over and reaped and the descriptors opened and
  closed so far. Each critical section and each blocking call of the code is one step; the
  kernel's answers are its parameters.
\<close>

section \<open>State\<close>

record Child =
  ch_pid :: i32
  ch_pidfd :: nat

text \<open>
  The loop thread: not there or returned; at \<open>take_pending\<close>; in \<open>poll\<close>; past the failed poll
  with \<open>running_\<close> cleared; past the loop, reaping what is left inline.
\<close>

datatype loop_pc =
    LReturned
  | LTake "Child list"
  | LPoll "Child list"
  | LFailed "Child list"
  | LInline "Child list"

text \<open>
  A detached thread waits for its children in turn, closing the descriptor it has of each.
\<close>

type_synonym waiter = "(i32 \<times> nat option) list"

datatype reaper_dtor = RAlive | RStopping | RJoined | RGone

record child_reaper =
  cr_pending :: "Child list"
  cr_running :: bool
  cr_stopping :: bool
  cr_loop :: loop_pc
  cr_starts :: nat
  cr_dtor :: reaper_dtor
  cr_waiters :: "waiter multiset"
  cr_added :: "i32 multiset"
  cr_reaped :: "i32 multiset"
  cr_opened :: "nat multiset"
  cr_closed :: "nat multiset"

definition cr_new :: child_reaper where
  "cr_new = \<lparr>cr_pending = [], cr_running = False, cr_stopping = False, cr_loop = LReturned,
             cr_starts = 0, cr_dtor = RAlive, cr_waiters = {#}, cr_added = {#}, cr_reaped = {#},
             cr_opened = {#}, cr_closed = {#}\<rparr>"

abbreviation pids :: "Child list \<Rightarrow> i32 multiset" where
  "pids cs \<equiv> mset (map ch_pid cs)"

abbreviation fds :: "Child list \<Rightarrow> nat multiset" where
  "fds cs \<equiv> mset (map ch_pidfd cs)"

abbreviation as_waiter :: "Child list \<Rightarrow> waiter" where
  "as_waiter cs \<equiv> map (\<lambda>c. (ch_pid c, Some (ch_pidfd c))) cs"

section \<open>Operations\<close>

text \<open>\<open>add\<close> up to the end of its critical section; \<open>None\<close> is a \<open>pidfd_open\<close> that failed.\<close>

definition reaper_add :: "i32 \<Rightarrow> nat option \<Rightarrow> child_reaper \<Rightarrow> child_reaper" where
  "reaper_add pid pidfd r =
     (let r = r\<lparr>cr_added := add_mset pid (cr_added r)\<rparr>
      in case pidfd of
           None \<Rightarrow> r\<lparr>cr_waiters := add_mset [(pid, None)] (cr_waiters r)\<rparr>
         | Some fd \<Rightarrow>
             let r = r\<lparr>cr_opened := add_mset fd (cr_opened r)\<rparr> in
             if cr_stopping r then r\<lparr>cr_waiters := add_mset [(pid, Some fd)] (cr_waiters r)\<rparr>
             else let r = r\<lparr>cr_pending := cr_pending r @ [\<lparr>ch_pid = pid, ch_pidfd = fd\<rparr>]\<rparr>
                  in if \<not> cr_running r
                     then r\<lparr>cr_running := True, cr_starts := Suc (cr_starts r)\<rparr> else r)"

text \<open>The rest of \<open>add\<close> under \<open>thread_mu_\<close>: join the outgoing loop, start the new one.\<close>

definition start_thread :: "child_reaper \<Rightarrow> child_reaper option" where
  "start_thread r =
     (if cr_starts r > 0 \<and> cr_loop r = LReturned
      then Some (r\<lparr>cr_starts := cr_starts r - 1, cr_loop := LTake []\<rparr>) else None)"

definition take_pending :: "Child list \<Rightarrow> child_reaper \<Rightarrow> bool \<times> Child list \<times> child_reaper" where
  "take_pending watched r =
     (let watched = watched @ cr_pending r;
          r = r\<lparr>cr_pending := []\<rparr>
      in if cr_stopping r \<or> watched = [] then (False, watched, r\<lparr>cr_running := False\<rparr>)
         else (True, watched, r))"

text \<open>
  For each watched child whether its pidfd signalled, and whether \<open>waitpid\<close> then returned 0.
  The result: the children kept, the pids given to a blocking waiter, the pids reaped, and the
  descriptors closed.
\<close>

fun reap_signalled :: "(Child \<times> bool \<times> bool) list \<Rightarrow> Child list \<times> i32 list \<times> i32 list \<times> nat list" where
  "reap_signalled [] = ([], [], [], [])"
| "reap_signalled ((c, signalled, zero) # cs) =
     (case reap_signalled cs of (kept, orphans, reaped, closed) \<Rightarrow>
        if \<not> signalled then (c # kept, orphans, reaped, closed)
        else if zero then (kept, ch_pid c # orphans, reaped, ch_pidfd c # closed)
        else (kept, orphans, ch_pid c # reaped, ch_pidfd c # closed))"

definition loop_take :: "child_reaper \<Rightarrow> child_reaper option" where
  "loop_take r =
     (case cr_loop r of
        LTake watched \<Rightarrow>
          (case take_pending watched r of
             (again, watched, r) \<Rightarrow> Some (r\<lparr>cr_loop := (if again then LPoll watched else LInline watched)\<rparr>))
      | _ \<Rightarrow> None)"

text \<open>\<open>answers\<close>: per watched child, what poll and waitpid say.\<close>

definition loop_polled :: "(bool \<times> bool) list \<Rightarrow> child_reaper \<Rightarrow> child_reaper option" where
  "loop_polled answers r =
     (case cr_loop r of
        LPoll watched \<Rightarrow>
          (if length answers = length watched then
             (case reap_signalled (zip watched answers) of
                (kept, orphans, reaped, closed) \<Rightarrow>
                  Some (r\<lparr>cr_loop := LTake kept,
                          cr_waiters := cr_waiters r + mset (map (\<lambda>pid. [(pid, None)]) orphans),
                          cr_reaped := cr_reaped r + mset reaped,
                          cr_closed := cr_closed r + mset closed\<rparr>))
           else None)
      | _ \<Rightarrow> None)"

definition loop_poll_eintr :: "child_reaper \<Rightarrow> child_reaper option" where
  "loop_poll_eintr r = (case cr_loop r of LPoll watched \<Rightarrow> Some (r\<lparr>cr_loop := LTake watched\<rparr>) | _ \<Rightarrow> None)"

definition loop_poll_failed :: "child_reaper \<Rightarrow> child_reaper option" where
  "loop_poll_failed r =
     (case cr_loop r of
        LPoll watched \<Rightarrow> Some (r\<lparr>cr_running := False, cr_loop := LFailed watched\<rparr>) | _ \<Rightarrow> None)"

definition loop_give_up :: "child_reaper \<Rightarrow> child_reaper option" where
  "loop_give_up r =
     (case cr_loop r of
        LFailed watched \<Rightarrow>
          Some (r\<lparr>cr_loop := LReturned, cr_waiters := add_mset (as_waiter watched) (cr_waiters r)\<rparr>)
      | _ \<Rightarrow> None)"

definition loop_inline :: "child_reaper \<Rightarrow> child_reaper option" where
  "loop_inline r =
     (case cr_loop r of
        LInline watched \<Rightarrow>
          Some (r\<lparr>cr_loop := LReturned, cr_reaped := cr_reaped r + pids watched,
                  cr_closed := cr_closed r + fds watched\<rparr>)
      | _ \<Rightarrow> None)"

text \<open>The destructor: the flag, the join, the leftover.\<close>

definition reaper_dtor_step :: "child_reaper \<Rightarrow> child_reaper option" where
  "reaper_dtor_step r =
     (case cr_dtor r of
        RAlive \<Rightarrow> Some (r\<lparr>cr_stopping := True, cr_dtor := RStopping\<rparr>)
      | RStopping \<Rightarrow> if cr_loop r = LReturned then Some (r\<lparr>cr_dtor := RJoined\<rparr>) else None
      | RJoined \<Rightarrow>
          Some (r\<lparr>cr_reaped := cr_reaped r + pids (cr_pending r),
                  cr_closed := cr_closed r + fds (cr_pending r), cr_pending := [], cr_dtor := RGone\<rparr>)
      | RGone \<Rightarrow> None)"

text \<open>
  The \<open>waitpid\<close> of a detached waiter returns: the child at its head is reaped, the descriptor
  closed, and it goes on to the next one.
\<close>

definition waiter_done :: "waiter \<Rightarrow> child_reaper \<Rightarrow> child_reaper option" where
  "waiter_done w r =
     (case w of
        [] \<Rightarrow> None
      | (pid, fd) # rest \<Rightarrow>
          if w \<in># cr_waiters r
          then Some (r\<lparr>cr_waiters := add_mset rest (cr_waiters r - {#w#}),
                       cr_reaped := add_mset pid (cr_reaped r),
                       cr_closed := cr_closed r + mset_set (set_option fd)\<rparr>)
          else None)"

section \<open>Interleavings\<close>

text \<open>
  \<open>add\<close> may be called before and while the destructor runs, but not on the destroyed object. An
  \<open>add\<close> that has queued its child and owes a thread start has returned before the destructor
  takes a step: one that starts the thread after the join would leave it running on a
  destroyed object. \<open>faulty\<close> says whether poll may fail with anything but EINTR.
\<close>

inductive reaper_step :: "bool \<Rightarrow> child_reaper \<Rightarrow> child_reaper \<Rightarrow> bool" for faulty where
  add: "cr_dtor r \<noteq> RGone \<Longrightarrow> reaper_step faulty r (reaper_add pid pidfd r)"
| start: "start_thread r = Some r' \<Longrightarrow> reaper_step faulty r r'"
| take: "loop_take r = Some r' \<Longrightarrow> reaper_step faulty r r'"
| polled: "loop_polled answers r = Some r' \<Longrightarrow> reaper_step faulty r r'"
| eintr: "loop_poll_eintr r = Some r' \<Longrightarrow> reaper_step faulty r r'"
| failed: "faulty \<Longrightarrow> loop_poll_failed r = Some r' \<Longrightarrow> reaper_step faulty r r'"
| give_up: "loop_give_up r = Some r' \<Longrightarrow> reaper_step faulty r r'"
| reap_inline: "loop_inline r = Some r' \<Longrightarrow> reaper_step faulty r r'"
| waiter: "waiter_done w r = Some r' \<Longrightarrow> reaper_step faulty r r'"
| destructor: "cr_starts r = 0 \<Longrightarrow> reaper_dtor_step r = Some r' \<Longrightarrow> reaper_step faulty r r'"

inductive_cases reaper_stepE: "reaper_step faulty r r'"

lemmas reaper_defs = reaper_add_def start_thread_def take_pending_def loop_take_def loop_polled_def
  loop_poll_eintr_def loop_poll_failed_def loop_give_up_def loop_inline_def reaper_dtor_step_def
  waiter_done_def

section \<open>Every child has one owner\<close>

fun loop_children :: "loop_pc \<Rightarrow> Child list" where
  "loop_children LReturned = []"
| "loop_children (LTake watched) = watched"
| "loop_children (LPoll watched) = watched"
| "loop_children (LFailed watched) = watched"
| "loop_children (LInline watched) = watched"

definition waiter_pids :: "waiter multiset \<Rightarrow> i32 multiset" where
  "waiter_pids ws = \<Sum>\<^sub># (image_mset (\<lambda>w. mset (map fst w)) ws)"

definition waiter_fds :: "waiter multiset \<Rightarrow> nat multiset" where
  "waiter_fds ws = \<Sum>\<^sub># (image_mset (\<lambda>w. \<Sum>\<^sub># (mset (map (\<lambda>c. mset_set (set_option (snd c))) w))) ws)"

lemma waiter_simps [simp]:
  "waiter_pids {#} = {#}" "waiter_pids (add_mset w ws) = mset (map fst w) + waiter_pids ws"
  "waiter_pids (ws + ws') = waiter_pids ws + waiter_pids ws'"
  "waiter_fds {#} = {#}"
  "waiter_fds (add_mset w ws) = \<Sum>\<^sub># (mset (map (\<lambda>c. mset_set (set_option (snd c))) w)) + waiter_fds ws"
  "waiter_fds (ws + ws') = waiter_fds ws + waiter_fds ws'"
  by (simp_all add: waiter_pids_def waiter_fds_def)

lemma waiter_orphans [simp]:
  "waiter_pids (image_mset (\<lambda>pid. [(pid, None)]) orphans) = orphans"
  "waiter_fds (image_mset (\<lambda>pid. [(pid, None)]) orphans) = {#}"
  by (induction orphans) auto

lemma as_waiter_simps [simp]:
  "image_mset (fst \<circ> (\<lambda>c. (ch_pid c, Some (ch_pidfd c)))) cs = image_mset ch_pid cs"
  "\<Sum>\<^sub># (image_mset ((\<lambda>c. mset_set (set_option (snd c))) \<circ> (\<lambda>c. (ch_pid c, Some (ch_pidfd c)))) cs) =
     image_mset ch_pidfd cs"
  by (induction cs) auto

definition accounted :: "child_reaper \<Rightarrow> bool" where
  "accounted r \<longleftrightarrow>
     cr_added r = cr_reaped r + waiter_pids (cr_waiters r) + pids (cr_pending r) +
       pids (loop_children (cr_loop r)) \<and>
     cr_opened r = cr_closed r + waiter_fds (cr_waiters r) + fds (cr_pending r) +
       fds (loop_children (cr_loop r))"

lemma reap_signalled_splits:
  "reap_signalled cs = (kept, orphans, reaped, closed) \<Longrightarrow>
     pids (map fst cs) = pids kept + mset orphans + mset reaped \<and>
     fds (map fst cs) = fds kept + mset closed"
  by (induction cs arbitrary: kept orphans reaped closed rule: reap_signalled.induct)
    (auto split: prod.splits if_splits)

lemma loop_polled_accounted:
  assumes "loop_polled answers r = Some r'" "accounted r"
  shows "accounted r'"
proof -
  obtain watched kept orphans reaped closed where
    w: "cr_loop r = LPoll watched" "length answers = length watched"
    "reap_signalled (zip watched answers) = (kept, orphans, reaped, closed)"
    "r' = r\<lparr>cr_loop := LTake kept,
            cr_waiters := cr_waiters r + mset (map (\<lambda>pid. [(pid, None)]) orphans),
            cr_reaped := cr_reaped r + mset reaped, cr_closed := cr_closed r + mset closed\<rparr>"
    using assms(1) by (auto simp: loop_polled_def split: loop_pc.splits if_splits prod.splits)
  have "map fst (zip watched answers) = watched" using w(2) by simp
  with reap_signalled_splits [OF w(3)]
  have "pids watched = pids kept + mset orphans + mset reaped" "fds watched = fds kept + mset closed"
    by simp_all
  with assms(2) w show ?thesis by (simp add: accounted_def)
qed

lemma waiter_done_accounted:
  assumes "waiter_done w r = Some r'" "accounted r"
  shows "accounted r'"
proof -
  obtain pid fd rest ws where w: "w = (pid, fd) # rest" "cr_waiters r = add_mset w ws"
    "r' = r\<lparr>cr_waiters := add_mset rest ws, cr_reaped := add_mset pid (cr_reaped r),
            cr_closed := cr_closed r + mset_set (set_option fd)\<rparr>"
    using assms(1)
    by (auto simp: waiter_done_def split: list.splits prod.splits if_splits dest!: multi_member_split)
  with assms(2) show ?thesis by (simp add: accounted_def)
qed

lemma reaper_step_accounted:
  assumes "reaper_step faulty r r'" "accounted r"
  shows "accounted r'"
  using assms
proof (induction rule: reaper_step.induct)
  case (polled answers r r')
  then show ?case by (rule loop_polled_accounted)
next
  case (waiter w r r')
  then show ?case by (rule waiter_done_accounted)
next
  case (destructor r r')
  then show ?case
    by (auto simp: reaper_dtor_step_def accounted_def split: reaper_dtor.splits if_splits)
next
  case (give_up r r')
  then show ?case
    by (auto simp: loop_give_up_def accounted_def split: loop_pc.splits)
qed (auto simp: reaper_defs accounted_def Let_def split: option.splits if_splits loop_pc.splits)

lemma reaper_run_accounted: "(reaper_step faulty)\<^sup>*\<^sup>* cr_new r \<Longrightarrow> accounted r"
proof (induction rule: rtranclp_induct)
  case base
  show ?case by (simp add: accounted_def cr_new_def)
next
  case (step r r')
  then show ?case by (blast intro: reaper_step_accounted)
qed

text \<open>What the two steps with data leave of the control state.\<close>

lemma waiter_done_control:
  "waiter_done w r = Some r' \<Longrightarrow>
     cr_pending r' = cr_pending r \<and> cr_running r' = cr_running r \<and> cr_stopping r' = cr_stopping r \<and>
     cr_loop r' = cr_loop r \<and> cr_starts r' = cr_starts r \<and> cr_dtor r' = cr_dtor r"
  by (auto simp: waiter_done_def split: list.splits if_splits)

lemma loop_polled_control:
  "loop_polled answers r = Some r' \<Longrightarrow>
     \<exists>watched kept. cr_loop r = LPoll watched \<and> cr_loop r' = LTake kept \<and>
     cr_pending r' = cr_pending r \<and> cr_running r' = cr_running r \<and> cr_stopping r' = cr_stopping r \<and>
     cr_starts r' = cr_starts r \<and> cr_dtor r' = cr_dtor r"
  by (auto simp: loop_polled_def split: loop_pc.splits if_splits prod.splits)

lemmas reaper_control_defs = reaper_add_def start_thread_def take_pending_def loop_take_def
  loop_poll_eintr_def loop_poll_failed_def loop_give_up_def loop_inline_def reaper_dtor_step_def

section \<open>The destructor leaves nothing\<close>

definition dtor_inv :: "child_reaper \<Rightarrow> bool" where
  "dtor_inv r \<longleftrightarrow>
     (cr_stopping r \<longleftrightarrow> cr_dtor r \<noteq> RAlive) \<and>
     (cr_dtor r \<noteq> RAlive \<longrightarrow> cr_starts r = 0) \<and>
     (cr_dtor r \<in> {RJoined, RGone} \<longrightarrow> cr_loop r = LReturned) \<and>
     (cr_dtor r = RGone \<longrightarrow> cr_pending r = [])"

lemma reaper_step_dtor_inv:
  assumes "reaper_step faulty r r'" "dtor_inv r"
  shows "dtor_inv r'"
  using assms
proof (induction rule: reaper_step.induct)
  case (polled answers r r')
  then show ?case by (auto simp: dtor_inv_def dest!: loop_polled_control)
next
  case (waiter w r r')
  then show ?case by (auto simp: dtor_inv_def dest!: waiter_done_control)
qed (auto simp: reaper_control_defs dtor_inv_def Let_def
    split: option.splits if_splits loop_pc.splits reaper_dtor.splits)

lemma reaper_run_dtor_inv: "(reaper_step faulty)\<^sup>*\<^sup>* cr_new r \<Longrightarrow> dtor_inv r"
proof (induction rule: rtranclp_induct)
  case base
  show ?case by (simp add: dtor_inv_def cr_new_def)
next
  case (step r r')
  then show ?case by (blast intro: reaper_step_dtor_inv)
qed

section \<open>Without poll failures nothing waits for a loop that is not there\<close>

definition attended :: "child_reaper \<Rightarrow> bool" where
  "attended r \<longleftrightarrow>
     cr_starts r \<le> 1 \<and>
     (case cr_loop r of
        LReturned \<Rightarrow> cr_running r = (cr_starts r = 1)
      | LInline _ \<Rightarrow> cr_running r = (cr_starts r = 1)
      | LTake _ \<Rightarrow> cr_running r \<and> cr_starts r = 0
      | LPoll _ \<Rightarrow> cr_running r \<and> cr_starts r = 0
      | LFailed _ \<Rightarrow> False) \<and>
     (cr_pending r \<noteq> [] \<longrightarrow> cr_running r)"

lemma reaper_step_attended:
  assumes "reaper_step faulty r r'" "\<not> faulty" "attended r"
  shows "attended r'"
  using assms
proof (induction rule: reaper_step.induct)
  case (polled answers r r')
  then show ?case by (auto simp: attended_def dest!: loop_polled_control split: loop_pc.splits)
next
  case (waiter w r r')
  then show ?case by (auto simp: attended_def dest!: waiter_done_control split: loop_pc.splits)
qed (auto simp: reaper_control_defs attended_def Let_def
    split: option.splits if_splits loop_pc.splits reaper_dtor.splits)

lemma reaper_run_attended: "(reaper_step False)\<^sup>*\<^sup>* cr_new r \<Longrightarrow> attended r"
proof (induction rule: rtranclp_induct)
  case base
  show ?case by (simp add: attended_def cr_new_def)
next
  case (step r r')
  then show ?case using reaper_step_attended by blast
qed

section \<open>Schedules\<close>

datatype reaper_action =
    DoAdd i32 "nat option" | DoStart | DoTake | DoPolled "(bool \<times> bool) list" | DoEintr
  | DoFail | DoGiveUp | DoInline | DoWaiter waiter | DoDtor

definition ok_or :: "child_reaper \<Rightarrow> child_reaper option \<Rightarrow> child_reaper" where
  "ok_or r x = (case x of None \<Rightarrow> r | Some r' \<Rightarrow> r')"

fun reaper_exec :: "reaper_action \<Rightarrow> child_reaper \<Rightarrow> child_reaper" where
  "reaper_exec (DoAdd pid fd) r = (if cr_dtor r \<noteq> RGone then reaper_add pid fd r else r)"
| "reaper_exec DoStart r = ok_or r (start_thread r)"
| "reaper_exec DoTake r = ok_or r (loop_take r)"
| "reaper_exec (DoPolled answers) r = ok_or r (loop_polled answers r)"
| "reaper_exec DoEintr r = ok_or r (loop_poll_eintr r)"
| "reaper_exec DoFail r = ok_or r (loop_poll_failed r)"
| "reaper_exec DoGiveUp r = ok_or r (loop_give_up r)"
| "reaper_exec DoInline r = ok_or r (loop_inline r)"
| "reaper_exec (DoWaiter w) r = ok_or r (waiter_done w r)"
| "reaper_exec DoDtor r = (if cr_starts r = 0 then ok_or r (reaper_dtor_step r) else r)"

definition reaper_run :: "reaper_action list \<Rightarrow> child_reaper \<Rightarrow> child_reaper" where
  "reaper_run as r = fold reaper_exec as r"

lemma reaper_exec_step:
  assumes "faulty \<or> a \<noteq> DoFail"
  shows "(reaper_step faulty)\<^sup>*\<^sup>* r (reaper_exec a r)"
  using assms
  by (cases a) (auto simp: ok_or_def intro: reaper_step.intros split: option.splits)

lemma reaper_run_reachable:
  assumes "faulty \<or> DoFail \<notin> set as"
  shows "(reaper_step faulty)\<^sup>*\<^sup>* r (reaper_run as r)"
  using assms
proof (induction as arbitrary: r)
  case (Cons a as)
  then have "(reaper_step faulty)\<^sup>*\<^sup>* r (reaper_exec a r)" by (intro reaper_exec_step) auto
  moreover have "(reaper_step faulty)\<^sup>*\<^sup>* (reaper_exec a r) (reaper_run as (reaper_exec a r))"
    using Cons by auto
  ultimately show ?case by (simp add: reaper_run_def rtranclp_trans)
qed (simp add: reaper_run_def)

lemmas reaper_exec_defs = reaper_run_def ok_or_def reaper_defs cr_new_def Let_def

section \<open>Properties\<close>

text \<open>
  C19. Every child handed to the reaper has exactly one owner at any time: it has been waited
  for, or belongs to one detached waiter, to the queue, or to the loop; and every descriptor
  opened for one has been closed, or goes with it. No interleaving of adds, thread starts,
  polls (failing ones included) and the destructor waits for a child twice or closes a
  descriptor twice, or forgets one, and a child added while the destructor runs goes to a waiter of its own; the
  destructor leaves none in the queue or the loop.
\<close>

theorem every_child_has_one_owner:
  assumes "(reaper_step faulty)\<^sup>*\<^sup>* cr_new r"
  shows "cr_added r = cr_reaped r + waiter_pids (cr_waiters r) + mset (map ch_pid (cr_pending r)) +
      mset (map ch_pid (loop_children (cr_loop r))) \<and>
    cr_opened r = cr_closed r + waiter_fds (cr_waiters r) + mset (map ch_pidfd (cr_pending r)) +
      mset (map ch_pidfd (loop_children (cr_loop r))) \<and>
    (cr_dtor r = RGone \<longrightarrow> cr_pending r = [] \<and> loop_children (cr_loop r) = [])"
  using reaper_run_accounted [OF assms] reaper_run_dtor_inv [OF assms]
  by (auto simp: accounted_def dtor_inv_def)

theorem every_child_has_one_owner_witness:
  "let r = reaper_run [DoAdd 7 (Some 3), DoStart, DoTake, DoAdd 8 (Some 4), DoAdd 9 None,
       DoPolled [(True, True)], DoTake, DoPolled [(True, False)], DoDtor, DoAdd 10 (Some 5)] cr_new
   in cr_added r = {#7, 8, 9, 10#} \<and> cr_reaped r = {#8#} \<and> waiter_pids (cr_waiters r) = {#7, 9, 10#} \<and>
      cr_opened r = {#3, 4, 5#} \<and> cr_closed r = {#3, 4#} \<and> cr_dtor r = RStopping"
proof -
  let ?r = "reaper_run [DoAdd 7 (Some 3), DoStart, DoTake, DoAdd 8 (Some 4), DoAdd 9 None,
       DoPolled [(True, True)], DoTake, DoPolled [(True, False)], DoDtor, DoAdd 10 (Some 5)] cr_new"
  have reach: "(reaper_step False)\<^sup>*\<^sup>* cr_new ?r" by (rule reaper_run_reachable) simp
  have r: "cr_added ?r = {#7, 8, 9, 10#}" "cr_reaped ?r = {#8#}" "cr_opened ?r = {#3, 4, 5#}"
    "cr_waiters ?r = {#[(7, None)], [(9, None)], [(10, Some 5)]#}" "cr_pending ?r = []" "cr_loop ?r = LTake []"
    "cr_closed ?r = {#3, 4#}" "cr_dtor ?r = RStopping"
    by (simp_all add: reaper_exec_defs add_mset_commute)
  from every_child_has_one_owner [OF reach] show ?thesis
    by (simp only: Let_def r) (simp add: add_mset_commute)
qed

text \<open>
  As long as poll fails only with EINTR, a queued child is always attended: a loop is
  running that will take it, or one is owed a start that nothing but a returning loop delays.
\<close>

lemma queued_children_are_attended:
  assumes "(reaper_step False)\<^sup>*\<^sup>* cr_new r" "cr_pending r \<noteq> []"
  shows "cr_running r \<and>
    ((\<exists>w. cr_loop r = LTake w \<or> cr_loop r = LPoll w) \<or>
     (cr_starts r = 1 \<and> (start_thread r \<noteq> None \<or> (\<exists>w. cr_loop r = LInline w))))"
  using reaper_run_attended [OF assms(1)] assms(2)
  by (cases "cr_loop r") (auto simp: attended_def start_thread_def)

lemma queued_children_are_attended_witness:
  "cr_running (reaper_run [DoAdd 7 (Some 3), DoStart, DoTake, DoAdd 8 (Some 4)] cr_new)"
proof -
  let ?r = "reaper_run [DoAdd 7 (Some 3), DoStart, DoTake, DoAdd 8 (Some 4)] cr_new"
  have "(reaper_step False)\<^sup>*\<^sup>* cr_new ?r" by (rule reaper_run_reachable) simp
  moreover have "cr_pending ?r \<noteq> []" by (simp add: reaper_exec_defs)
  ultimately show ?thesis using queued_children_are_attended by blast
qed

text \<open>
  A poll that fails otherwise can strand a child: one added while the loop polls, without
  starting a thread because the loop still ran, is left in the queue when the loop gives up,
  with no thread running and none owed; only a later add would wake it.
\<close>

lemma failed_poll_strands_a_queued_child:
  "let r = reaper_run [DoAdd 7 (Some 3), DoStart, DoTake, DoAdd 8 (Some 4), DoFail, DoGiveUp] cr_new
   in (reaper_step True)\<^sup>*\<^sup>* cr_new r \<and> cr_pending r = [\<lparr>ch_pid = 8, ch_pidfd = 4\<rparr>] \<and>
      \<not> cr_running r \<and> cr_loop r = LReturned \<and> cr_starts r = 0 \<and> start_thread r = None"
proof -
  have "(reaper_step True)\<^sup>*\<^sup>* cr_new
      (reaper_run [DoAdd 7 (Some 3), DoStart, DoTake, DoAdd 8 (Some 4), DoFail, DoGiveUp] cr_new)"
    by (rule reaper_run_reachable) simp
  then show ?thesis by (simp add: Let_def) (simp add: reaper_exec_defs)
qed

end
