(* ===== verification/Step_Simulation.thy ===== *)
theory Step_Simulation
  imports Bridge_Prelude
begin

text \<open>
  Detailed machines against abstract ones. Two components are modelled twice, once with each
  critical section as one step and once line by line; this is what relates the two models.
\<close>

section \<open>Simulations\<close>

text \<open>Every step of the detailed machine is some steps, or none, of the abstract one.\<close>

locale simulation =
  fixes start :: "'c \<Rightarrow> bool"
    and cstep :: "'c \<Rightarrow> 'c \<Rightarrow> bool"
    and astart :: "'a \<Rightarrow> bool"
    and astep :: "'a \<Rightarrow> 'a \<Rightarrow> bool"
    and abs_of :: "'c \<Rightarrow> 'a"
    and keeps :: "'c \<Rightarrow> bool"
  assumes start_abs: "start s \<Longrightarrow> astart (abs_of s)"
    and start_keeps: "start s \<Longrightarrow> keeps s"
    and step_keeps: "cstep s t \<Longrightarrow> keeps s \<Longrightarrow> keeps t"
    and step_abs: "cstep s t \<Longrightarrow> keeps s \<Longrightarrow> astep\<^sup>*\<^sup>* (abs_of s) (abs_of t)"
begin

lemma run_keeps: "start s \<Longrightarrow> cstep\<^sup>*\<^sup>* s t \<Longrightarrow> keeps t"
  by (rotate_tac, induction rule: rtranclp_induct) (auto intro: start_keeps step_keeps)

lemma run_abs: "start s \<Longrightarrow> cstep\<^sup>*\<^sup>* s t \<Longrightarrow> astart (abs_of s) \<and> astep\<^sup>*\<^sup>* (abs_of s) (abs_of t)"
proof (rotate_tac, induction rule: rtranclp_induct)
  case base
  then show ?case by (simp add: start_abs)
next
  case (step t u)
  then have "astep\<^sup>*\<^sup>* (abs_of t) (abs_of u)" using run_keeps step_abs by blast
  with step show ?case by (auto intro: rtranclp_trans)
qed

end

section \<open>Bounded runs\<close>

text \<open>Moves that each lower a measure, where an invariant holds: no run is longer than it.\<close>

locale measured =
  fixes move :: "'s \<Rightarrow> 's \<Rightarrow> bool"
    and left :: "'s \<Rightarrow> nat"
    and keeps :: "'s \<Rightarrow> bool"
  assumes move_keeps: "move s t \<Longrightarrow> keeps s \<Longrightarrow> keeps t"
    and move_left: "move s t \<Longrightarrow> keeps s \<Longrightarrow> left t < left s"
begin

lemma moves_keep: "(move ^^ m) s t \<Longrightarrow> keeps s \<Longrightarrow> keeps t"
  by (induction m arbitrary: t) (auto intro: move_keeps)

lemma moves_bounded: "(move ^^ m) s t \<Longrightarrow> keeps s \<Longrightarrow> m + left t \<le> left s"
proof (induction m arbitrary: t)
  case (Suc m)
  then obtain u where u: "(move ^^ m) s u" "move u t" by auto
  with Suc.IH [of u] Suc.prems(2) move_left [OF u(2) moves_keep] show ?case by fastforce
qed simp

end

end
