(* ===== verification/Reaper_Wake.thy ===== *)
theory Reaper_Wake
  imports Child_Reaper Step_Simulation
begin

text \<open>
  The wake pipe of native/src/child_reaper.cpp. \<open>Child_Reaper\<close> lets poll return at any time;
  here it blocks until the pipe or the pidfd of a watched child is readable, and the bytes in
  the pipe, the calls of \<open>wake ()\<close> still to come, the draining and the exits of the children
  are part of the state. The lemmas show that this simulates \<open>Child_Reaper\<close>, that no child
  waits in the queue for a loop that sleeps, and that no child that exited stays a zombie.
\<close>

section \<open>State\<close>

text \<open>Within \<open>LPoll\<close>: blocked in poll; returned, with what it reported; the pipe drained.\<close>

datatype poll_phase = AtPoll | Returned "bool list" bool | Drained "bool list"

text \<open>The bytes in the pipe, \<open>None\<close> if \<open>pipe2\<close> failed; the calls of \<open>wake ()\<close> owed; the pids that exited.\<close>

record wake_reaper =
  wk_core :: child_reaper
  wk_pipe :: "nat option"
  wk_wakes :: nat
  wk_phase :: poll_phase
  wk_exited :: "i32 set"

definition wk_new :: "nat option \<Rightarrow> wake_reaper" where
  "wk_new pipe = \<lparr>wk_core = cr_new, wk_pipe = pipe, wk_wakes = 0, wk_phase = AtPoll, wk_exited = {}\<rparr>"

definition pipe_capacity :: nat where "pipe_capacity = 65536"

section \<open>Operations\<close>

text \<open>
  \<open>add\<close> up to the end of its critical section. Who queued a child without having to start the
  loop calls \<open>wake ()\<close> next; who has to start it does so after that. Beside the destructor
  the child goes to a waiter of its own.
\<close>

definition wk_add :: "i32 \<Rightarrow> nat option \<Rightarrow> wake_reaper \<Rightarrow> wake_reaper option" where
  "wk_add pid pidfd w =
     (if cr_dtor (wk_core w) \<noteq> RGone
      then Some (w\<lparr>wk_core := reaper_add pid pidfd (wk_core w),
                   wk_wakes := wk_wakes w +
                     (if pidfd \<noteq> None \<and> \<not> cr_stopping (wk_core w) \<and> cr_running (wk_core w) then 1 else 0)\<rparr>)
      else None)"

definition wk_start :: "wake_reaper \<Rightarrow> wake_reaper option" where
  "wk_start w = map_option (\<lambda>r. w\<lparr>wk_core := r, wk_wakes := Suc (wk_wakes w)\<rparr>) (start_thread (wk_core w))"

text \<open>A write to a full pipe fails and leaves it readable.\<close>

definition wk_wake :: "wake_reaper \<Rightarrow> wake_reaper option" where
  "wk_wake w =
     (if wk_wakes w = 0 then None
      else Some (w\<lparr>wk_wakes := wk_wakes w - 1,
                   wk_pipe := map_option (\<lambda>n. if n < pipe_capacity then Suc n else n) (wk_pipe w)\<rparr>))"

definition wk_take :: "wake_reaper \<Rightarrow> wake_reaper option" where
  "wk_take w = map_option (\<lambda>r. w\<lparr>wk_core := r, wk_phase := AtPoll\<rparr>) (loop_take (wk_core w))"

text \<open>\<open>poll\<close> with no timeout: it returns once a descriptor is readable.\<close>

definition wk_poll :: "wake_reaper \<Rightarrow> wake_reaper option" where
  "wk_poll w =
     (case (cr_loop (wk_core w), wk_phase w) of
        (LPoll watched, AtPoll) \<Rightarrow>
          (let flags = map (\<lambda>c. ch_pid c \<in> wk_exited w) watched;
               readable = (case wk_pipe w of None \<Rightarrow> False | Some n \<Rightarrow> n > 0)
           in if readable \<or> True \<in> set flags then Some (w\<lparr>wk_phase := Returned flags readable\<rparr>) else None)
      | _ \<Rightarrow> None)"

definition wk_eintr :: "wake_reaper \<Rightarrow> wake_reaper option" where
  "wk_eintr w =
     (if wk_phase w = AtPoll then map_option (\<lambda>r. w\<lparr>wk_core := r\<rparr>) (loop_poll_eintr (wk_core w)) else None)"

text \<open>Read until the pipe is empty.\<close>

definition wk_drain :: "wake_reaper \<Rightarrow> wake_reaper option" where
  "wk_drain w =
     (case (cr_loop (wk_core w), wk_phase w) of
        (LPoll _, Returned flags readable) \<Rightarrow>
          Some (w\<lparr>wk_phase := Drained flags, wk_pipe := (if readable then Some 0 else wk_pipe w)\<rparr>)
      | _ \<Rightarrow> None)"

text \<open>\<open>zeros\<close>: for which children waitpid returns 0.\<close>

definition wk_reap :: "bool list \<Rightarrow> wake_reaper \<Rightarrow> wake_reaper option" where
  "wk_reap zeros w =
     (case wk_phase w of
        Drained flags \<Rightarrow>
          (if length zeros = length flags
           then map_option (\<lambda>r. w\<lparr>wk_core := r\<rparr>) (loop_polled (zip flags zeros) (wk_core w)) else None)
      | _ \<Rightarrow> None)"

text \<open>The blocking waits return when the children have exited.\<close>

definition wk_inline :: "wake_reaper \<Rightarrow> wake_reaper option" where
  "wk_inline w =
     (if \<forall>c \<in> set (loop_children (cr_loop (wk_core w))). ch_pid c \<in> wk_exited w
      then map_option (\<lambda>r. w\<lparr>wk_core := r\<rparr>) (loop_inline (wk_core w)) else None)"

definition wk_waiter :: "waiter \<Rightarrow> wake_reaper \<Rightarrow> wake_reaper option" where
  "wk_waiter v w =
     (case v of
        [] \<Rightarrow> None
      | (pid, _) # _ \<Rightarrow>
          if pid \<in> wk_exited w then map_option (\<lambda>r. w\<lparr>wk_core := r\<rparr>) (waiter_done v (wk_core w)) else None)"

text \<open>
  The destructor: the flag and then \<open>wake ()\<close>; the join and the leftover. The owed
  thread starts and wakes have returned before.
\<close>

definition wk_stop :: "wake_reaper \<Rightarrow> wake_reaper option" where
  "wk_stop w =
     (if cr_dtor (wk_core w) = RAlive \<and> cr_starts (wk_core w) = 0 \<and> wk_wakes w = 0
      then map_option (\<lambda>r. w\<lparr>wk_core := r, wk_wakes := 1\<rparr>) (reaper_dtor_step (wk_core w)) else None)"

definition wk_dtor :: "wake_reaper \<Rightarrow> wake_reaper option" where
  "wk_dtor w =
     (if cr_dtor (wk_core w) \<noteq> RAlive \<and> wk_wakes w = 0 \<and>
         (cr_dtor (wk_core w) = RJoined \<longrightarrow> (\<forall>c \<in> set (cr_pending (wk_core w)). ch_pid c \<in> wk_exited w))
      then map_option (\<lambda>r. w\<lparr>wk_core := r\<rparr>) (reaper_dtor_step (wk_core w)) else None)"

section \<open>Interleavings\<close>

text \<open>What the reaper's threads and the calls inside it do by themselves, and what else happens.\<close>

inductive wk_move :: "wake_reaper \<Rightarrow> wake_reaper \<Rightarrow> bool" where
  start: "wk_start w = Some w' \<Longrightarrow> wk_move w w'"
| wake: "wk_wake w = Some w' \<Longrightarrow> wk_move w w'"
| take: "wk_take w = Some w' \<Longrightarrow> wk_move w w'"
| poll: "wk_poll w = Some w' \<Longrightarrow> wk_move w w'"
| drain: "wk_drain w = Some w' \<Longrightarrow> wk_move w w'"
| reap: "wk_reap zeros w = Some w' \<Longrightarrow> wk_move w w'"
| reap_inline: "wk_inline w = Some w' \<Longrightarrow> wk_move w w'"
| waiter: "wk_waiter v w = Some w' \<Longrightarrow> wk_move w w'"
| destructor: "wk_dtor w = Some w' \<Longrightarrow> wk_move w w'"

text \<open>A pid is used again only after it was waited for.\<close>

inductive wk_step :: "wake_reaper \<Rightarrow> wake_reaper \<Rightarrow> bool" where
  move: "wk_move w w' \<Longrightarrow> wk_step w w'"
| add: "wk_add pid pidfd w = Some w' \<Longrightarrow> wk_step w w'"
| stop: "wk_stop w = Some w' \<Longrightarrow> wk_step w w'"
| eintr: "wk_eintr w = Some w' \<Longrightarrow> wk_step w w'"
| exits: "wk_step w (w\<lparr>wk_exited := insert pid (wk_exited w)\<rparr>)"
| spawn: "pid \<notin># cr_added (wk_core w) - cr_reaped (wk_core w) \<Longrightarrow>
    wk_step w (w\<lparr>wk_exited := wk_exited w - {pid}\<rparr>)"

inductive_cases wk_moveE: "wk_move w w'"
inductive_cases wk_stepE: "wk_step w w'"

section \<open>The simulation\<close>

lemmas wk_defs = wk_add_def wk_start_def wk_wake_def wk_take_def wk_poll_def wk_eintr_def wk_drain_def
  wk_reap_def wk_inline_def wk_waiter_def wk_stop_def wk_dtor_def

lemma wk_move_core:
  assumes "wk_move w w'" "dtor_inv (wk_core w)"
  shows "wk_core w' = wk_core w \<or> reaper_step False (wk_core w) (wk_core w')"
  using assms
proof (cases rule: wk_move.cases)
  case destructor
  then have "reaper_dtor_step (wk_core w) = Some (wk_core w')" "cr_starts (wk_core w) = 0"
    using assms(2) by (auto simp: wk_dtor_def dtor_inv_def split: if_splits)
  then show ?thesis by (blast intro: reaper_step.destructor)
qed (auto simp: wk_defs Let_def intro: reaper_step.intros
  split: if_splits prod.splits loop_pc.splits poll_phase.splits list.splits)

lemma wk_step_core:
  assumes "wk_step w w'" "dtor_inv (wk_core w)"
  shows "wk_core w' = wk_core w \<or> reaper_step False (wk_core w) (wk_core w')"
  using assms
proof (cases rule: wk_step.cases)
  case move
  then show ?thesis using wk_move_core assms(2) by blast
next
  case (add pid pidfd)
  then have "wk_core w' = reaper_add pid pidfd (wk_core w)" "cr_dtor (wk_core w) \<noteq> RGone"
    by (auto simp: wk_add_def split: if_splits)
  then show ?thesis by (simp add: reaper_step.add)
next
  case stop
  then show ?thesis by (auto simp: wk_stop_def intro: reaper_step.destructor split: if_splits)
next
  case eintr
  then show ?thesis by (auto simp: wk_eintr_def intro: reaper_step.eintr split: if_splits)
qed simp_all

section \<open>Invariants\<close>

definition phase_fits :: "wake_reaper \<Rightarrow> bool" where
  "phase_fits w \<longleftrightarrow>
     (case (cr_loop (wk_core w), wk_phase w) of
        (LPoll watched, Returned flags _) \<Rightarrow> length flags = length watched
      | (LPoll watched, Drained flags) \<Rightarrow> length flags = length watched
      | _ \<Rightarrow> True)"

text \<open>Children are left to the end of the loop only by the destructor.\<close>

definition inline_last :: "child_reaper \<Rightarrow> bool" where
  "inline_last r \<longleftrightarrow>
     (case cr_loop r of LInline cs \<Rightarrow> cs \<noteq> [] \<longrightarrow> cr_stopping r \<and> cr_pending r = [] | _ \<Rightarrow> True)"

definition lone_waiters :: "child_reaper \<Rightarrow> bool" where
  "lone_waiters r \<longleftrightarrow> (\<forall>v \<in># cr_waiters r. length v \<le> 1) \<and> (\<forall>cs. cr_loop r \<noteq> LFailed cs)"

text \<open>Why poll returned: a byte in the pipe, which is there until it is drained, or a child.\<close>

definition poll_reason :: "wake_reaper \<Rightarrow> bool" where
  "poll_reason w \<longleftrightarrow>
     (case (cr_loop (wk_core w), wk_phase w) of
        (LPoll _, Returned flags readable) \<Rightarrow>
          (readable \<or> True \<in> set flags) \<and> (readable \<longrightarrow> (\<exists>n. wk_pipe w = Some (Suc n)))
      | _ \<Rightarrow> True)"

text \<open>No wakeup is lost: over a queued child, or a stop, poll will return.\<close>

definition wakes_up :: "wake_reaper \<Rightarrow> bool" where
  "wakes_up w \<longleftrightarrow>
     wk_pipe w \<noteq> None \<longrightarrow> (\<exists>cs. cr_loop (wk_core w) = LPoll cs) \<longrightarrow> wk_phase w = AtPoll \<longrightarrow>
     cr_pending (wk_core w) \<noteq> [] \<or> cr_stopping (wk_core w) \<longrightarrow> wk_pipe w \<noteq> Some 0 \<or> wk_wakes w > 0"

lemma reaper_step_inline_last: "reaper_step False r r' \<Longrightarrow> inline_last r \<Longrightarrow> inline_last r'"
proof (induction rule: reaper_step.induct)
  case (polled answers r r')
  then show ?case by (auto simp: inline_last_def dest!: loop_polled_control)
next
  case (waiter w r r')
  then show ?case by (auto simp: inline_last_def dest!: waiter_done_control split: loop_pc.splits)
qed (auto simp: reaper_control_defs inline_last_def Let_def
    split: option.splits if_splits loop_pc.splits reaper_dtor.splits)

lemma reaper_step_lone_waiters: "reaper_step False r r' \<Longrightarrow> lone_waiters r \<Longrightarrow> lone_waiters r'"
proof (induction rule: reaper_step.induct)
  case (polled answers r r')
  then show ?case
    by (auto simp: lone_waiters_def loop_polled_def split: loop_pc.splits if_splits prod.splits)
next
  case (waiter w r r')
  then obtain pid fd rest where w: "w = (pid, fd) # rest" "w \<in># cr_waiters r"
    "cr_waiters r' = add_mset rest (cr_waiters r - {#w#})" "cr_loop r' = cr_loop r"
    by (auto simp: waiter_done_def split: list.splits if_splits)
  moreover have "length w \<le> 1" using waiter.prems w(2) by (simp add: lone_waiters_def)
  ultimately show ?case using waiter.prems by (auto simp: lone_waiters_def dest: in_diffD)
qed (auto simp: reaper_control_defs lone_waiters_def Let_def
    split: option.splits if_splits loop_pc.splits reaper_dtor.splits)

lemma wk_step_phase_fits:
  assumes "wk_step w w'" "phase_fits w"
  shows "phase_fits w'"
  using assms(1)
proof (cases rule: wk_step.cases)
  case move
  then show ?thesis
    using assms(2)
  proof (cases rule: wk_move.cases)
    case (reap zeros)
    then show ?thesis
      by (auto simp: wk_reap_def phase_fits_def dest!: loop_polled_control
          split: poll_phase.splits if_splits)
  next
    case (waiter v)
    then have "cr_loop (wk_core w') = cr_loop (wk_core w)" "wk_phase w' = wk_phase w"
      by (auto simp: wk_waiter_def dest!: waiter_done_control split: list.splits if_splits)
    then show ?thesis using assms(2) by (simp add: phase_fits_def)
  qed (auto simp: wk_defs phase_fits_def reaper_control_defs Let_def
      split: if_splits prod.splits loop_pc.splits poll_phase.splits reaper_dtor.splits)
next
  case (add pid pidfd)
  then have "cr_loop (wk_core w') = cr_loop (wk_core w)" "wk_phase w' = wk_phase w"
    by (auto simp: wk_add_def reaper_add_def Let_def split: if_splits option.splits)
  then show ?thesis using assms(2) by (simp add: phase_fits_def)
next
  case stop
  then have "cr_loop (wk_core w') = cr_loop (wk_core w)" "wk_phase w' = wk_phase w"
    by (auto simp: wk_stop_def reaper_dtor_step_def split: if_splits)
  then show ?thesis using assms(2) by (simp add: phase_fits_def)
next
  case eintr
  then show ?thesis
    by (auto simp: wk_eintr_def phase_fits_def loop_poll_eintr_def split: if_splits loop_pc.splits)
qed (use assms(2) in \<open>simp_all add: phase_fits_def\<close>)

lemma poll_reason_same:
  assumes "cr_loop (wk_core w') = cr_loop (wk_core w)" "wk_phase w' = wk_phase w" "wk_pipe w' = wk_pipe w"
  shows "poll_reason w' = poll_reason w"
  by (simp only: poll_reason_def assms)

lemma wk_step_poll_reason:
  assumes "wk_step w w'" "poll_reason w"
  shows "poll_reason w'"
  using assms(1)
proof (cases rule: wk_step.cases)
  case move
  then show ?thesis
    using assms(2)
  proof (cases rule: wk_move.cases)
    case (reap zeros)
    then show ?thesis
      by (auto simp: wk_reap_def poll_reason_def dest!: loop_polled_control
          split: poll_phase.splits if_splits)
  next
    case (waiter v)
    then have "cr_loop (wk_core w') = cr_loop (wk_core w)" "wk_phase w' = wk_phase w" "wk_pipe w' = wk_pipe w"
      by (auto simp: wk_waiter_def dest!: waiter_done_control split: list.splits if_splits)
    then show ?thesis using assms(2) poll_reason_same [of w' w] by blast
  next
    case wake
    then have "cr_loop (wk_core w') = cr_loop (wk_core w)" "wk_phase w' = wk_phase w"
      "\<exists>n. wk_pipe w = Some (Suc n) \<Longrightarrow> \<exists>n. wk_pipe w' = Some (Suc n)"
      by (auto simp: wk_wake_def split: if_splits)
    then show ?thesis using assms(2)
      by (auto simp: poll_reason_def split: loop_pc.splits poll_phase.splits)
  next
    case poll
    then show ?thesis
      by (auto simp: wk_poll_def poll_reason_def Let_def gr0_conv_Suc
          split: loop_pc.splits poll_phase.splits if_splits option.splits)
  qed (auto simp: wk_defs poll_reason_def reaper_control_defs Let_def
      split: if_splits prod.splits loop_pc.splits poll_phase.splits reaper_dtor.splits)
next
  case (add pid pidfd)
  then have "cr_loop (wk_core w') = cr_loop (wk_core w)" "wk_phase w' = wk_phase w" "wk_pipe w' = wk_pipe w"
    by (auto simp: wk_add_def reaper_add_def Let_def split: if_splits option.splits)
  then show ?thesis using assms(2) poll_reason_same [of w' w] by blast
next
  case stop
  then have "cr_loop (wk_core w') = cr_loop (wk_core w)" "wk_phase w' = wk_phase w" "wk_pipe w' = wk_pipe w"
    by (auto simp: wk_stop_def reaper_dtor_step_def split: if_splits)
  then show ?thesis using assms(2) poll_reason_same [of w' w] by blast
next
  case eintr
  then show ?thesis
    by (auto simp: wk_eintr_def poll_reason_def loop_poll_eintr_def split: if_splits loop_pc.splits)
next
  case exits
  then show ?thesis using assms(2) poll_reason_same [of w' w] by simp
next
  case spawn
  then show ?thesis using assms(2) poll_reason_same [of w' w] by simp
qed

lemma wk_step_wakes_up:
  assumes "wk_step w w'" "wakes_up w" "attended (wk_core w)"
  shows "wakes_up w'"
  using assms(1)
proof (cases rule: wk_step.cases)
  case move
  then show ?thesis
    using assms(2)
  proof (cases rule: wk_move.cases)
    case (reap zeros)
    then show ?thesis
      by (auto simp: wk_reap_def wakes_up_def dest!: loop_polled_control
          split: poll_phase.splits if_splits)
  next
    case (waiter v)
    then have "cr_loop (wk_core w') = cr_loop (wk_core w)" "cr_pending (wk_core w') = cr_pending (wk_core w)"
      "cr_stopping (wk_core w') = cr_stopping (wk_core w)"
      "wk_phase w' = wk_phase w" "wk_pipe w' = wk_pipe w" "wk_wakes w' = wk_wakes w"
      by (auto simp: wk_waiter_def dest!: waiter_done_control split: list.splits if_splits)
    then show ?thesis using assms(2) by (simp add: wakes_up_def)
  next
    case wake
    then show ?thesis
      by (auto simp: wk_wake_def wakes_up_def pipe_capacity_def split: if_splits)
  qed (auto simp: wk_defs wakes_up_def reaper_control_defs Let_def
      split: if_splits prod.splits loop_pc.splits poll_phase.splits reaper_dtor.splits)
next
  case (add pid pidfd)
  then show ?thesis
    using assms(2,3)
    by (auto simp: wk_add_def reaper_add_def wakes_up_def attended_def Let_def split: if_splits option.splits)
next
  case stop
  then show ?thesis by (auto simp: wk_stop_def wakes_up_def split: if_splits)
next
  case eintr
  then show ?thesis
    by (auto simp: wk_eintr_def wakes_up_def loop_poll_eintr_def split: if_splits loop_pc.splits)
qed (use assms(2) in \<open>simp_all add: wakes_up_def\<close>)

definition wk_inv :: "wake_reaper \<Rightarrow> bool" where
  "wk_inv w \<longleftrightarrow> accounted (wk_core w) \<and> dtor_inv (wk_core w) \<and> attended (wk_core w) \<and>
     inline_last (wk_core w) \<and> lone_waiters (wk_core w) \<and> phase_fits w \<and> poll_reason w \<and> wakes_up w"

lemma wk_step_inv:
  assumes "wk_step w w'" "wk_inv w"
  shows "wk_inv w'"
proof -
  have inv: "accounted (wk_core w)" "dtor_inv (wk_core w)" "attended (wk_core w)"
    "inline_last (wk_core w)" "lone_waiters (wk_core w)" "phase_fits w" "poll_reason w" "wakes_up w"
    using assms(2) by (auto simp: wk_inv_def)
  from wk_step_core [OF assms(1) inv(2)]
  have "accounted (wk_core w')" "dtor_inv (wk_core w')" "attended (wk_core w')"
    "inline_last (wk_core w')" "lone_waiters (wk_core w')"
    using inv reaper_step_accounted reaper_step_dtor_inv reaper_step_attended [of False]
      reaper_step_inline_last reaper_step_lone_waiters
    by (metis (no_types))+
  then show ?thesis
    using wk_step_phase_fits [OF assms(1) inv(6)] wk_step_poll_reason [OF assms(1) inv(7)]
      wk_step_wakes_up [OF assms(1) inv(8,3)]
    by (simp add: wk_inv_def)
qed

lemma wk_new_inv: "wk_inv (wk_new pipe)"
  by (simp add: wk_inv_def wk_new_def cr_new_def accounted_def dtor_inv_def attended_def inline_last_def
      lone_waiters_def phase_fits_def poll_reason_def wakes_up_def)

interpretation waking: simulation "\<lambda>w. \<exists>pipe. w = wk_new pipe" wk_step "\<lambda>r. r = cr_new" "reaper_step False"
    wk_core wk_inv
proof unfold_locales
  fix w w'
  show "\<exists>pipe. w = wk_new pipe \<Longrightarrow> wk_core w = cr_new" by (auto simp: wk_new_def)
  show "\<exists>pipe. w = wk_new pipe \<Longrightarrow> wk_inv w" by (auto intro: wk_new_inv)
  show "wk_step w w' \<Longrightarrow> wk_inv w \<Longrightarrow> wk_inv w'" by (rule wk_step_inv)
  show "wk_step w w' \<Longrightarrow> wk_inv w \<Longrightarrow> (reaper_step False)\<^sup>*\<^sup>* (wk_core w) (wk_core w')"
    using wk_step_core [of w w'] by (auto simp: wk_inv_def)
qed

text \<open>The pipe stays where it was created.\<close>

lemma wk_step_pipe: "wk_step w w' \<Longrightarrow> wk_pipe w \<noteq> None \<Longrightarrow> wk_pipe w' \<noteq> None"
proof (elim wk_stepE wk_moveE)
qed (auto simp: wk_defs Let_def split: if_splits prod.splits loop_pc.splits poll_phase.splits list.splits)

section \<open>Nothing is left to do where nothing can move\<close>

lemma wk_stuck_loop:
  assumes "wk_inv w" "\<nexists>w'. wk_move w w'"
  shows "wk_wakes w = 0"
    and "cr_loop (wk_core w) = LReturned \<Longrightarrow> \<not> cr_running (wk_core w)"
    and "cr_loop (wk_core w) \<noteq> LTake cs" "cr_loop (wk_core w) \<noteq> LFailed cs"
    and "cr_loop (wk_core w) = LPoll cs \<Longrightarrow> wk_phase w = AtPoll \<and> wk_pipe w \<in> {None, Some 0} \<and>
      (\<forall>c \<in> set cs. ch_pid c \<notin> wk_exited w)"
    and "cr_loop (wk_core w) = LInline cs \<Longrightarrow> \<exists>c \<in> set cs. ch_pid c \<notin> wk_exited w"
proof -
  have attended: "attended (wk_core w)" and fits: "phase_fits w" and lone: "lone_waiters (wk_core w)"
    using assms(1) by (auto simp: wk_inv_def)
  have stuck: "wk_start w = None" "wk_wake w = None" "wk_take w = None" "wk_poll w = None"
    "wk_drain w = None" "\<And>zeros. wk_reap zeros w = None" "wk_inline w = None"
    using assms(2) wk_move.intros by (metis not_None_eq)+
  show "wk_wakes w = 0" using stuck(2) by (simp add: wk_wake_def split: if_splits)
  show "\<not> cr_running (wk_core w)" if "cr_loop (wk_core w) = LReturned"
    using stuck(1) attended that by (auto simp: wk_start_def start_thread_def attended_def)
  show "cr_loop (wk_core w) \<noteq> LTake cs"
    using stuck(3) by (auto simp: wk_take_def loop_take_def split: prod.splits)
  show "cr_loop (wk_core w) \<noteq> LFailed cs" using lone by (simp add: lone_waiters_def)
  { assume poll: "cr_loop (wk_core w) = LPoll cs"
    have "wk_phase w = AtPoll"
    proof (cases "wk_phase w")
      case (Drained flags)
      then have "wk_reap (replicate (length flags) False) w \<noteq> None"
        using fits poll by (auto simp: wk_reap_def phase_fits_def loop_polled_def split: prod.splits)
      with stuck(6) [of "replicate (length flags) False"] show ?thesis by simp
    qed (use stuck(5) poll in \<open>simp_all add: wk_drain_def\<close>)
    with stuck(4) poll show "wk_phase w = AtPoll \<and> wk_pipe w \<in> {None, Some 0} \<and>
        (\<forall>c \<in> set cs. ch_pid c \<notin> wk_exited w)"
      by (auto simp: wk_poll_def Let_def split: if_splits option.splits) }
  show "\<exists>c \<in> set cs. ch_pid c \<notin> wk_exited w" if "cr_loop (wk_core w) = LInline cs"
    using stuck(7) that by (auto simp: wk_inline_def loop_inline_def split: if_splits)
qed

section \<open>The moves are bounded\<close>

text \<open>
  A child still watched or queued may cost a round of the loop, one that poll reported only a
  waiter; a byte in the pipe costs a round, and so does a \<open>wake ()\<close> still to come.
\<close>

definition flags_left :: "bool list \<Rightarrow> nat" where
  "flags_left flags = sum_list (map (\<lambda>f. if f then 1 else 5) flags)"

fun loop_left :: "loop_pc \<Rightarrow> poll_phase \<Rightarrow> nat" where
  "loop_left LReturned _ = 0"
| "loop_left (LTake cs) _ = 4 + 5 * length cs"
| "loop_left (LPoll cs) AtPoll = 3 + 5 * length cs"
| "loop_left (LPoll cs) (Returned flags _) = (if True \<in> set flags then 6 else 2) + flags_left flags"
| "loop_left (LPoll cs) (Drained flags) = 5 + flags_left flags"
| "loop_left (LFailed cs) _ = 1 + 5 * length cs"
| "loop_left (LInline cs) _ = 1 + 5 * length cs"

fun dtor_left :: "reaper_dtor \<Rightarrow> nat" where
  "dtor_left RStopping = 2"
| "dtor_left RJoined = 1"
| "dtor_left _ = 0"

definition waiters_left :: "waiter multiset \<Rightarrow> nat" where
  "waiters_left ws = \<Sum>\<^sub># (image_mset length ws)"

definition wk_left :: "wake_reaper \<Rightarrow> nat" where
  "wk_left w =
     11 * cr_starts (wk_core w) + 6 * wk_wakes w + (case wk_pipe w of Some (Suc _) \<Rightarrow> 5 | _ \<Rightarrow> 0) +
     5 * length (cr_pending (wk_core w)) +
     loop_left (cr_loop (wk_core w)) (wk_phase w) + waiters_left (cr_waiters (wk_core w)) +
     dtor_left (cr_dtor (wk_core w))"

lemma reap_signalled_left:
  assumes "length watched = length flags" "length flags = length zeros"
    "reap_signalled (zip watched (zip flags zeros)) = (kept, orphans, reaped, closed)"
  shows "5 * length kept + length orphans \<le> flags_left flags"
  using assms
proof (induction watched flags zeros arbitrary: kept orphans reaped closed rule: list_induct3)
  case (Cons c watched f flags z zeros)
  obtain kept' orphans' reaped' closed' where
    rest: "reap_signalled (zip watched (zip flags zeros)) = (kept', orphans', reaped', closed')"
    by (metis prod_cases4)
  with Cons show ?case by (auto simp: flags_left_def split: if_splits)
qed (simp add: flags_left_def)

lemma flags_left_poll:
  "flags_left (map f cs) + 4 * length (filter f cs) = 5 * length cs"
  by (induction cs) (simp_all add: flags_left_def)

lemma waiters_left_simps [simp]:
  "waiters_left (add_mset v ws) = length v + waiters_left ws"
  "waiters_left (ws + ws') = waiters_left ws + waiters_left ws'"
  "waiters_left (image_mset (\<lambda>pid. [(pid, None)]) (mset orphans)) = length orphans"
  by (simp_all add: waiters_left_def) (induction orphans; simp)

lemma waiters_left_remove: "v \<in># ws \<Longrightarrow> waiters_left ws = length v + waiters_left (ws - {#v#})"
  using waiters_left_simps(1) [of v "ws - {#v#}"] by simp

lemma wk_reap_left:
  assumes "wk_reap zeros w = Some w'" "phase_fits w"
  shows "wk_left w' < wk_left w"
proof -
  obtain flags where flags: "wk_phase w = Drained flags" "length zeros = length flags"
    and polled: "loop_polled (zip flags zeros) (wk_core w) = Some (wk_core w')" and w': "w' = w\<lparr>wk_core := wk_core w'\<rparr>"
    using assms(1) by (auto simp: wk_reap_def split: poll_phase.splits if_splits)
  obtain watched kept orphans reaped closed where
    core: "cr_loop (wk_core w) = LPoll watched"
    "reap_signalled (zip watched (zip flags zeros)) = (kept, orphans, reaped, closed)"
    "wk_core w' = (wk_core w)\<lparr>cr_loop := LTake kept,
       cr_waiters := cr_waiters (wk_core w) + mset (map (\<lambda>pid. [(pid, None)]) orphans),
       cr_reaped := cr_reaped (wk_core w) + mset reaped, cr_closed := cr_closed (wk_core w) + mset closed\<rparr>"
    using polled by (auto simp: loop_polled_def split: loop_pc.splits if_splits prod.splits)
  have "length watched = length flags" using assms(2) core(1) flags(1) by (simp add: phase_fits_def)
  from reap_signalled_left [OF this _ core(2)] flags(2) show ?thesis
    using core(1,3) flags(1)
    by (subst w') (simp add: wk_left_def)
qed

lemma wk_move_left:
  assumes "wk_move w w'" "phase_fits w" "poll_reason w"
  shows "wk_left w' < wk_left w"
  using assms(1)
proof (cases rule: wk_move.cases)
  case start
  then show ?thesis
    by (auto simp: wk_start_def start_thread_def wk_left_def split: if_splits)
next
  case wake
  then show ?thesis
    by (auto simp: wk_wake_def wk_left_def split: if_splits option.splits nat.splits)
next
  case take
  then show ?thesis
    by (auto simp: wk_take_def loop_take_def take_pending_def wk_left_def Let_def
        split: loop_pc.splits if_splits)
next
  case poll
  then obtain cs where loop: "cr_loop (wk_core w) = LPoll cs" "wk_phase w = AtPoll"
    by (auto simp: wk_poll_def split: loop_pc.splits poll_phase.splits)
  let ?f = "\<lambda>c. ch_pid c \<in> wk_exited w"
  obtain r where w': "w' = w\<lparr>wk_phase := Returned (map ?f cs) r\<rparr>"
    using poll loop by (auto simp: wk_poll_def Let_def split: if_splits)
  have "3 + flags_left (map ?f cs) < 5 * length cs" if "\<exists>c \<in> set cs. ?f c"
  proof -
    have "0 < length (filter ?f cs)" using that by (auto simp: filter_empty_conv)
    with flags_left_poll [of ?f cs] show ?thesis by linarith
  qed
  moreover have "flags_left (map ?f cs) \<le> 5 * length cs" using flags_left_poll [of ?f cs] by linarith
  ultimately show ?thesis unfolding w' by (auto simp: wk_left_def loop)
next
  case drain
  then show ?thesis
    using assms(3)
    by (auto simp: wk_drain_def wk_left_def poll_reason_def
        split: loop_pc.splits poll_phase.splits if_splits)
next
  case (reap zeros)
  then show ?thesis using wk_reap_left assms(2) by blast
next
  case reap_inline
  then show ?thesis
    by (auto simp: wk_inline_def loop_inline_def wk_left_def split: loop_pc.splits if_splits)
next
  case (waiter v)
  then obtain pid fd rest r where v: "v = (pid, fd) # rest" "v \<in># cr_waiters (wk_core w)"
    "w' = w\<lparr>wk_core := r\<rparr>" "waiter_done v (wk_core w) = Some r"
    by (auto simp: wk_waiter_def waiter_done_def split: list.splits if_splits)
  then have "cr_waiters r = add_mset rest (cr_waiters (wk_core w) - {#v#})"
    by (auto simp: waiter_done_def)
  with waiter_done_control [OF v(4)] waiters_left_remove [OF v(2)] v(1) show ?thesis
    by (simp add: wk_left_def v(3))
next
  case destructor
  then show ?thesis
    by (auto simp: wk_dtor_def reaper_dtor_step_def wk_left_def
        split: reaper_dtor.splits if_splits)
qed

section \<open>Schedules\<close>

datatype wake_action =
    WStart | WWake | WTake | WPoll | WDrain | WReap "bool list" | WInline | WWaiter waiter | WDtor
  | WAdd i32 "nat option" | WStop | WEintr | WExit i32

fun wk_try :: "wake_action \<Rightarrow> wake_reaper \<Rightarrow> wake_reaper option" where
  "wk_try WStart w = wk_start w"
| "wk_try WWake w = wk_wake w"
| "wk_try WTake w = wk_take w"
| "wk_try WPoll w = wk_poll w"
| "wk_try WDrain w = wk_drain w"
| "wk_try (WReap zeros) w = wk_reap zeros w"
| "wk_try WInline w = wk_inline w"
| "wk_try (WWaiter v) w = wk_waiter v w"
| "wk_try WDtor w = wk_dtor w"
| "wk_try (WAdd pid pidfd) w = wk_add pid pidfd w"
| "wk_try WStop w = wk_stop w"
| "wk_try WEintr w = wk_eintr w"
| "wk_try (WExit pid) w = Some (w\<lparr>wk_exited := insert pid (wk_exited w)\<rparr>)"

fun wk_run :: "wake_action list \<Rightarrow> wake_reaper \<Rightarrow> wake_reaper option" where
  "wk_run [] w = Some w"
| "wk_run (a # as) w = Option.bind (wk_try a w) (wk_run as)"

fun own_action :: "wake_action \<Rightarrow> bool" where
  "own_action (WAdd _ _) = False"
| "own_action WStop = False"
| "own_action WEintr = False"
| "own_action (WExit _) = False"
| "own_action _ = True"

lemma wk_try_move: "wk_try a w = Some w' \<Longrightarrow> own_action a \<Longrightarrow> wk_move w w'"
  by (cases a) (auto intro: wk_move.intros)

lemma wk_try_step: "wk_try a w = Some w' \<Longrightarrow> wk_step w w'"
  by (cases a) (auto intro: wk_step.intros wk_move.intros)

lemma wk_run_reachable: "wk_run as w = Some w' \<Longrightarrow> wk_step\<^sup>*\<^sup>* w w'"
proof (induction as arbitrary: w)
  case (Cons a as)
  then obtain v where "wk_try a w = Some v" "wk_run as v = Some w'" by (auto simp: bind_eq_Some_conv)
  with Cons.IH wk_try_step show ?case by (meson converse_rtranclp_into_rtranclp)
qed simp

lemma wk_run_moves: "wk_run as w = Some w' \<Longrightarrow> \<forall>a \<in> set as. own_action a \<Longrightarrow> (wk_move ^^ length as) w w'"
proof (induction as arbitrary: w)
  case (Cons a as)
  then obtain v where "wk_try a w = Some v" "wk_run as v = Some w'" by (auto simp: bind_eq_Some_conv)
  with Cons have "wk_move w v" "(wk_move ^^ length as) v w'" by (auto intro: wk_try_move)
  then show ?case unfolding length_Cons by (rule relpowp_Suc_I2)
qed simp

section \<open>Properties\<close>

lemma wk_run_inv:
  assumes "wk_step\<^sup>*\<^sup>* (wk_new (Some 0)) w"
  shows "wk_inv w" "wk_pipe w \<noteq> None"
proof -
  show "wk_inv w" using waking.run_keeps assms by blast
  show "wk_pipe w \<noteq> None"
    using assms
  proof (induction rule: rtranclp_induct)
    case base
    show ?case by (simp add: wk_new_def)
  next
    case (step w w')
    then show ?case using wk_step_pipe by blast
  qed
qed

lemma moves_are_wk_steps: "(wk_move ^^ m) w w' \<Longrightarrow> wk_step\<^sup>*\<^sup>* w w'"
  by (induction m arbitrary: w') (auto intro: rtranclp.rtrancl_into_rtrancl wk_step.move)

interpretation waking_moves: measured wk_move wk_left wk_inv
  by unfold_locales (blast intro: wk_step_inv wk_step.move, simp add: wk_move_left wk_inv_def)

text \<open>The children handed over and not waited for.\<close>

definition unreaped :: "wake_reaper \<Rightarrow> i32 multiset" where
  "unreaped w = cr_added (wk_core w) - cr_reaped (wk_core w)"

lemma unreaped_owners:
  "wk_inv w \<Longrightarrow> unreaped w = waiter_pids (cr_waiters (wk_core w)) + pids (cr_pending (wk_core w)) +
     pids (loop_children (cr_loop (wk_core w)))"
  by (simp add: wk_inv_def accounted_def unreaped_def)

lemma stuck_waiters:
  assumes "wk_inv w" "\<nexists>w'. wk_move w w'" "pid \<in># waiter_pids (cr_waiters (wk_core w))"
  shows "pid \<notin> wk_exited w"
proof -
  obtain v where v: "v \<in># cr_waiters (wk_core w)" "pid \<in> fst ` set v"
    using assms(3) by (auto simp: waiter_pids_def)
  have "length v \<le> 1" using assms(1) v(1) by (simp add: wk_inv_def lone_waiters_def)
  then obtain fd where "v = [(pid, fd)]" using v(2) by (cases v) auto
  moreover have "wk_waiter v w = None" using assms(2) wk_move.waiter by (metis not_None_eq)
  ultimately show ?thesis using v(1) by (auto simp: wk_waiter_def waiter_done_def split: if_splits)
qed

lemma stuck_loop_children:
  assumes "wk_inv w" "wk_pipe w \<noteq> None" "\<nexists>w'. wk_move w w'"
  shows "cr_pending (wk_core w) = []"
    and "cr_dtor (wk_core w) \<in> {RAlive, RGone} \<Longrightarrow>
      \<forall>c \<in> set (loop_children (cr_loop (wk_core w))). ch_pid c \<notin> wk_exited w"
    and "cr_dtor (wk_core w) \<in> {RStopping, RJoined} \<Longrightarrow>
      \<exists>c \<in> set (loop_children (cr_loop (wk_core w))). ch_pid c \<notin> wk_exited w"
proof -
  note stuck = wk_stuck_loop [OF assms(1,3)]
  have inv: "attended (wk_core w)" "dtor_inv (wk_core w)" "inline_last (wk_core w)" "wakes_up w"
    using assms(1) by (auto simp: wk_inv_def)
  show pending: "cr_pending (wk_core w) = []"
  proof (cases "cr_loop (wk_core w)")
    case LReturned
    with stuck(2) inv(1) show ?thesis by (auto simp: attended_def)
  next
    case (LPoll cs)
    with stuck(1) stuck(5) [OF LPoll] inv(4) assms(2) show ?thesis by (auto simp: wakes_up_def)
  next
    case (LInline cs)
    with stuck(6) [OF LInline] inv(3) show ?thesis by (auto simp: inline_last_def)
  qed (use stuck(3,4) in blast)+
  have "\<not> (cr_dtor (wk_core w) \<in> {RStopping, RJoined} \<and> cr_loop (wk_core w) = LReturned)"
  proof
    assume *: "cr_dtor (wk_core w) \<in> {RStopping, RJoined} \<and> cr_loop (wk_core w) = LReturned"
    then have "wk_dtor w \<noteq> None"
      using stuck(1) pending by (auto simp: wk_dtor_def reaper_dtor_step_def)
    with assms(3) wk_move.destructor show False by blast
  qed
  then have returned: "cr_dtor (wk_core w) \<in> {RStopping, RJoined} \<Longrightarrow> cr_loop (wk_core w) \<noteq> LReturned"
    by blast
  show "\<exists>c \<in> set (loop_children (cr_loop (wk_core w))). ch_pid c \<notin> wk_exited w"
    if dtor: "cr_dtor (wk_core w) \<in> {RStopping, RJoined}"
  proof (cases "cr_loop (wk_core w)")
    case (LPoll cs)
    then show ?thesis
      using stuck(1) stuck(5) [OF LPoll] inv(2,4) assms(2) dtor by (auto simp: wakes_up_def dtor_inv_def)
  next
    case (LInline cs)
    with stuck(6) [OF LInline] show ?thesis by simp
  qed (use stuck(3,4) returned [OF dtor] in blast)+
  show "\<forall>c \<in> set (loop_children (cr_loop (wk_core w))). ch_pid c \<notin> wk_exited w"
    if dtor: "cr_dtor (wk_core w) \<in> {RAlive, RGone}"
  proof (cases "cr_loop (wk_core w)")
    case (LPoll cs)
    with stuck(5) [OF LPoll] show ?thesis by simp
  next
    case (LInline cs)
    with stuck(6) [OF LInline] inv(2,3) dtor show ?thesis by (auto simp: inline_last_def dtor_inv_def)
  qed (use stuck(3,4) in auto)
qed

text \<open>
  C20. The reaper leaves no zombies: if its pipe could be created and poll fails only with
  EINTR, then between two outside events (an add, an exit, a signal, the start of the
  destructor) its threads make only boundedly many moves, and where none of them can move no
  child is queued and no child handed over that has exited is left unwaited for; only a
  destructor waits, by its contract, for a child that still runs.
\<close>

theorem reaper_leaves_no_zombies:
  assumes "wk_step\<^sup>*\<^sup>* (wk_new (Some 0)) w" "(wk_move ^^ m) w w'"
  shows "m \<le> wk_left w \<and>
    ((\<nexists>v. wk_move w' v) \<longrightarrow> cr_pending (wk_core w') = [] \<and>
      (if cr_dtor (wk_core w') \<in> {RAlive, RGone} then \<forall>pid \<in># unreaped w'. pid \<notin> wk_exited w'
       else \<exists>pid \<in># unreaped w'. pid \<notin> wk_exited w'))"
proof -
  have run: "wk_step\<^sup>*\<^sup>* (wk_new (Some 0)) w'"
    using assms(1) moves_are_wk_steps [OF assms(2)] by (rule rtranclp_trans)
  note inv = wk_run_inv [OF run]
  have "m \<le> wk_left w" using waking_moves.moves_bounded [OF assms(2)] wk_run_inv(1) [OF assms(1)] by simp
  moreover have "cr_pending (wk_core w') = [] \<and>
      (if cr_dtor (wk_core w') \<in> {RAlive, RGone} then \<forall>pid \<in># unreaped w'. pid \<notin> wk_exited w'
       else \<exists>pid \<in># unreaped w'. pid \<notin> wk_exited w')" if stuck: "\<nexists>v. wk_move w' v"
  proof -
    note children = stuck_loop_children [OF inv stuck]
    have owners: "set_mset (unreaped w') = set_mset (waiter_pids (cr_waiters (wk_core w'))) \<union>
        ch_pid ` set (loop_children (cr_loop (wk_core w')))"
      using children(1) by (simp add: unreaped_owners [OF inv(1)])
    have "\<forall>pid \<in># unreaped w'. pid \<notin> wk_exited w'" if "cr_dtor (wk_core w') \<in> {RAlive, RGone}"
      using children(2) [OF that] stuck_waiters [OF inv(1) stuck] unfolding owners by blast
    moreover have "\<exists>pid \<in># unreaped w'. pid \<notin> wk_exited w'" if "cr_dtor (wk_core w') \<notin> {RAlive, RGone}"
    proof -
      have "cr_dtor (wk_core w') \<in> {RStopping, RJoined}" using that by (cases "cr_dtor (wk_core w')") auto
      from children(3) [OF this] show ?thesis unfolding owners by blast
    qed
    ultimately show ?thesis using children(1) by simp
  qed
  ultimately show ?thesis by blast
qed

text \<open>
  A child is added while the loop polls, and exits; its wakeup arrives while the pipe is being
  drained for the one before.
\<close>

definition example_start :: "wake_action list" where
  "example_start = [WAdd 7 (Some 3), WStart, WWake, WTake, WAdd 8 (Some 4), WExit 8]"

definition example_rest :: "wake_action list" where
  "example_rest = [WPoll, WDrain, WWake, WReap [False], WTake, WPoll, WDrain, WReap [False, False], WTake]"

lemmas wk_example_defs = example_start_def example_rest_def wk_defs wk_new_def reaper_defs cr_new_def
  pipe_capacity_def Let_def

theorem reaper_leaves_no_zombies_witness:
  "\<exists>w w'. wk_run example_start (wk_new (Some 0)) = Some w \<and> 8 \<in># unreaped w \<and> 8 \<in> wk_exited w \<and>
     (wk_move ^^ 9) w w' \<and> 9 \<le> wk_left w \<and> cr_pending (wk_core w') = [] \<and>
     8 \<notin># unreaped w' \<and> unreaped w' = {#7#}"
proof -
  obtain w w' where w: "wk_run example_start (wk_new (Some 0)) = Some w" "8 \<in># unreaped w" "8 \<in> wk_exited w"
    and w': "wk_run example_rest w = Some w'" "unreaped w' = {#7#}" "cr_dtor (wk_core w') = RAlive"
    and stuck: "wk_start w' = None" "wk_wake w' = None" "wk_take w' = None" "wk_poll w' = None"
      "wk_drain w' = None" "\<And>zeros. wk_reap zeros w' = None" "wk_inline w' = None"
      "\<And>v. wk_waiter v w' = None" "wk_dtor w' = None"
    by (simp add: wk_example_defs unreaped_def split: list.splits)
  have "length example_rest = 9" "\<forall>a \<in> set example_rest. own_action a"
    by (simp_all add: example_rest_def)
  with wk_run_moves [OF w'(1)] have moves: "(wk_move ^^ 9) w w'" by metis
  have "\<nexists>v. wk_move w' v" using stuck by (auto elim: wk_moveE)
  with reaper_leaves_no_zombies [OF wk_run_reachable [OF w(1)] moves] w w'(2) moves show ?thesis by auto
qed

text \<open>
  Without the pipe the loop is not told of a child added while it polls: here one that has
  exited stays a zombie for as long as the other one runs.
\<close>

lemma failed_pipe_leaves_a_zombie:
  "\<exists>w. wk_step\<^sup>*\<^sup>* (wk_new None) w \<and> (\<nexists>v. wk_move w v) \<and> cr_dtor (wk_core w) = RAlive \<and>
     cr_pending (wk_core w) = [\<lparr>ch_pid = 8, ch_pidfd = 4\<rparr>] \<and> 8 \<in> wk_exited w"
proof -
  obtain w where w: "wk_run (example_start @ [WWake]) (wk_new None) = Some w" "cr_dtor (wk_core w) = RAlive"
      "cr_pending (wk_core w) = [\<lparr>ch_pid = 8, ch_pidfd = 4\<rparr>]" "8 \<in> wk_exited w"
    and stuck: "wk_start w = None" "wk_wake w = None" "wk_take w = None" "wk_poll w = None"
      "wk_drain w = None" "\<And>zeros. wk_reap zeros w = None" "wk_inline w = None"
      "\<And>v. wk_waiter v w = None" "wk_dtor w = None"
    by (simp add: wk_example_defs split: list.splits)
  have "\<nexists>v. wk_move w v" using stuck by (auto elim: wk_moveE)
  with wk_run_reachable [OF w(1)] w(2-) show ?thesis by blast
qed

end
