(* ===== verification/Dart_Api.thy ===== *)
theory Dart_Api
  imports Bridge_Prelude
begin

text \<open>
  The dynamically linked Dart API: native/src/dart_api_dl.c with the symbol tables of
  native/include/dart_api_dl.h, the message objects of native/include/dart_native_api.h,
  and \<open>flatpak_bridge_init\<close>. A \<open>..._DL\<close> function pointer is an entry of a table from
  symbol names; an entry without a value is the NULL the pointer starts as.
\<close>

section \<open>Message objects\<close>

datatype Dart_CObject_Type =
    Dart_CObject_kNull
  | Dart_CObject_kBool
  | Dart_CObject_kInt32
  | Dart_CObject_kInt64
  | Dart_CObject_kDouble
  | Dart_CObject_kString
  | Dart_CObject_kArray
  | Dart_CObject_kTypedData
  | Dart_CObject_kExternalTypedData
  | Dart_CObject_kSendPort
  | Dart_CObject_kCapability
  | Dart_CObject_kNativePointer
  | Dart_CObject_kUnsupported
  | Dart_CObject_kUnmodifiableExternalTypedData
  | Dart_CObject_kNumberOfTypes

datatype Dart_TypedData_Type =
    Dart_TypedData_kByteData
  | Dart_TypedData_kInt8
  | Dart_TypedData_kUint8
  | Dart_TypedData_kUint8Clamped
  | Dart_TypedData_kInt16
  | Dart_TypedData_kUint16
  | Dart_TypedData_kInt32
  | Dart_TypedData_kUint32
  | Dart_TypedData_kInt64
  | Dart_TypedData_kUint64
  | Dart_TypedData_kFloat32
  | Dart_TypedData_kFloat64
  | Dart_TypedData_kInt32x4
  | Dart_TypedData_kFloat32x4
  | Dart_TypedData_kFloat64x2
  | Dart_TypedData_kInvalid

text \<open>
  The tagged union. A double is its bit pattern, a pointer an opaque number; the length
  of typed data is the \<open>intptr_t\<close> beside the data pointer, and \<open>peer\<close> names the heap
  object the finalizer callback is given.
\<close>

datatype Dart_CObject =
    AsNull
  | AsBool bool
  | AsInt32 i32
  | AsInt64 u64
  | AsDouble u64
  | AsString string
  | AsSendPort port port
  | AsCapability u64
  | AsArray "Dart_CObject list"
  | AsTypedData Dart_TypedData_Type u64 "byte list"
  | AsExternalTypedData Dart_TypedData_Type u64 "byte list" nat
  | AsNativePointer u64 u64

fun cobject_type :: "Dart_CObject \<Rightarrow> Dart_CObject_Type" where
  "cobject_type AsNull = Dart_CObject_kNull"
| "cobject_type (AsBool _) = Dart_CObject_kBool"
| "cobject_type (AsInt32 _) = Dart_CObject_kInt32"
| "cobject_type (AsInt64 _) = Dart_CObject_kInt64"
| "cobject_type (AsDouble _) = Dart_CObject_kDouble"
| "cobject_type (AsString _) = Dart_CObject_kString"
| "cobject_type (AsSendPort _ _) = Dart_CObject_kSendPort"
| "cobject_type (AsCapability _) = Dart_CObject_kCapability"
| "cobject_type (AsArray _) = Dart_CObject_kArray"
| "cobject_type (AsTypedData _ _ _) = Dart_CObject_kTypedData"
| "cobject_type (AsExternalTypedData _ _ _ _) = Dart_CObject_kExternalTypedData"
| "cobject_type (AsNativePointer _ _) = Dart_CObject_kNativePointer"

text \<open>
  The elements the VM reads from typed data: as many as \<open>length\<close> says, from the data
  pointer. Reading past the data is undefined.
\<close>

fun cobject_bytes :: "Dart_CObject \<Rightarrow> byte list option" where
  "cobject_bytes (AsTypedData _ n bs) =
     (if unat n \<le> length bs then Some (take (unat n) bs) else None)"
| "cobject_bytes (AsExternalTypedData _ n bs _) =
     (if unat n \<le> length bs then Some (take (unat n) bs) else None)"
| "cobject_bytes _ = None"

section \<open>The symbol table\<close>

definition DART_API_DL_MAJOR_VERSION :: int where
  "DART_API_DL_MAJOR_VERSION = 2"

definition DART_API_DL_MINOR_VERSION :: int where
  "DART_API_DL_MINOR_VERSION = 6"

text \<open>The entries end at the first NULL name, here the end of the list.\<close>

type_synonym 'f entries = "(string \<times> 'f) list"

record 'f DartApi =
  api_major :: int
  api_minor :: int
  api_functions :: "'f entries"

datatype 'f fnptr = VmFunction 'f | DeprecatedNop string

type_synonym 'f dl_table = "string \<Rightarrow> 'f fnptr option"

definition null_table :: "'f dl_table" where
  "null_table = (\<lambda>_. None)"

definition DART_NATIVE_API_DL_SYMBOLS :: "string list" where
  "DART_NATIVE_API_DL_SYMBOLS = [
     ''Dart_PostCObject'', ''Dart_PostInteger'', ''Dart_NewNativePort'',
     ''Dart_CloseNativePort'']"

definition DART_API_DL_SYMBOLS :: "string list" where
  "DART_API_DL_SYMBOLS = [
     ''Dart_IsError'', ''Dart_IsApiError'', ''Dart_IsUnhandledExceptionError'',
     ''Dart_IsCompilationError'', ''Dart_IsFatalError'', ''Dart_GetError'',
     ''Dart_ErrorHasException'', ''Dart_ErrorGetException'', ''Dart_ErrorGetStackTrace'',
     ''Dart_NewApiError'', ''Dart_NewCompilationError'', ''Dart_NewUnhandledExceptionError'',
     ''Dart_PropagateError'', ''Dart_HandleFromPersistent'',
     ''Dart_HandleFromWeakPersistent'', ''Dart_NewPersistentHandle'',
     ''Dart_SetPersistentHandle'', ''Dart_DeletePersistentHandle'',
     ''Dart_NewWeakPersistentHandle'', ''Dart_DeleteWeakPersistentHandle'',
     ''Dart_NewFinalizableHandle'', ''Dart_DeleteFinalizableHandle'',
     ''Dart_CurrentIsolate'', ''Dart_ExitIsolate'', ''Dart_EnterIsolate'',
     ''Dart_GetMainPortId'', ''Dart_Post'', ''Dart_NewSendPort'', ''Dart_NewSendPortEx'',
     ''Dart_SendPortGetId'', ''Dart_SendPortGetIdEx'', ''Dart_GetCurrentThreadOwnsIsolate'',
     ''Dart_EnterScope'', ''Dart_ExitScope'', ''Dart_IsNull'', ''Dart_Null'']"

definition DART_API_ALL_DL_SYMBOLS :: "string list" where
  "DART_API_ALL_DL_SYMBOLS = DART_NATIVE_API_DL_SYMBOLS @ DART_API_DL_SYMBOLS"

definition DART_API_DEPRECATED_DL_SYMBOLS :: "string list" where
  "DART_API_DEPRECATED_DL_SYMBOLS = [''Dart_UpdateExternalSize'', ''Dart_UpdateFinalizableExternalSize'']"

fun FindFunctionPointer :: "'f entries \<Rightarrow> string \<Rightarrow> 'f option" where
  "FindFunctionPointer [] name = None"
| "FindFunctionPointer ((n, f) # es) name =
     (if n = name then Some f else FindFunctionPointer es name)"

definition Dart_InitializeApiDL :: "'f DartApi \<Rightarrow> 'f dl_table \<Rightarrow> int \<times> 'f dl_table" where
  "Dart_InitializeApiDL data tbl =
     (if api_major data \<noteq> DART_API_DL_MAJOR_VERSION then (-1, tbl)
      else
        (let fns = api_functions data;
             tbl = foldl (\<lambda>t name. t(name := map_option VmFunction (FindFunctionPointer fns name)))
                     tbl DART_API_ALL_DL_SYMBOLS;
             tbl = foldl (\<lambda>t name. t(name := Some (DeprecatedNop (name @ ''_Deprecated''))))
                     tbl DART_API_DEPRECATED_DL_SYMBOLS
         in (0, tbl)))"

text \<open>The exported initialiser drops the result.\<close>

definition flatpak_bridge_init :: "'f DartApi \<Rightarrow> 'f dl_table \<Rightarrow> 'f dl_table" where
  "flatpak_bridge_init data tbl = snd (Dart_InitializeApiDL data tbl)"

section \<open>Lemmas\<close>

lemma FindFunctionPointer_map_of: "FindFunctionPointer es name = map_of es name"
  by (induction es) auto

lemma foldl_fun_upd:
  "foldl (\<lambda>t n. t(n := f n)) tbl ns = (\<lambda>n. if n \<in> set ns then f n else tbl n)"
  by (induction ns arbitrary: tbl) (auto simp: fun_eq_iff)

lemma initialize_ok:
  assumes "api_major data = DART_API_DL_MAJOR_VERSION"
  shows "Dart_InitializeApiDL data tbl =
    (0, \<lambda>n. if n \<in> set DART_API_DEPRECATED_DL_SYMBOLS then Some (DeprecatedNop (n @ ''_Deprecated''))
         else if n \<in> set DART_API_ALL_DL_SYMBOLS
           then map_option VmFunction (map_of (api_functions data) n)
         else tbl n)"
  using assms
  by (simp add: Dart_InitializeApiDL_def foldl_fun_upd FindFunctionPointer_map_of)

lemma initialize_refused:
  "api_major data \<noteq> DART_API_DL_MAJOR_VERSION \<Longrightarrow> Dart_InitializeApiDL data tbl = (-1, tbl)"
  by (simp add: Dart_InitializeApiDL_def)

lemma post_symbol:
  "''Dart_PostCObject'' \<in> set DART_API_ALL_DL_SYMBOLS"
  "''Dart_PostCObject'' \<notin> set DART_API_DEPRECATED_DL_SYMBOLS"
  by (simp_all add: DART_API_ALL_DL_SYMBOLS_def DART_NATIVE_API_DL_SYMBOLS_def
      DART_API_DEPRECATED_DL_SYMBOLS_def)

section \<open>Properties\<close>

text \<open>
  Initialising against a VM with the right major version binds every symbol of the API
  to the function the VM's table lists first under its name, or to NULL where the table has
  none, binds the deprecated symbols to the local stubs, and touches nothing else; against
  any other major version it returns -1 and binds nothing.
\<close>

lemma initialize_binds_symbols:
  "Dart_InitializeApiDL data tbl =
    (if api_major data = 2 then
       (0, \<lambda>n. if n \<in> set DART_API_DEPRECATED_DL_SYMBOLS then Some (DeprecatedNop (n @ ''_Deprecated''))
            else if n \<in> set DART_API_ALL_DL_SYMBOLS
              then map_option VmFunction (map_of (api_functions data) n)
            else tbl n)
     else (-1, tbl))"
  using initialize_ok [of data tbl] initialize_refused [of data tbl]
  by (simp add: DART_API_DL_MAJOR_VERSION_def)

end
