(* ===== verification/Posting.thy ===== *)
theory Posting
  imports Dart_Api
begin

text \<open>
  native/include/flatpak_post.h: the two ways to hand bytes to the VM and the two frames.
  The bridge's heap of posted buffers and the VM's side of the hand-over (the messages it
  enqueued and the finalizers it still owes) are explicit, so that the ownership rule of
  \<open>post_owned\<close> is an invariant. The operations of the bridges produce lists of \<open>post\<close>
  calls; \<open>emit_all\<close> runs such a list against a poster.
\<close>

section \<open>Calls\<close>

datatype post = PostOwned port "byte list" | PostCopy port "byte list"

fun post_port :: "post \<Rightarrow> port" where
  "post_port (PostOwned p _) = p"
| "post_port (PostCopy p _) = p"

fun post_bytes :: "post \<Rightarrow> byte list" where
  "post_bytes (PostOwned _ bs) = bs"
| "post_bytes (PostCopy _ bs) = bs"

text \<open>The bytes \<open>strlen\<close> and \<open>memcpy\<close> see of a string: up to its first NUL.\<close>

definition c_str :: "string \<Rightarrow> string" where
  "c_str s = takeWhile (\<lambda>c. c \<noteq> CHR 0x00) s"

definition post_framed :: "port \<Rightarrow> byte \<Rightarrow> byte list \<Rightarrow> post" where
  "post_framed p discriminator data = PostOwned p (discriminator # data)"

text \<open>The length is cut to 32 bits, and only that many bytes are copied.\<close>

definition post_framed_error :: "port \<Rightarrow> byte \<Rightarrow> string \<Rightarrow> post" where
  "post_framed_error p discriminator msg =
     (let len = of_nat (length (c_str msg)) :: u32
      in PostOwned p
           (discriminator # le_bytes 4 len @ take (unat len) (bytes_of (c_str msg))))"

section \<open>The hand-over to the VM\<close>

record 'f bridge =
  br_dl :: "'f dl_table"
  br_heap :: "nat \<Rightarrow> byte list option"
  br_next :: nat
  br_queue :: "(port \<times> Dart_CObject) list"
  br_due :: "nat list"

definition bridge_start :: "'f dl_table \<Rightarrow> 'f bridge" where
  "bridge_start dl =
     \<lparr>br_dl = dl, br_heap = (\<lambda>_. None), br_next = 0, br_queue = [], br_due = []\<rparr>"

fun cobject_peers :: "Dart_CObject \<Rightarrow> nat list" where
  "cobject_peers (AsExternalTypedData _ _ _ peer) = [peer]"
| "cobject_peers _ = []"

text \<open>
  The call through the function pointer; calling the NULL pointer is undefined, \<open>None\<close>.
  \<open>accepts\<close> is the VM's answer for a port: an accepted message is enqueued and its
  finalizer becomes due, a refused one leaves no trace.
\<close>

definition Dart_PostCObject_DL ::
    "(port \<Rightarrow> bool) \<Rightarrow> port \<Rightarrow> Dart_CObject \<Rightarrow> 'f bridge \<Rightarrow> (bool \<times> 'f bridge) option" where
  "Dart_PostCObject_DL accepts p obj st =
     (case br_dl st ''Dart_PostCObject'' of
        None \<Rightarrow> None
      | Some _ \<Rightarrow>
          Some (if accepts p
                then (True, st\<lparr>br_queue := br_queue st @ [(p, obj)],
                               br_due := br_due st @ cobject_peers obj\<rparr>)
                else (False, st)))"

text \<open>\<open>delete\<close> of a buffer: undefined when it is not allocated.\<close>

definition delete_buffer :: "nat \<Rightarrow> 'f bridge \<Rightarrow> 'f bridge option" where
  "delete_buffer peer st =
     (case br_heap st peer of
        None \<Rightarrow> None
      | Some _ \<Rightarrow> Some (st\<lparr>br_heap := (br_heap st)(peer := None)\<rparr>))"

definition release_buffer :: "nat \<Rightarrow> 'f bridge \<Rightarrow> 'f bridge option" where
  "release_buffer peer st = delete_buffer peer st"

definition post_owned :: "(port \<Rightarrow> bool) \<Rightarrow> port \<Rightarrow> byte list \<Rightarrow> 'f bridge \<Rightarrow> 'f bridge option" where
  "post_owned accepts p buf st =
     (let owned = br_next st;
          st = st\<lparr>br_heap := (br_heap st)(owned := Some buf), br_next := Suc owned\<rparr>;
          obj = AsExternalTypedData Dart_TypedData_kUint8 (of_nat (length buf)) buf owned
      in case Dart_PostCObject_DL accepts p obj st of
           None \<Rightarrow> None
         | Some (ok, st) \<Rightarrow> if \<not> ok then delete_buffer owned st else Some st)"

definition post_copy :: "(port \<Rightarrow> bool) \<Rightarrow> port \<Rightarrow> byte list \<Rightarrow> 'f bridge \<Rightarrow> 'f bridge option" where
  "post_copy accepts p data st =
     map_option snd
       (Dart_PostCObject_DL accepts p
         (AsTypedData Dart_TypedData_kUint8 (of_nat (length data)) data) st)"

fun run_post :: "(port \<Rightarrow> bool) \<Rightarrow> post \<Rightarrow> 'f bridge \<Rightarrow> 'f bridge option" where
  "run_post accepts (PostOwned p bs) st = post_owned accepts p bs st"
| "run_post accepts (PostCopy p bs) st = post_copy accepts p bs st"

text \<open>The VM runs the finalizer of a message it has collected, once, at any later time.\<close>

definition vm_finalize :: "nat \<Rightarrow> 'f bridge \<Rightarrow> 'f bridge option" where
  "vm_finalize i st =
     (if i < length (br_due st)
      then release_buffer (br_due st ! i)
             (st\<lparr>br_due := take i (br_due st) @ drop (Suc i) (br_due st)\<rparr>)
      else Some st)"

datatype vm_action = DoPost post | DoFinalize nat

fun vm_run :: "(port \<Rightarrow> bool) \<Rightarrow> vm_action list \<Rightarrow> 'f bridge \<Rightarrow> 'f bridge option" where
  "vm_run accepts [] st = Some st"
| "vm_run accepts (DoPost p # as) st = Option.bind (run_post accepts p st) (vm_run accepts as)"
| "vm_run accepts (DoFinalize i # as) st = Option.bind (vm_finalize i st) (vm_run accepts as)"

fun emit_all :: "('p \<Rightarrow> 's \<Rightarrow> 's option) \<Rightarrow> 'p list \<Rightarrow> 's \<Rightarrow> 's option" where
  "emit_all emit [] s = Some s"
| "emit_all emit (p # ps) s = Option.bind (emit p s) (emit_all emit ps)"

section \<open>The contract of a poster\<close>

text \<open>
  What a bridge operation relies on when it posts: a ready poster takes every message, and
  what arrives is the message's bytes on the message's port, if that port is open.
\<close>

locale poster =
  fixes emit :: "post \<Rightarrow> 's \<Rightarrow> 's option"
    and ready :: "'s \<Rightarrow> bool"
    and arrived :: "'s \<Rightarrow> (port \<times> byte list option) list"
    and open_port :: "port \<Rightarrow> bool"
    and fitting :: "post \<Rightarrow> bool"
  assumes emit_ready: "ready s \<Longrightarrow> fitting p \<Longrightarrow>
    \<exists>s'. emit p s = Some s' \<and> ready s' \<and>
      arrived s' = arrived s @
        (if open_port (post_port p) then [(post_port p, Some (post_bytes p))] else [])"
begin

lemma emit_all_ready:
  assumes "ready s" "\<forall>p \<in> set ps. fitting p"
  shows "\<exists>s'. emit_all emit ps s = Some s' \<and> ready s' \<and>
    arrived s' = arrived s @
      map (\<lambda>p. (post_port p, Some (post_bytes p))) (filter (open_port \<circ> post_port) ps)"
  using assms
proof (induction ps arbitrary: s)
  case Nil
  then show ?case by simp
next
  case (Cons p ps)
  obtain s1 where s1: "emit p s = Some s1" "ready s1"
    "arrived s1 = arrived s @
       (if open_port (post_port p) then [(post_port p, Some (post_bytes p))] else [])"
    using emit_ready [of s p] Cons.prems by auto
  with Cons.IH [OF s1(2)] Cons.prems show ?case by auto
qed

lemma emit_all_one_port:
  assumes "ready s" "\<forall>p \<in> set ps. fitting p \<and> post_port p = port" "open_port port"
  shows "\<exists>s'. emit_all emit ps s = Some s' \<and>
    arrived s' = arrived s @ map (\<lambda>p. (port, Some (post_bytes p))) ps"
proof -
  have "filter (open_port \<circ> post_port) ps = ps"
    using assms(2,3) by (auto simp: filter_id_conv)
  moreover have "map (\<lambda>p. (post_port p, Some (post_bytes p))) ps = map (\<lambda>p. (port, Some (post_bytes p))) ps"
    using assms(2) by simp
  ultimately show ?thesis using emit_all_ready [OF assms(1), of ps] assms(2) by auto
qed

end

section \<open>The posting helpers meet the contract\<close>

definition dl_ready :: "'f bridge \<Rightarrow> bool" where
  "dl_ready st \<longleftrightarrow> br_dl st ''Dart_PostCObject'' \<noteq> None"

definition queued_bytes :: "'f bridge \<Rightarrow> (port \<times> byte list option) list" where
  "queued_bytes st = map (\<lambda>(p, obj). (p, cobject_bytes obj)) (br_queue st)"

definition post_fits :: "post \<Rightarrow> bool" where
  "post_fits p \<longleftrightarrow> length (post_bytes p) < 2 ^ 63"

lemma post_copy_ready:
  assumes "dl_ready st" "length bs < 2 ^ 63"
  shows "\<exists>st'. post_copy accepts p bs st = Some st' \<and> dl_ready st' \<and>
    queued_bytes st' = queued_bytes st @ (if accepts p then [(p, Some bs)] else [])"
  using assms
  by (auto simp: post_copy_def Dart_PostCObject_DL_def dl_ready_def queued_bytes_def unat_of_nat_lt)

lemma post_owned_ready:
  assumes "dl_ready st" "length bs < 2 ^ 63"
  shows "\<exists>st'. post_owned accepts p bs st = Some st' \<and> dl_ready st' \<and>
    queued_bytes st' = queued_bytes st @ (if accepts p then [(p, Some bs)] else [])"
  using assms
  by (auto simp: post_owned_def Let_def Dart_PostCObject_DL_def dl_ready_def queued_bytes_def
      delete_buffer_def unat_of_nat_lt)

interpretation dart: poster "run_post accepts" dl_ready queued_bytes accepts post_fits for accepts
proof unfold_locales
  fix s :: "'f bridge" and p
  assume "dl_ready s" "post_fits p"
  then show "\<exists>s'. run_post accepts p s = Some s' \<and> dl_ready s' \<and>
      queued_bytes s' = queued_bytes s @
        (if accepts (post_port p) then [(post_port p, Some (post_bytes p))] else [])"
    using post_owned_ready [of s "post_bytes p" accepts "post_port p"]
      post_copy_ready [of s "post_bytes p" accepts "post_port p"]
    by (cases p) (simp_all add: post_fits_def)
qed

section \<open>Ownership\<close>

text \<open>
  The allocated buffers are exactly those whose finalizer the VM still owes, each of them
  once.
\<close>

definition own_inv :: "'f bridge \<Rightarrow> bool" where
  "own_inv st \<longleftrightarrow> dl_ready st \<and> distinct (br_due st) \<and> dom (br_heap st) = set (br_due st) \<and>
     (\<forall>peer \<in> dom (br_heap st). peer < br_next st)"

lemma own_inv_start: "dl ''Dart_PostCObject'' \<noteq> None \<Longrightarrow> own_inv (bridge_start dl)"
  by (simp add: own_inv_def bridge_start_def dl_ready_def)

lemma own_inv_post_copy:
  assumes "own_inv st"
  shows "\<exists>st'. post_copy accepts p bs st = Some st' \<and> own_inv st'"
  using assms by (auto simp: post_copy_def Dart_PostCObject_DL_def own_inv_def dl_ready_def)

lemma own_inv_post_owned:
  assumes "own_inv st"
  shows "\<exists>st'. post_owned accepts p bs st = Some st' \<and> own_inv st'"
proof -
  have new: "br_heap st (br_next st) = None" "br_next st \<notin> set (br_due st)"
    using assms by (auto simp: own_inv_def)
  show ?thesis
  proof (cases "accepts p")
    case True
    then show ?thesis
      using assms new
      by (fastforce simp: post_owned_def Let_def Dart_PostCObject_DL_def own_inv_def dl_ready_def)
  next
    case False
    have "(br_heap st)(br_next st := None) = br_heap st"
      using new by auto
    with False assms new show ?thesis
      by (fastforce simp: post_owned_def Let_def Dart_PostCObject_DL_def own_inv_def dl_ready_def
          delete_buffer_def)
  qed
qed

lemma own_inv_run_post:
  "own_inv st \<Longrightarrow> \<exists>st'. run_post accepts p st = Some st' \<and> own_inv st'"
  by (cases p) (simp_all add: own_inv_post_owned own_inv_post_copy)

lemma own_inv_finalize:
  assumes "own_inv st"
  shows "\<exists>st'. vm_finalize i st = Some st' \<and> own_inv st'"
proof (cases "i < length (br_due st)")
  case True
  define due where "due = take i (br_due st) @ drop (Suc i) (br_due st)"
  define peer where "peer = br_due st ! i"
  have split: "br_due st = take i (br_due st) @ peer # drop (Suc i) (br_due st)"
    unfolding peer_def using True by (rule id_take_nth_drop)
  have "distinct (take i (br_due st) @ peer # drop (Suc i) (br_due st))"
    using assms split by (simp add: own_inv_def)
  then have due: "distinct due" "peer \<notin> set due"
    by (auto simp: due_def)
  have s: "set (br_due st) = insert peer (set due)"
    unfolding due_def by (subst split) auto
  have heap: "dom (br_heap st) = insert peer (set due)" "dl_ready st"
    "\<forall>q \<in> dom (br_heap st). q < br_next st"
    using assms s by (auto simp: own_inv_def)
  then obtain bs where "br_heap st peer = Some bs" by blast
  then have "vm_finalize i st =
      Some (st\<lparr>br_due := due, br_heap := (br_heap st)(peer := None)\<rparr>)"
    using True
    by (simp add: vm_finalize_def release_buffer_def delete_buffer_def flip: due_def peer_def)
  moreover have "own_inv (st\<lparr>br_due := due, br_heap := (br_heap st)(peer := None)\<rparr>)"
    using heap due by (auto simp: own_inv_def dl_ready_def)
  ultimately show ?thesis by blast
next
  case False
  with assms show ?thesis by (simp add: vm_finalize_def)
qed

lemma own_inv_run:
  assumes "own_inv st"
  shows "\<exists>st'. vm_run accepts as st = Some st' \<and> own_inv st'"
  using assms
proof (induction as arbitrary: st)
  case Nil
  then show ?case by simp
next
  case (Cons a as)
  show ?case
  proof (cases a)
    case (DoPost p)
    obtain st1 where "run_post accepts p st = Some st1" "own_inv st1"
      using own_inv_run_post [OF Cons.prems] by blast
    with DoPost Cons.IH show ?thesis by simp
  next
    case (DoFinalize i)
    obtain st1 where "vm_finalize i st = Some st1" "own_inv st1"
      using own_inv_finalize [OF Cons.prems] by blast
    with DoFinalize Cons.IH show ?thesis by simp
  qed
qed

section \<open>Properties\<close>

text \<open>
  C21. Once the post symbol is bound, no sequence of posts to open or closed ports, mixed with
  the VM's finalizers in any order, frees a buffer twice or leaks one: the run is defined, and
  the buffers still allocated are those whose finalizer the VM still owes, each owed once.
\<close>

theorem posted_buffers_owned_once:
  assumes "dl ''Dart_PostCObject'' \<noteq> None"
  shows "\<exists>st. vm_run accepts as (bridge_start dl) = Some st \<and>
    dom (br_heap st) = set (br_due st) \<and> distinct (br_due st)"
proof -
  have "own_inv (bridge_start dl)" using assms by (rule own_inv_start)
  from own_inv_run [OF this] show ?thesis unfolding own_inv_def by blast
qed

theorem posted_buffers_owned_once_witness:
  "\<exists>st. vm_run (\<lambda>p. p = 5)
     [DoPost (PostOwned 5 [1, 2]), DoPost (PostOwned 6 [3]), DoFinalize 0]
     (bridge_start (\<lambda>_. Some (VmFunction ()))) = Some st \<and>
    dom (br_heap st) = set (br_due st) \<and> distinct (br_due st)"
  by (rule posted_buffers_owned_once) simp

text \<open>
  \<open>flatpak_bridge_init\<close> does not report a refused initialisation: started on the NULL
  table with the wrong major version, every post of the bridge calls a NULL pointer.
\<close>

lemma init_mismatch_makes_posts_undefined:
  assumes "api_major data \<noteq> 2"
  shows "run_post accepts p (bridge_start (flatpak_bridge_init data null_table)) = None"
proof -
  have "flatpak_bridge_init data null_table = null_table"
    using assms by (simp add: flatpak_bridge_init_def Dart_InitializeApiDL_def
        DART_API_DL_MAJOR_VERSION_def)
  then show ?thesis
    by (cases p) (simp_all add: post_owned_def post_copy_def Dart_PostCObject_DL_def
        bridge_start_def null_table_def Let_def)
qed

lemma init_mismatch_makes_posts_undefined_witness:
  "run_post (\<lambda>_. True) (PostCopy 5 [255])
     (bridge_start (flatpak_bridge_init
        \<lparr>api_major = 3, api_minor = 0, api_functions = [(''Dart_PostCObject'', ())]\<rparr> null_table)) = None"
  by (rule init_mismatch_makes_posts_undefined) simp

end
