(* ===== verification/Glaze_Codec.thy ===== *)
theory Glaze_Codec
  imports Bridge_Prelude
begin

text \<open>
  The binary codec of native/include/glaze_meta.h. Types and values follow the overloads
  that compile: an element (what \<open>read_value\<close> accepts) is an arithmetic value, a
  string or a registered struct; a field of a struct is an element, a bool, an optional
  or a vector of elements. The writer appends to its buffer. The reader is modelled at the
  level of its two pointers, 64-bit addresses whose sum wraps, over the memory region of
  the span it was built from, so that its bounds checks are the checks of the code.
  \<open>parse_value\<close> is the specification of the reader on the remaining bytes.
\<close>

section \<open>Registered types and their values\<close>

datatype arith_ty = I8 | I32 | I64

datatype gty = TArith arith_ty | TString | TStruct "(string \<times> fty) list"
  and fty = FElem gty | FBool | FOptional gty | FVector gty

datatype arith_val = V8 byte | V32 u32 | V64 u64

datatype gval = VArith arith_val | VString string | VStruct "fval list"
  and fval = FVal gval | FBoolVal bool | FOptVal "gval option" | FVecVal "gval list"

fun arith_size :: "arith_ty \<Rightarrow> nat" where
  "arith_size I8 = 1"
| "arith_size I32 = 4"
| "arith_size I64 = 8"

fun arith_ty_of :: "arith_val \<Rightarrow> arith_ty" where
  "arith_ty_of (V8 _) = I8"
| "arith_ty_of (V32 _) = I32"
| "arith_ty_of (V64 _) = I64"

text \<open>The values of a type: what a C++ object of that type can hold.\<close>

fun has_type :: "gval \<Rightarrow> gty \<Rightarrow> bool"
  and has_ftype :: "fval \<Rightarrow> fty \<Rightarrow> bool"
  and have_ftypes :: "fval list \<Rightarrow> (string \<times> fty) list \<Rightarrow> bool" where
  "has_type (VArith v) (TArith t) = (arith_ty_of v = t)"
| "has_type (VString s) TString = True"
| "has_type (VStruct fs) (TStruct ts) = have_ftypes fs ts"
| "has_type _ _ = False"
| "has_ftype (FVal v) (FElem t) = has_type v t"
| "has_ftype (FBoolVal b) FBool = True"
| "has_ftype (FOptVal None) (FOptional t) = True"
| "has_ftype (FOptVal (Some v)) (FOptional t) = has_type v t"
| "has_ftype (FVecVal vs) (FVector t) = list_all (\<lambda>v. has_type v t) vs"
| "has_ftype _ _ = False"
| "have_ftypes [] [] = True"
| "have_ftypes (f # fs) ((n, t) # ts) = (has_ftype f t \<and> have_ftypes fs ts)"
| "have_ftypes _ _ = False"

section \<open>Writer\<close>

record writer =
  wbuf :: "byte list"

definition empty_writer :: writer where
  "empty_writer = \<lparr>wbuf = []\<rparr>"

text \<open>\<open>buf.insert (buf.end (), p, p + n)\<close>.\<close>

definition insert_bytes :: "byte list \<Rightarrow> writer \<Rightarrow> writer" where
  "insert_bytes bs w = w\<lparr>wbuf := wbuf w @ bs\<rparr>"

fun write_arith :: "arith_val \<Rightarrow> writer \<Rightarrow> writer" where
  "write_arith (V8 v) w = insert_bytes (le_bytes 1 v) w"
| "write_arith (V32 v) w = insert_bytes (le_bytes 4 v) w"
| "write_arith (V64 v) w = insert_bytes (le_bytes 8 v) w"

definition write_bool :: "bool \<Rightarrow> writer \<Rightarrow> writer" where
  "write_bool v w = insert_bytes [if v then 1 else 0] w"

definition write_string :: "string \<Rightarrow> writer \<Rightarrow> writer" where
  "write_string s w = insert_bytes (bytes_of s) (write_arith (V64 (of_nat (length s))) w)"

fun write_value :: "gval \<Rightarrow> writer \<Rightarrow> writer"
  and write_field :: "fval \<Rightarrow> writer \<Rightarrow> writer"
  and write_fields :: "fval list \<Rightarrow> writer \<Rightarrow> writer"
  and write_elems :: "gval list \<Rightarrow> writer \<Rightarrow> writer" where
  "write_value (VArith v) w = write_arith v w"
| "write_value (VString s) w = write_string s w"
| "write_value (VStruct fs) w = write_fields fs w"
| "write_field (FVal v) w = write_value v w"
| "write_field (FBoolVal b) w = write_bool b w"
| "write_field (FOptVal None) w = write_arith (V8 0) w"
| "write_field (FOptVal (Some v)) w = write_value v (write_arith (V8 1) w)"
| "write_field (FVecVal vs) w = write_elems vs (write_arith (V64 (of_nat (length vs))) w)"
| "write_fields [] w = w"
| "write_fields (f # fs) w = write_fields fs (write_field f w)"
| "write_elems [] w = w"
| "write_elems (v # vs) w = write_elems vs (write_value v w)"

definition write_span :: "arith_val list \<Rightarrow> writer \<Rightarrow> writer" where
  "write_span vs w =
     insert_bytes (concat (map (\<lambda>v. wbuf (write_arith v empty_writer)) vs))
       (write_arith (V64 (of_nat (length vs))) w)"

definition writer_clear :: "writer \<Rightarrow> writer" where
  "writer_clear w = w\<lparr>wbuf := []\<rparr>"

definition writer_size :: "writer \<Rightarrow> nat" where
  "writer_size w = length (wbuf w)"

definition writer_view :: "writer \<Rightarrow> byte list" where
  "writer_view w = wbuf w"

text \<open>
  \<open>release\<close> copies the buffer into a fresh \<open>malloc\<close> block; \<open>malloc_ok\<close> is the
  allocator's answer, and \<open>None\<close> is the \<open>std::abort\<close> of a failed one.
\<close>

definition writer_release :: "(nat \<Rightarrow> bool) \<Rightarrow> writer \<Rightarrow> (byte list \<times> nat) option" where
  "writer_release malloc_ok w =
     (let out_len = length (wbuf w)
      in if \<not> malloc_ok out_len then None else Some (take out_len (wbuf w), out_len))"

definition write_binary :: "gval \<Rightarrow> byte list" where
  "write_binary v = wbuf (write_value v empty_writer)"

section \<open>Reader\<close>

text \<open>
  The span a reader is built from: the bytes at the addresses \<open>rg_base\<close>,
  \<open>rg_base + 1\<close>, \<dots>. A load outside it is the model's \<open>Wild_access\<close>, the undefined
  behaviour the bounds checks are there to exclude.
\<close>

record region =
  rg_base :: addr
  rg_bytes :: "byte list"

record reader =
  rd_p :: addr
  rd_end :: addr

datatype rd_error = Out_of_range | Length_error | Bad_alloc | Wild_access

definition load :: "region \<Rightarrow> addr \<Rightarrow> nat \<Rightarrow> byte list option" where
  "load g a n =
     (let off = unat (a - rg_base g)
      in if off + n \<le> length (rg_bytes g) then Some (take n (drop off (rg_bytes g))) else None)"

definition mk_reader :: "region \<Rightarrow> reader" where
  "mk_reader g = \<lparr>rd_p = rg_base g, rd_end = rg_base g + of_nat (length (rg_bytes g))\<rparr>"

text \<open>
  The standard library the reader allocates through: whether a string of \<open>n\<close> characters,
  or a \<open>reserve\<close> of \<open>n\<close> elements of a type, can be allocated. A string longer than
  \<open>max_size\<close> throws \<open>length_error\<close> before any allocation.
\<close>

record allocator =
  al_string :: "nat \<Rightarrow> bool"
  al_reserve :: "gty \<Rightarrow> nat \<Rightarrow> bool"

definition string_max_size :: nat where
  "string_max_size = 2 ^ 63 - 1"

definition has_data :: "reader \<Rightarrow> u64 \<Rightarrow> bool" where
  "has_data r n \<longleftrightarrow> rd_p r + n \<le> rd_end r"

definition read_bytes :: "region \<Rightarrow> nat \<Rightarrow> reader \<Rightarrow> rd_error + byte list \<times> reader" where
  "read_bytes g n r =
     (if rd_p r + of_nat n > rd_end r then Inl Out_of_range
      else case load g (rd_p r) n of
          None \<Rightarrow> Inl Wild_access
        | Some bs \<Rightarrow> Inr (bs, r\<lparr>rd_p := rd_p r + of_nat n\<rparr>))"

fun read_arith :: "region \<Rightarrow> arith_ty \<Rightarrow> reader \<Rightarrow> rd_error + arith_val \<times> reader" where
  "read_arith g I8 r = map_sum id (\<lambda>(bs, r). (V8 (le_word bs), r)) (read_bytes g 1 r)"
| "read_arith g I32 r = map_sum id (\<lambda>(bs, r). (V32 (le_word bs), r)) (read_bytes g 4 r)"
| "read_arith g I64 r = map_sum id (\<lambda>(bs, r). (V64 (le_word bs), r)) (read_bytes g 8 r)"

definition read_u64 :: "region \<Rightarrow> reader \<Rightarrow> rd_error + u64 \<times> reader" where
  "read_u64 g r = map_sum id (\<lambda>(bs, r). (le_word bs, r)) (read_bytes g 8 r)"

definition read_bool :: "region \<Rightarrow> reader \<Rightarrow> rd_error + bool \<times> reader" where
  "read_bool g r =
     (if rd_p r \<ge> rd_end r then Inl Out_of_range
      else case load g (rd_p r) 1 of
          None \<Rightarrow> Inl Wild_access
        | Some bs \<Rightarrow> Inr (bs \<noteq> [0], r\<lparr>rd_p := rd_p r + 1\<rparr>))"

text \<open>The \<open>std::string (p, n)\<close> constructor.\<close>

definition make_string :: "allocator \<Rightarrow> region \<Rightarrow> addr \<Rightarrow> u64 \<Rightarrow> rd_error + string" where
  "make_string al g a n =
     (if unat n > string_max_size then Inl Length_error
      else if \<not> al_string al (unat n) then Inl Bad_alloc
      else case load g a (unat n) of
          None \<Rightarrow> Inl Wild_access
        | Some bs \<Rightarrow> Inr (string_of bs))"

definition read_string :: "allocator \<Rightarrow> region \<Rightarrow> reader \<Rightarrow> rd_error + string \<times> reader" where
  "read_string al g r =
     (case read_u64 g r of
        Inl e \<Rightarrow> Inl e
      | Inr (n, r) \<Rightarrow>
          if rd_p r + n > rd_end r then Inl Out_of_range
          else case make_string al g (rd_p r) n of
              Inl e \<Rightarrow> Inl e
            | Inr s \<Rightarrow> Inr (s, r\<lparr>rd_p := rd_p r + n\<rparr>))"

text \<open>
  The zero-copy readers return a view, an address and a length, and do not allocate: the
  length prefix meets no other check than the pointer comparison.
\<close>

definition read_string_view :: "region \<Rightarrow> reader \<Rightarrow> rd_error + (addr \<times> u64) \<times> reader" where
  "read_string_view g r =
     (case read_u64 g r of
        Inl e \<Rightarrow> Inl e
      | Inr (n, r) \<Rightarrow>
          if rd_p r + n > rd_end r then Inl Out_of_range
          else Inr ((rd_p r, n), r\<lparr>rd_p := rd_p r + n\<rparr>))"

definition read_span :: "arith_ty \<Rightarrow> region \<Rightarrow> reader \<Rightarrow> rd_error + (addr \<times> u64) \<times> reader" where
  "read_span t g r =
     (case read_u64 g r of
        Inl e \<Rightarrow> Inl e
      | Inr (n, r) \<Rightarrow>
          if rd_p r + n * of_nat (arith_size t) > rd_end r then Inl Out_of_range
          else Inr ((rd_p r, n), r\<lparr>rd_p := rd_p r + n * of_nat (arith_size t)\<rparr>))"

text \<open>
  \<open>read_value\<close> and the per-field dispatch. A field is read by the branch of its type; the
  members are assigned in declaration order, and the first exception abandons the object.
  The vector loop runs its 64-bit counter from 0 to \<open>n\<close>.
\<close>

function (sequential) read_value ::
    "allocator \<Rightarrow> region \<Rightarrow> gty \<Rightarrow> reader \<Rightarrow> rd_error + gval \<times> reader"
  and read_field :: "allocator \<Rightarrow> region \<Rightarrow> fty \<Rightarrow> reader \<Rightarrow> rd_error + fval \<times> reader"
  and read_fields ::
    "allocator \<Rightarrow> region \<Rightarrow> (string \<times> fty) list \<Rightarrow> reader \<Rightarrow> rd_error + fval list \<times> reader"
  and read_elems ::
    "allocator \<Rightarrow> region \<Rightarrow> gty \<Rightarrow> nat \<Rightarrow> reader \<Rightarrow> rd_error + gval list \<times> reader" where
  "read_value al g (TArith t) r = map_sum id (\<lambda>(v, r). (VArith v, r)) (read_arith g t r)"
| "read_value al g TString r = map_sum id (\<lambda>(s, r). (VString s, r)) (read_string al g r)"
| "read_value al g (TStruct ts) r =
     map_sum id (\<lambda>(fs, r). (VStruct fs, r)) (read_fields al g ts r)"
| "read_field al g (FElem t) r = map_sum id (\<lambda>(v, r). (FVal v, r)) (read_value al g t r)"
| "read_field al g FBool r = map_sum id (\<lambda>(b, r). (FBoolVal b, r)) (read_bool g r)"
| "read_field al g (FOptional t) r =
     (case read_bool g r of
        Inl e \<Rightarrow> Inl e
      | Inr (present, r) \<Rightarrow>
          if \<not> present then Inr (FOptVal None, r)
          else map_sum id (\<lambda>(v, r). (FOptVal (Some v), r)) (read_value al g t r))"
| "read_field al g (FVector t) r =
     (case read_u64 g r of
        Inl e \<Rightarrow> Inl e
      | Inr (n, r) \<Rightarrow>
          if \<not> al_reserve al t (unat n) then Inl Bad_alloc
          else map_sum id (\<lambda>(vs, r). (FVecVal vs, r)) (read_elems al g t (unat n) r))"
| "read_fields al g [] r = Inr ([], r)"
| "read_fields al g ((n, t) # ts) r =
     (case read_field al g t r of
        Inl e \<Rightarrow> Inl e
      | Inr (f, r) \<Rightarrow> map_sum id (\<lambda>(fs, r). (f # fs, r)) (read_fields al g ts r))"
| "read_elems al g t 0 r = Inr ([], r)"
| "read_elems al g t (Suc n) r =
     (case read_value al g t r of
        Inl e \<Rightarrow> Inl e
      | Inr (v, r) \<Rightarrow> map_sum id (\<lambda>(vs, r). (v # vs, r)) (read_elems al g t n r))"
  by pat_completeness auto
termination
  by (relation "measures
       [\<lambda>x. case x of
            Inl (Inl (_, _, t, _)) \<Rightarrow> size t
          | Inl (Inr (_, _, t, _)) \<Rightarrow> size t
          | Inr (Inl (_, _, ts, _)) \<Rightarrow> size_list (size_prod (\<lambda>_. 0) size) ts
          | Inr (Inr (_, _, t, _, _)) \<Rightarrow> size t,
        \<lambda>x. case x of Inr (Inr (_, _, _, n, _)) \<Rightarrow> Suc n | _ \<Rightarrow> 0]") auto

definition read_binary :: "allocator \<Rightarrow> region \<Rightarrow> gty \<Rightarrow> rd_error + gval" where
  "read_binary al g t = map_sum id fst (read_value al g t (mk_reader g))"

text \<open>
  The overload that reads into an existing object: it reports success, and every exception
  is caught and leaves the object as it was.
\<close>

definition read_binary_into :: "allocator \<Rightarrow> region \<Rightarrow> gty \<Rightarrow> gval \<Rightarrow> bool \<times> gval" where
  "read_binary_into al g t out =
     (case read_binary al g t of Inl e \<Rightarrow> (False, out) | Inr v \<Rightarrow> (True, v))"

section \<open>What the writer appends\<close>

fun enc_arith :: "arith_val \<Rightarrow> byte list" where
  "enc_arith (V8 v) = le_bytes 1 v"
| "enc_arith (V32 v) = le_bytes 4 v"
| "enc_arith (V64 v) = le_bytes 8 v"

definition enc_string :: "string \<Rightarrow> byte list" where
  "enc_string s = le_bytes 8 (of_nat (length s) :: u64) @ bytes_of s"

fun enc_value :: "gval \<Rightarrow> byte list"
  and enc_field :: "fval \<Rightarrow> byte list" where
  "enc_value (VArith v) = enc_arith v"
| "enc_value (VString s) = enc_string s"
| "enc_value (VStruct fs) = concat (map enc_field fs)"
| "enc_field (FVal v) = enc_value v"
| "enc_field (FBoolVal b) = [if b then 1 else 0]"
| "enc_field (FOptVal x) = (case x of None \<Rightarrow> [0] | Some v \<Rightarrow> 1 # enc_value v)"
| "enc_field (FVecVal vs) = le_bytes 8 (of_nat (length vs) :: u64) @ concat (map enc_value vs)"

lemma insert_bytes_append [simp]:
  "insert_bytes bs w = \<lparr>wbuf = wbuf w @ bs\<rparr>"
  by (cases w) (simp add: insert_bytes_def)

lemma write_arith_enc [simp]: "wbuf (write_arith v w) = wbuf w @ enc_arith v"
  by (cases v) auto

lemma write_string_enc [simp]: "wbuf (write_string s w) = wbuf w @ enc_string s"
  by (simp add: write_string_def enc_string_def)

lemma write_bool_enc [simp]: "wbuf (write_bool b w) = wbuf w @ [if b then 1 else 0]"
  by (simp add: write_bool_def)

lemma write_enc:
  "wbuf (write_value v w) = wbuf w @ enc_value v"
  "wbuf (write_field f w) = wbuf w @ enc_field f"
  "wbuf (write_fields fs w) = wbuf w @ concat (map enc_field fs)"
  "wbuf (write_elems vs w) = wbuf w @ concat (map enc_value vs)"
  by (induction v w and f w and fs w and vs w
      rule: write_value_write_field_write_fields_write_elems.induct) auto

lemma write_binary_enc [wire_simps]: "write_binary v = enc_value v"
  by (simp add: write_binary_def write_enc empty_writer_def)

section \<open>The specification of the reader\<close>

text \<open>
  On the bytes that remain: \<open>None\<close> stands for any exception, and \<open>Some\<close> carries the
  value and the bytes after it. Every bound is a comparison of natural numbers.
\<close>

definition take_bytes :: "nat \<Rightarrow> byte list \<Rightarrow> (byte list \<times> byte list) option" where
  "take_bytes n bs = (if n \<le> length bs then Some (take n bs, drop n bs) else None)"

fun parse_arith :: "arith_ty \<Rightarrow> byte list \<Rightarrow> (arith_val \<times> byte list) option" where
  "parse_arith I8 bs = map_option (\<lambda>(b, r). (V8 (le_word b), r)) (take_bytes 1 bs)"
| "parse_arith I32 bs = map_option (\<lambda>(b, r). (V32 (le_word b), r)) (take_bytes 4 bs)"
| "parse_arith I64 bs = map_option (\<lambda>(b, r). (V64 (le_word b), r)) (take_bytes 8 bs)"

definition parse_u64 :: "byte list \<Rightarrow> (u64 \<times> byte list) option" where
  "parse_u64 bs = map_option (\<lambda>(b, r). (le_word b, r)) (take_bytes 8 bs)"

definition parse_bool :: "byte list \<Rightarrow> (bool \<times> byte list) option" where
  "parse_bool bs = (case bs of [] \<Rightarrow> None | b # r \<Rightarrow> Some (b \<noteq> 0, r))"

definition parse_string :: "allocator \<Rightarrow> byte list \<Rightarrow> (string \<times> byte list) option" where
  "parse_string al bs =
     (case parse_u64 bs of
        None \<Rightarrow> None
      | Some (n, r) \<Rightarrow>
          if unat n \<le> length r \<and> al_string al (unat n)
          then Some (string_of (take (unat n) r), drop (unat n) r) else None)"

function (sequential) parse_value :: "allocator \<Rightarrow> gty \<Rightarrow> byte list \<Rightarrow> (gval \<times> byte list) option"
  and parse_field :: "allocator \<Rightarrow> fty \<Rightarrow> byte list \<Rightarrow> (fval \<times> byte list) option"
  and parse_fields ::
    "allocator \<Rightarrow> (string \<times> fty) list \<Rightarrow> byte list \<Rightarrow> (fval list \<times> byte list) option"
  and parse_elems :: "allocator \<Rightarrow> gty \<Rightarrow> nat \<Rightarrow> byte list \<Rightarrow> (gval list \<times> byte list) option" where
  "parse_value al (TArith t) r = map_option (\<lambda>(v, r). (VArith v, r)) (parse_arith t r)"
| "parse_value al TString r = map_option (\<lambda>(s, r). (VString s, r)) (parse_string al r)"
| "parse_value al (TStruct ts) r = map_option (\<lambda>(fs, r). (VStruct fs, r)) (parse_fields al ts r)"
| "parse_field al (FElem t) r = map_option (\<lambda>(v, r). (FVal v, r)) (parse_value al t r)"
| "parse_field al FBool r = map_option (\<lambda>(b, r). (FBoolVal b, r)) (parse_bool r)"
| "parse_field al (FOptional t) r =
     (case parse_bool r of
        None \<Rightarrow> None
      | Some (present, r) \<Rightarrow>
          if \<not> present then Some (FOptVal None, r)
          else map_option (\<lambda>(v, r). (FOptVal (Some v), r)) (parse_value al t r))"
| "parse_field al (FVector t) r =
     (case parse_u64 r of
        None \<Rightarrow> None
      | Some (n, r) \<Rightarrow>
          if \<not> al_reserve al t (unat n) then None
          else map_option (\<lambda>(vs, r). (FVecVal vs, r)) (parse_elems al t (unat n) r))"
| "parse_fields al [] r = Some ([], r)"
| "parse_fields al ((n, t) # ts) r =
     (case parse_field al t r of
        None \<Rightarrow> None
      | Some (f, r) \<Rightarrow> map_option (\<lambda>(fs, r). (f # fs, r)) (parse_fields al ts r))"
| "parse_elems al t 0 r = Some ([], r)"
| "parse_elems al t (Suc n) r =
     (case parse_value al t r of
        None \<Rightarrow> None
      | Some (v, r) \<Rightarrow> map_option (\<lambda>(vs, r). (v # vs, r)) (parse_elems al t n r))"
  by pat_completeness auto
termination
  by (relation "measures
       [\<lambda>x. case x of
            Inl (Inl (_, t, _)) \<Rightarrow> size t
          | Inl (Inr (_, t, _)) \<Rightarrow> size t
          | Inr (Inl (_, ts, _)) \<Rightarrow> size_list (size_prod (\<lambda>_. 0) size) ts
          | Inr (Inr (_, t, _, _)) \<Rightarrow> size t,
        \<lambda>x. case x of Inr (Inr (_, _, n, _)) \<Rightarrow> Suc n | _ \<Rightarrow> 0]") auto

section \<open>The pointer reader refines its specification\<close>

text \<open>
  A span in the lower half of the address space, where user memory is on the supported
  hosts: its end does not wrap, and only a length of at least \<open>2 ^ 63\<close> can make a pointer
  sum wrap.
\<close>

definition region_ok :: "region \<Rightarrow> bool" where
  "region_ok g \<longleftrightarrow> unat (rg_base g) + length (rg_bytes g) < 2 ^ 63"

definition rd_ok :: "region \<Rightarrow> reader \<Rightarrow> bool" where
  "rd_ok g r \<longleftrightarrow> rd_end r = rg_base g + of_nat (length (rg_bytes g)) \<and>
     (\<exists>off \<le> length (rg_bytes g). rd_p r = rg_base g + of_nat off)"

definition remaining :: "region \<Rightarrow> reader \<Rightarrow> byte list" where
  "remaining g r = drop (unat (rd_p r - rg_base g)) (rg_bytes g)"

definition agrees :: "region \<Rightarrow> rd_error + 'a \<times> reader \<Rightarrow> ('a \<times> byte list) option \<Rightarrow> bool" where
  "agrees g m p \<longleftrightarrow>
     (case m of
        Inl e \<Rightarrow> e \<noteq> Wild_access \<and> p = None
      | Inr (v, r) \<Rightarrow> rd_ok g r \<and> p = Some (v, remaining g r))"

lemma agrees_Inl [simp]: "agrees g (Inl e) p \<longleftrightarrow> e \<noteq> Wild_access \<and> p = None"
  by (simp add: agrees_def)

lemma agrees_Inr [simp]: "agrees g (Inr (v, r)) p \<longleftrightarrow> rd_ok g r \<and> p = Some (v, remaining g r)"
  by (simp add: agrees_def)

lemma agrees_map:
  assumes "agrees g m p"
  shows "agrees g (map_sum id (\<lambda>(v, r). (f v, r)) m) (map_option (\<lambda>(v, r). (f v, r)) p)"
  using assms by (auto simp: agrees_def split: sum.splits)

lemma agrees_bind:
  assumes "agrees g m p"
    and "\<And>v r. rd_ok g r \<Longrightarrow> m = Inr (v, r) \<Longrightarrow> agrees g (k v r) (k' v (remaining g r))"
  shows "agrees g (case m of Inl e \<Rightarrow> Inl e | Inr (v, r) \<Rightarrow> k v r)
           (case p of None \<Rightarrow> None | Some (v, r) \<Rightarrow> k' v r)"
  using assms by (cases m) auto

lemma rd_okE:
  assumes "region_ok g" "rd_ok g r"
  obtains off where "off \<le> length (rg_bytes g)" "rd_p r = rg_base g + of_nat off"
    "unat (rd_p r) = unat (rg_base g) + off"
    "unat (rd_end r) = unat (rg_base g) + length (rg_bytes g)"
    "unat (rd_p r - rg_base g) = off"
proof -
  obtain off where off: "off \<le> length (rg_bytes g)" "rd_p r = rg_base g + of_nat off"
    and e: "rd_end r = rg_base g + of_nat (length (rg_bytes g))"
    using assms(2) by (auto simp: rd_ok_def)
  have "unat (rd_p r) = unat (rg_base g) + off"
    unfolding off by (rule unat_plus_of_nat) (use off assms(1) in \<open>simp add: region_ok_def\<close>)
  moreover have "unat (rd_end r) = unat (rg_base g) + length (rg_bytes g)"
    unfolding e by (rule unat_plus_of_nat) (use assms(1) in \<open>simp add: region_ok_def\<close>)
  moreover have "unat (rd_p r - rg_base g) = off"
    using off assms(1) by (simp add: region_ok_def unat_of_nat_lt)
  ultimately show thesis using off that by blast
qed

lemma length_remaining:
  assumes "region_ok g" "rd_ok g r"
  shows "length (remaining g r) = unat (rd_end r) - unat (rd_p r)"
proof -
  from assms obtain off where "off \<le> length (rg_bytes g)"
    "unat (rd_p r) = unat (rg_base g) + off"
    "unat (rd_end r) = unat (rg_base g) + length (rg_bytes g)"
    "unat (rd_p r - rg_base g) = off"
    by (rule rd_okE)
  then show ?thesis by (simp add: remaining_def)
qed

lemma length_remaining_lt: "region_ok g \<Longrightarrow> length (remaining g r) < 2 ^ 63"
  by (simp add: region_ok_def remaining_def)

text \<open>Below \<open>2 ^ 63\<close> the pointer comparison is the bounds check it is meant to be.\<close>

lemma ptr_check:
  assumes "region_ok g" "rd_ok g r" "unat n < 2 ^ 63"
  shows "rd_p r + n > rd_end r \<longleftrightarrow> unat n > length (remaining g r)"
proof -
  obtain off where off: "off \<le> length (rg_bytes g)"
    "unat (rd_p r) = unat (rg_base g) + off"
    "unat (rd_end r) = unat (rg_base g) + length (rg_bytes g)"
    "unat (rd_p r - rg_base g) = off"
    using assms(1,2) by (rule rd_okE)
  have "unat (rd_p r + n) = unat (rd_p r) + unat n"
    using unat_plus_of_nat [of "rd_p r" "unat n"] off assms by (simp add: region_ok_def)
  with off show ?thesis by (auto simp: word_less_nat_alt remaining_def)
qed

lemma load_remaining:
  assumes "region_ok g" "rd_ok g r" "n \<le> length (remaining g r)"
  shows "load g (rd_p r) n = Some (take n (remaining g r))"
proof -
  from assms(1,2) obtain off where "off \<le> length (rg_bytes g)" "unat (rd_p r - rg_base g) = off"
    by (rule rd_okE)
  with assms(3) show ?thesis by (simp add: load_def remaining_def)
qed

lemma advance:
  assumes "region_ok g" "rd_ok g r" "unat n \<le> length (remaining g r)"
  shows "rd_ok g (r\<lparr>rd_p := rd_p r + n\<rparr>)"
    and "remaining g (r\<lparr>rd_p := rd_p r + n\<rparr>) = drop (unat n) (remaining g r)"
proof -
  obtain off where off: "off \<le> length (rg_bytes g)" "rd_p r = rg_base g + of_nat off"
    "unat (rd_p r - rg_base g) = off"
    using assms(1,2) by (rule rd_okE)
  have rem: "remaining g r = drop off (rg_bytes g)"
    by (simp only: remaining_def off(3))
  have le: "off + unat n \<le> length (rg_bytes g)"
    using assms(3) off(1) unfolding rem length_drop by linarith
  have p: "rd_p r + n = rg_base g + of_nat (off + unat n)"
    by (simp only: off(2) of_nat_add of_nat_unat ucast_id add.assoc)
  have "off + unat n < 2 ^ LENGTH(64)"
    using le assms(1) by (simp add: region_ok_def)
  then have "unat (rd_p r + n - rg_base g) = off + unat n"
    unfolding p add_diff_cancel_left' by (rule unat_of_nat_lt)
  then show "remaining g (r\<lparr>rd_p := rd_p r + n\<rparr>) = drop (unat n) (remaining g r)"
    unfolding rem by (simp add: remaining_def add.commute)
  show "rd_ok g (r\<lparr>rd_p := rd_p r + n\<rparr>)"
    using assms(2) le p by (auto simp: rd_ok_def)
qed

lemma read_bytes_agrees:
  assumes "region_ok g" "rd_ok g r" "n < 2 ^ 63"
  shows "agrees g (read_bytes g n r) (take_bytes n (remaining g r))"
proof -
  have n: "unat (of_nat n :: addr) = n" using assms(3) by (simp add: unat_of_nat_lt)
  have chk: "rd_p r + of_nat n > rd_end r \<longleftrightarrow> n > length (remaining g r)"
    using ptr_check [OF assms(1,2), of "of_nat n"] n assms(3) by simp
  show ?thesis
  proof (cases "n \<le> length (remaining g r)")
    case True
    then show ?thesis
      using assms n chk load_remaining [OF assms(1,2) True] advance [OF assms(1,2), of "of_nat n"]
      by (simp add: read_bytes_def take_bytes_def)
  next
    case False
    then show ?thesis using chk by (simp add: read_bytes_def take_bytes_def)
  qed
qed

lemma read_arith_agrees:
  assumes "region_ok g" "rd_ok g r"
  shows "agrees g (read_arith g t r) (parse_arith t (remaining g r))"
  using assms by (cases t) (auto intro!: agrees_map read_bytes_agrees)

lemma read_u64_agrees:
  assumes "region_ok g" "rd_ok g r"
  shows "agrees g (read_u64 g r) (parse_u64 (remaining g r))"
  using assms unfolding read_u64_def parse_u64_def
  by (intro agrees_map read_bytes_agrees) auto

lemma read_bool_agrees:
  assumes "region_ok g" "rd_ok g r"
  shows "agrees g (read_bool g r) (parse_bool (remaining g r))"
proof -
  have chk: "rd_p r \<ge> rd_end r \<longleftrightarrow> remaining g r = []"
    using length_remaining [OF assms] ptr_check [OF assms, of 0]
    by (auto simp: word_le_nat_alt word_less_nat_alt simp flip: length_0_conv)
  show ?thesis
  proof (cases "remaining g r")
    case Nil
    then show ?thesis using chk by (simp add: read_bool_def parse_bool_def)
  next
    case (Cons b bs)
    then show ?thesis
      using chk load_remaining [OF assms, of 1] advance [OF assms, of 1]
      by (simp add: read_bool_def parse_bool_def)
  qed
qed

text \<open>
  The string reader: a length of at least \<open>2 ^ 63\<close> may pass the wrapped comparison, and is
  then refused by the string constructor before a byte is loaded.
\<close>

lemma read_string_agrees:
  assumes "region_ok g" "rd_ok g r"
  shows "agrees g (read_string al g r) (parse_string al (remaining g r))"
  unfolding read_string_def parse_string_def
proof (rule agrees_bind [OF read_u64_agrees [OF assms]])
  fix n :: u64 and r
  assume r: "rd_ok g r"
  show "agrees g
          (if rd_p r + n > rd_end r then Inl Out_of_range
           else case make_string al g (rd_p r) n of
             Inl e \<Rightarrow> Inl e | Inr s \<Rightarrow> Inr (s, r\<lparr>rd_p := rd_p r + n\<rparr>))
          (if unat n \<le> length (remaining g r) \<and> al_string al (unat n)
           then Some (string_of (take (unat n) (remaining g r)), drop (unat n) (remaining g r))
           else None)"
  proof (cases "unat n < 2 ^ 63")
    case True
    then have max: "\<not> unat n > string_max_size" by (simp add: string_max_size_def)
    show ?thesis
    proof (cases "unat n \<le> length (remaining g r)")
      case le: True
      then show ?thesis
        using max ptr_check [OF assms(1) r True] load_remaining [OF assms(1) r le]
          advance [OF assms(1) r le]
        by (simp add: make_string_def)
    next
      case False
      then show ?thesis using ptr_check [OF assms(1) r True] by simp
    qed
  next
    case False
    then have "\<not> unat n \<le> length (remaining g r)"
      using length_remaining_lt [OF assms(1), of r] by linarith
    moreover have "make_string al g (rd_p r) n = Inl Length_error"
      using False by (simp add: make_string_def string_max_size_def)
    ultimately show ?thesis by simp
  qed
qed

lemma read_agrees_all:
  "region_ok g \<Longrightarrow> rd_ok g r \<Longrightarrow> agrees g (read_value al g t r) (parse_value al t (remaining g r))"
  "region_ok g \<Longrightarrow> rd_ok g r \<Longrightarrow> agrees g (read_field al g f r) (parse_field al f (remaining g r))"
  "region_ok g \<Longrightarrow> rd_ok g r \<Longrightarrow> agrees g (read_fields al g fs r) (parse_fields al fs (remaining g r))"
  "region_ok g \<Longrightarrow> rd_ok g r \<Longrightarrow> agrees g (read_elems al g t n r) (parse_elems al t n (remaining g r))"
proof (induction al g t r and al g f r and al g fs r and al g t n r
    rule: read_value_read_field_read_fields_read_elems.induct)
  case (1 al g t r)
  then show ?case
    unfolding read_value.simps parse_value.simps by (intro agrees_map read_arith_agrees)
next
  case (2 al g r)
  then show ?case
    unfolding read_value.simps parse_value.simps by (intro agrees_map read_string_agrees)
next
  case (3 al g ts r)
  then show ?case
    unfolding read_value.simps parse_value.simps by (intro agrees_map)
next
  case (4 al g t r)
  then show ?case
    unfolding read_field.simps parse_field.simps by (intro agrees_map)
next
  case (5 al g r)
  then show ?case
    unfolding read_field.simps parse_field.simps by (intro agrees_map read_bool_agrees)
next
  case (6 al g t r)
  show ?case
    unfolding read_field.simps parse_field.simps
    by (rule agrees_bind [OF read_bool_agrees [OF "6.prems"]])
      (use 6 in \<open>auto simp del: read_value.simps parse_value.simps intro!: agrees_map\<close>)
next
  case (7 al g t r)
  show ?case
    unfolding read_field.simps parse_field.simps
    by (rule agrees_bind [OF read_u64_agrees [OF "7.prems"]])
      (use 7 in \<open>auto simp del: read_elems.simps parse_elems.simps intro!: agrees_map\<close>)
next
  case (8 al g r)
  then show ?case by simp
next
  case (9 al g n t ts r)
  show ?case
    unfolding read_fields.simps parse_fields.simps
    by (rule agrees_bind [OF "9.IH"(1) [OF "9.prems"]], rule agrees_map, rule "9.IH"(2))
      (use "9.prems" in simp_all)
next
  case (10 al g t r)
  then show ?case by simp
next
  case (11 al g t n r)
  show ?case
    unfolding read_elems.simps parse_elems.simps
    by (rule agrees_bind [OF "11.IH"(1) [OF "11.prems"]], rule agrees_map, rule "11.IH"(2))
      (use "11.prems" in simp_all)
qed

lemma rd_ok_mk_reader [simp]: "rd_ok g (mk_reader g)"
  by (auto simp: rd_ok_def mk_reader_def intro: exI [of _ 0])

lemma remaining_mk_reader [simp]: "remaining g (mk_reader g) = rg_bytes g"
  by (simp add: remaining_def mk_reader_def)

section \<open>Writing then reading\<close>

text \<open>
  \<open>fits al v\<close>: the allocator can hold the strings and vectors of \<open>v\<close>, and the vectors
  have a length a 64-bit counter can hold.
\<close>

fun fits :: "allocator \<Rightarrow> gval \<Rightarrow> gty \<Rightarrow> bool"
  and fits_field :: "allocator \<Rightarrow> fval \<Rightarrow> fty \<Rightarrow> bool"
  and fits_fields :: "allocator \<Rightarrow> fval list \<Rightarrow> (string \<times> fty) list \<Rightarrow> bool" where
  "fits al (VArith v) t = (case t of TArith t' \<Rightarrow> arith_ty_of v = t' | _ \<Rightarrow> False)"
| "fits al (VString s) t = (t = TString \<and> length s < 2 ^ 64 \<and> al_string al (length s))"
| "fits al (VStruct fs) t = (case t of TStruct ts \<Rightarrow> fits_fields al fs ts | _ \<Rightarrow> False)"
| "fits_field al (FVal v) t = (case t of FElem t' \<Rightarrow> fits al v t' | _ \<Rightarrow> False)"
| "fits_field al (FBoolVal b) t = (t = FBool)"
| "fits_field al (FOptVal x) t =
     (case t of FOptional t' \<Rightarrow> (case x of None \<Rightarrow> True | Some v \<Rightarrow> fits al v t') | _ \<Rightarrow> False)"
| "fits_field al (FVecVal vs) t =
     (case t of
        FVector t' \<Rightarrow> length vs < 2 ^ 64 \<and> al_reserve al t' (length vs) \<and>
                      (\<forall>v \<in> set vs. fits al v t')
      | _ \<Rightarrow> False)"
| "fits_fields al [] ts = (ts = [])"
| "fits_fields al (f # fs) ts =
     (case ts of [] \<Rightarrow> False | (n, t) # ts' \<Rightarrow> fits_field al f t \<and> fits_fields al fs ts')"

lemma take_bytes_append [simp]: "length xs = n \<Longrightarrow> take_bytes n (xs @ ys) = Some (xs, ys)"
  by (auto simp: take_bytes_def)

lemma parse_arith_enc [simp]: "parse_arith (arith_ty_of v) (enc_arith v @ r) = Some (v, r)"
  by (cases v) (auto simp: take_bytes_def)

lemma parse_u64_enc [simp]: "parse_u64 (le_bytes 8 v @ r) = Some (v, r)"
  by (simp add: parse_u64_def)

lemma parse_bool_enc [simp]: "parse_bool ((if b then 1 else 0) # r) = Some (b, r)"
  by (simp add: parse_bool_def)

lemma parse_bool_bytes [simp]: "parse_bool (1 # r) = Some (True, r)" "parse_bool (0 # r) = Some (False, r)"
  by (simp_all add: parse_bool_def)

lemma parse_string_enc [simp]:
  assumes "length s < 2 ^ 64" "al_string al (length s)"
  shows "parse_string al (enc_string s @ r) = Some (s, r)"
  using assms by (simp add: parse_string_def enc_string_def unat_of_nat_lt)

lemma parse_elems_enc:
  assumes "\<And>v r. v \<in> set vs \<Longrightarrow> parse_value al t (enc_value v @ r) = Some (v, r)"
  shows "parse_elems al t (length vs) (concat (map enc_value vs) @ r) = Some (vs, r)"
  using assms by (induction vs) auto

lemma parse_enc_all:
  "fits al v t \<Longrightarrow> parse_value al t (enc_value v @ r) = Some (v, r)"
  "fits_field al f ft \<Longrightarrow> parse_field al ft (enc_field f @ r) = Some (f, r)"
  "fits_fields al fs ts \<Longrightarrow> parse_fields al ts (concat (map enc_field fs) @ r) = Some (fs, r)"
proof (induction al v t and al f ft and al fs ts arbitrary: r and r and r
    rule: fits_fits_field_fits_fields.induct)
  case (6 al x t)
  then show ?case by (cases t; cases x) auto
next
  case (7 al vs t)
  then show ?case
    by (cases t) (auto simp: unat_of_nat_lt intro!: parse_elems_enc)
qed (auto split: gty.splits fty.splits list.splits)

text \<open>
  The contract of a binary codec, as its clients use it: decoding the encoding of a valid
  value gives the value back and leaves the bytes that follow.
\<close>

locale wire_codec =
  fixes enc :: "'a \<Rightarrow> byte list"
    and dec :: "byte list \<Rightarrow> ('a \<times> byte list) option"
    and valid :: "'a \<Rightarrow> bool"
  assumes dec_enc: "valid v \<Longrightarrow> dec (enc v @ r) = Some (v, r)"
begin

lemma dec_enc_all: "valid v \<Longrightarrow> dec (enc v) = Some (v, [])"
  using dec_enc [of v "[]"] by simp

lemma enc_injective: "valid v \<Longrightarrow> valid w \<Longrightarrow> enc v = enc w \<Longrightarrow> v = w"
  by (metis dec_enc_all option.inject prod.inject)

text \<open>No encoding is a proper prefix of another one, so messages can be concatenated.\<close>

lemma enc_prefix_free: "valid v \<Longrightarrow> valid w \<Longrightarrow> enc v @ r = enc w @ r' \<Longrightarrow> v = w \<and> r = r'"
  by (metis dec_enc option.inject prod.inject)

end

text \<open>A codec seen through a conversion that can be undone.\<close>

locale converted_codec = wire_codec enc dec valid
  for enc :: "'a \<Rightarrow> byte list" and dec and valid +
  fixes to_wire :: "'b \<Rightarrow> 'a"
    and of_wire :: "'a \<Rightarrow> 'b option"
    and ok :: "'b \<Rightarrow> bool"
  assumes of_to: "of_wire (to_wire x) = Some x"
    and to_valid: "ok x \<Longrightarrow> valid (to_wire x)"
begin

lemma conv_round_trip:
  "ok x \<Longrightarrow> Option.bind (dec (enc (to_wire x) @ r)) (\<lambda>(v, r). map_option (\<lambda>y. (y, r)) (of_wire v)) =
     Some (x, r)"
proof -
  assume "ok x"
  then have "dec (enc (to_wire x) @ r) = Some (to_wire x, r)"
    by (intro dec_enc to_valid)
  then show ?thesis by (simp only: bind.bind_lunit prod.case of_to option.map)
qed

lemma conv_injective: "ok x \<Longrightarrow> ok y \<Longrightarrow> enc (to_wire x) = enc (to_wire y) \<Longrightarrow> x = y"
proof -
  assume "ok x" "ok y" "enc (to_wire x) = enc (to_wire y)"
  then have "to_wire x = to_wire y"
    by (intro enc_injective to_valid)
  then have "of_wire (to_wire x) = of_wire (to_wire y)" by (rule arg_cong)
  then show ?thesis by (simp only: of_to option.inject)
qed

end

interpretation glaze: wire_codec enc_value "parse_value al t" "\<lambda>v. fits al v t" for al t
  by unfold_locales (rule parse_enc_all)

section \<open>Facts the bridges use\<close>

lemma read_binary_parse:
  assumes "region_ok g"
  shows "(case read_binary al g t of Inl e \<Rightarrow> e \<noteq> Wild_access \<and> parse_value al t (rg_bytes g) = None
         | Inr v \<Rightarrow> \<exists>r. parse_value al t (rg_bytes g) = Some (v, r))"
proof -
  have "agrees g (read_value al g t (mk_reader g)) (parse_value al t (rg_bytes g))"
    using read_agrees_all(1) [OF assms rd_ok_mk_reader] by simp
  then show ?thesis
    by (auto simp: read_binary_def agrees_def split: sum.splits)
qed

lemma read_binary_eq_Inr:
  assumes "region_ok g" "parse_value al t (rg_bytes g) = Some (v, r)"
  shows "read_binary al g t = Inr v"
  using read_binary_parse [OF assms(1), of al t] assms(2) by (cases "read_binary al g t") auto

lemma read_binary_write:
  assumes "region_ok g" "rg_bytes g = write_binary v @ r" "fits al v t"
  shows "read_binary al g t = Inr v"
  using assms glaze.dec_enc by (intro read_binary_eq_Inr) (auto simp: write_binary_enc)

lemma read_binary_into_parse:
  assumes "region_ok g"
  shows "read_binary_into al g t out =
    (case parse_value al t (rg_bytes g) of None \<Rightarrow> (False, out) | Some (v, _) \<Rightarrow> (True, v))"
  using read_binary_parse [OF assms, of al t]
  by (auto simp: read_binary_into_def split: sum.splits option.splits)

section \<open>What the reader produces has its type\<close>

lemma parse_arith_typed: "parse_arith t bs = Some (v, r) \<Longrightarrow> arith_ty_of v = t"
  by (cases t) auto

lemma parse_typed_all:
  "parse_value al t bs = Some (v, r) \<Longrightarrow> has_type v t"
  "parse_field al ft bs = Some (f, r) \<Longrightarrow> has_ftype f ft"
  "parse_fields al ts bs = Some (fs, r) \<Longrightarrow> have_ftypes fs ts"
  "parse_elems al t n bs = Some (vs, r) \<Longrightarrow> list_all (\<lambda>v. has_type v t) vs"
proof (induction al t bs and al ft bs and al ts bs and al t n bs
    arbitrary: v r and f r and fs r and vs r
    rule: parse_value_parse_field_parse_fields_parse_elems.induct)
qed (auto simp: parse_arith_typed split: option.splits if_splits)

lemma read_binary_typed:
  assumes "region_ok g" "read_binary al g t = Inr v"
  shows "has_type v t"
  using read_binary_parse [OF assms(1), of al t] assms(2) parse_typed_all(1) by auto

lemma read_binary_refines_no_wild: "region_ok g \<Longrightarrow> read_binary al g t \<noteq> Inl Wild_access"
  using read_binary_parse [of g al t] by auto

section \<open>What the zero-copy readers check\<close>

text \<open>In general the pointer comparison lets every length pass that makes the sum wrap.\<close>

lemma ptr_check_wraps:
  assumes "region_ok g" "rd_ok g r"
  shows "rd_p r + n > rd_end r \<longleftrightarrow> \<not> (unat n \<le> length (remaining g r) \<or> 2 ^ 64 \<le> unat (rd_p r) + unat n)"
proof -
  obtain off where off: "off \<le> length (rg_bytes g)"
    "unat (rd_p r) = unat (rg_base g) + off"
    "unat (rd_end r) = unat (rg_base g) + length (rg_bytes g)"
    "unat (rd_p r - rg_base g) = off"
    using assms by (rule rd_okE)
  have rest: "length (remaining g r) = length (rg_bytes g) - off" by (simp add: remaining_def off(4))
  show ?thesis
  proof (cases "2 ^ 64 \<le> unat (rd_p r) + unat n")
    case True
    have "unat n < 2 ^ 64" "unat (rd_p r) < 2 ^ 64" using unsigned_less [of n] unsigned_less [of "rd_p r"] by simp_all
    with True have "(unat (rd_p r) + unat n) mod 2 ^ 64 = unat (rd_p r) + unat n - 2 ^ 64"
      by (simp add: le_mod_geq)
    then have "unat (rd_p r + n) = unat (rd_p r) + unat n - 2 ^ 64" by (simp add: unat_word_ariths)
    with True off \<open>unat n < 2 ^ 64\<close> show ?thesis by (auto simp: word_less_nat_alt)
  next
    case False
    then have "unat (rd_p r + n) = unat (rd_p r) + unat n"
      using unat_plus_of_nat [of "rd_p r" "unat n"] by simp
    with False off rest show ?thesis by (auto simp: word_less_nat_alt)
  qed
qed

lemma load_inside:
  assumes "region_ok g" "rd_ok g r"
  shows "load g (rd_p r) n \<noteq> None \<longleftrightarrow> n \<le> length (remaining g r)"
proof -
  from assms obtain off where "off \<le> length (rg_bytes g)" "unat (rd_p r - rg_base g) = off"
    by (rule rd_okE)
  then show ?thesis by (auto simp: load_def remaining_def Let_def)
qed

lemma read_u64_cases:
  assumes "region_ok g" "rd_ok g r"
  shows "read_u64 g r =
    (if length (remaining g r) < 8 then Inl Out_of_range
     else Inr (le_word (take 8 (remaining g r)), r\<lparr>rd_p := rd_p r + 8\<rparr>))"
  using ptr_check [OF assms, of 8] load_remaining [OF assms, of 8]
  by (simp add: read_u64_def read_bytes_def)

lemma unat_times_size: "unat (n * of_nat (arith_size t)) = (unat n * arith_size t) mod 2 ^ 64"
  for n :: u64
proof -
  have "unat n < 2 ^ 64" using unsigned_less [of n] by simp
  then show ?thesis by (cases t) (simp_all add: unat_word_ariths)
qed

section \<open>Properties\<close>

definition example_allocator :: allocator where
  "example_allocator = \<lparr>al_string = (\<lambda>n. n < 1000), al_reserve = (\<lambda>t n. n < 1000)\<rparr>"

text \<open>
  C6. Reading a registered type from a span in user memory never loads a byte outside the
  span, whatever the bytes are, although the reader's pointer comparisons wrap; and its
  result is the one of the specification on the span's bytes, an exception where that fails.
\<close>

theorem read_binary_refines:
  assumes "region_ok g"
  shows "read_binary al g t \<noteq> Inl Wild_access \<and>
    (case read_binary al g t of Inl e \<Rightarrow> None | Inr v \<Rightarrow> Some v) =
      map_option fst (parse_value al t (rg_bytes g))"
  using read_binary_parse [OF assms, of al t] by (auto split: sum.splits)

theorem read_binary_refines_witness:
  "read_binary example_allocator \<lparr>rg_base = 4096, rg_bytes = [255, 255, 255, 255, 255, 255, 255, 255]\<rparr>
     TString \<noteq> Inl Wild_access"
proof -
  have "region_ok \<lparr>rg_base = 4096, rg_bytes = [255, 255, 255, 255, 255, 255, 255, 255]\<rparr>"
    by (simp add: region_ok_def)
  then show ?thesis using read_binary_refines by blast
qed

text \<open>
  C39. What the zero-copy readers check. After the 8 bytes of the length prefix,
  \<open>read_string_view\<close> accepts a length exactly if that many bytes follow in the span or the sum
  of the pointer and the length wraps; \<open>read_span\<close> does the same with the byte count taken
  modulo \<open>2 ^ 64\<close>. The bytes of the view are inside the span only in the first case,
  for \<open>read_span\<close> with the true byte count: where a sum or product wraps a view outside the
  span is returned. Nothing else is read.
\<close>

theorem zero_copy_readers_check_wrapped_sums:
  assumes "region_ok g" "rd_ok g r" "n = (le_word (take 8 (remaining g r)) :: u64)" "a = rd_p r + 8"
    "room = length (remaining g r) - 8" "wanted = unat n * arith_size t" "shown = wanted mod 2 ^ 64"
  shows "(length (remaining g r) < 8 \<longrightarrow>
      read_string_view g r = Inl Out_of_range \<and> read_span t g r = Inl Out_of_range) \<and>
    (8 \<le> length (remaining g r) \<longrightarrow>
      read_string_view g r =
        (if unat n \<le> room \<or> 2 ^ 64 \<le> unat a + unat n then Inr ((a, n), r\<lparr>rd_p := a + n\<rparr>)
         else Inl Out_of_range) \<and>
      (load g a (unat n) \<noteq> None \<longleftrightarrow> unat n \<le> room) \<and>
      read_span t g r =
        (if shown \<le> room \<or> 2 ^ 64 \<le> unat a + shown then Inr ((a, n), r\<lparr>rd_p := a + of_nat shown\<rparr>)
         else Inl Out_of_range) \<and>
      (load g a wanted \<noteq> None \<longleftrightarrow> wanted \<le> room))"
proof (cases "length (remaining g r) < 8")
  case True
  then show ?thesis
    using read_u64_cases [OF assms(1,2)] by (simp add: read_string_view_def read_span_def)
next
  case False
  let ?r = "r\<lparr>rd_p := a\<rparr>"
  have ok: "rd_ok g ?r" and rest: "length (remaining g ?r) = room"
    using advance [OF assms(1,2), of 8] False by (simp_all add: assms(4,5))
  have read: "read_u64 g r = Inr (n, ?r)"
    using read_u64_cases [OF assms(1,2)] False by (simp add: assms(3,4))
  have product: "unat (n * of_nat (arith_size t)) = shown" "n * of_nat (arith_size t) = of_nat shown"
    using unat_times_size [of n t] by (simp_all add: assms(6,7)) (metis of_nat_unat ucast_id)
  have "read_string_view g r =
      (if unat n \<le> room \<or> 2 ^ 64 \<le> unat a + unat n then Inr ((a, n), r\<lparr>rd_p := a + n\<rparr>) else Inl Out_of_range)"
    using ptr_check_wraps [OF assms(1) ok, of n] rest by (simp add: read_string_view_def read)
  moreover have "read_span t g r =
      (if shown \<le> room \<or> 2 ^ 64 \<le> unat a + shown then Inr ((a, n), r\<lparr>rd_p := a + of_nat shown\<rparr>)
       else Inl Out_of_range)"
    using ptr_check_wraps [OF assms(1) ok, of "n * of_nat (arith_size t)"] rest product
    by (simp add: read_span_def read)
  ultimately show ?thesis using load_inside [OF assms(1) ok] rest False by simp
qed

theorem zero_copy_readers_check_wrapped_sums_witness:
  "(let g = \<lparr>rg_base = 4096, rg_bytes = [255, 255, 255, 255, 255, 255, 255, 255]\<rparr>
    in read_string_view g (mk_reader g) = Inr ((4104, 2 ^ 64 - 1), \<lparr>rd_p = 4103, rd_end = 4104\<rparr>) \<and>
       load g 4104 (2 ^ 64 - 1) = None) \<and>
   (let g = \<lparr>rg_base = 4096, rg_bytes = [0, 0, 0, 0, 0, 0, 0, 32]\<rparr>
    in read_span I64 g (mk_reader g) = Inr ((4104, 2 ^ 61), \<lparr>rd_p = 4104, rd_end = 4104\<rparr>) \<and>
       load g 4104 (8 * 2 ^ 61) = None)"
proof -
  let ?g = "\<lambda>bs. \<lparr>rg_base = 4096, rg_bytes = bs\<rparr>" and ?r = "\<lparr>rd_p = 4096, rd_end = 4104\<rparr>"
  let ?view = "[255, 255, 255, 255, 255, 255, 255, 255] :: byte list" and ?span = "[0, 0, 0, 0, 0, 0, 0, 32] :: byte list"
  have ok: "region_ok (?g bs) \<and> rd_ok (?g bs) ?r \<and> remaining (?g bs) ?r = bs \<and> mk_reader (?g bs) = ?r"
    if "length bs = 8" for bs
    using that by (auto simp: region_ok_def rd_ok_def remaining_def mk_reader_def intro: exI [of _ 0])
  have view: "region_ok (?g ?view)" "rd_ok (?g ?view) ?r" "remaining (?g ?view) ?r = ?view" "mk_reader (?g ?view) = ?r"
    using ok [of ?view] by simp_all
  have span: "region_ok (?g ?span)" "rd_ok (?g ?span) ?r" "remaining (?g ?span) ?r = ?span" "mk_reader (?g ?span) = ?r"
    using ok [of ?span] by simp_all
  have "(2 ^ 64 - 1 :: u64) = le_word (take 8 (remaining (?g ?view) ?r))"
    "(2 ^ 61 :: u64) = le_word (take 8 (remaining (?g ?span) ?r))"
    by (simp_all add: view(3) span(3))
  moreover have "4104 = rd_p ?r + 8" "0 = length (remaining (?g ?view) ?r) - 8" "0 = length (remaining (?g ?span) ?r) - 8"
    by (simp_all add: view(3) span(3))
  ultimately show ?thesis
    using zero_copy_readers_check_wrapped_sums [OF view(1,2), of "2 ^ 64 - 1" 4104 0 _ I64 _, OF _ _ _ refl refl]
      zero_copy_readers_check_wrapped_sums [OF span(1,2), of "2 ^ 61" 4104 0 _ I64 _, OF _ _ _ refl refl]
    by (simp add: Let_def view(3,4) span(3,4))
qed

end
