(* ===== verification/Flatpak_Types.thy ===== *)
theory Flatpak_Types
  imports Glaze_Codec "HOL-Library.Monad_Syntax"
begin

text \<open>
  The structs of native/include/flatpak_types.h: for each one its record, its
  \<open>glz::meta\<close> field list, the members as wire values in that order (what the writer is
  given), and the object the reader fills member by member. Every struct is an instance of
  the converted codec, which gives its round trip and the injectivity of its encoding.
\<close>

section \<open>Reading members back\<close>

text \<open>A cursor over the values of a struct: each getter takes the next member.\<close>

fun get_fields :: "gval \<Rightarrow> fval list option" where
  "get_fields (VStruct fs) = Some fs"
| "get_fields _ = None"

fun get_elem :: "(gval \<Rightarrow> 'a option) \<Rightarrow> fval list \<Rightarrow> ('a \<times> fval list) option" where
  "get_elem f (FVal v # fs) = map_option (\<lambda>x. (x, fs)) (f v)"
| "get_elem f _ = None"

fun as_string :: "gval \<Rightarrow> string option" where
  "as_string (VString s) = Some s"
| "as_string _ = None"

fun as_i8 :: "gval \<Rightarrow> i8 option" where
  "as_i8 (VArith (V8 v)) = Some v"
| "as_i8 _ = None"

fun as_i32 :: "gval \<Rightarrow> i32 option" where
  "as_i32 (VArith (V32 v)) = Some v"
| "as_i32 _ = None"

fun as_i64 :: "gval \<Rightarrow> u64 option" where
  "as_i64 (VArith (V64 v)) = Some v"
| "as_i64 _ = None"

fun bytes_of_vals :: "gval list \<Rightarrow> byte list option" where
  "bytes_of_vals [] = Some []"
| "bytes_of_vals (v # vs) =
     (case (as_i8 v, bytes_of_vals vs) of (Some b, Some bs) \<Rightarrow> Some (b # bs) | _ \<Rightarrow> None)"

fun get_bool :: "fval list \<Rightarrow> (bool \<times> fval list) option" where
  "get_bool (FBoolVal b # fs) = Some (b, fs)"
| "get_bool _ = None"

fun get_bytes :: "fval list \<Rightarrow> (byte list \<times> fval list) option" where
  "get_bytes (FVecVal vs # fs) = map_option (\<lambda>bs. (bs, fs)) (bytes_of_vals vs)"
| "get_bytes _ = None"

abbreviation "get_string \<equiv> get_elem as_string"
abbreviation "get_i8 \<equiv> get_elem as_i8"
abbreviation "get_i32 \<equiv> get_elem as_i32"
abbreviation "get_i64 \<equiv> get_elem as_i64"

lemma bytes_of_vals_map [simp]: "bytes_of_vals (map (\<lambda>b. VArith (V8 b)) bs) = Some bs"
  by (induction bs) auto

text \<open>What the allocator must hold for a string and for a byte vector.\<close>

definition str_fits :: "allocator \<Rightarrow> string \<Rightarrow> bool" where
  "str_fits al s \<longleftrightarrow> length s < 2 ^ 64 \<and> al_string al (length s)"

definition vec_fits :: "allocator \<Rightarrow> byte list \<Rightarrow> bool" where
  "vec_fits al bs \<longleftrightarrow> length bs < 2 ^ 64 \<and> al_reserve al (TArith I8) (length bs)"

section \<open>The structs\<close>

subsection \<open>FpRef\<close>

record FpRef =
  r_kind :: string
  r_name :: string
  r_arch :: string
  r_branch :: string
  r_commit :: string
  r_collectionId :: string

definition meta_FpRef :: gty where
  "meta_FpRef = TStruct [
     (''kind'', FElem TString), (''name'', FElem TString), (''arch'', FElem TString),
     (''branch'', FElem TString), (''commit'', FElem TString),
     (''collectionId'', FElem TString)]"

definition FpRef_val :: "FpRef \<Rightarrow> gval" where
  "FpRef_val x = VStruct [
     FVal (VString (r_kind x)), FVal (VString (r_name x)), FVal (VString (r_arch x)),
     FVal (VString (r_branch x)), FVal (VString (r_commit x)),
     FVal (VString (r_collectionId x))]"

definition FpRef_of :: "gval \<Rightarrow> FpRef option" where
  "FpRef_of v = do {
     fs \<leftarrow> get_fields v;
     (v1, fs) \<leftarrow> get_string fs; (v2, fs) \<leftarrow> get_string fs;
     (v3, fs) \<leftarrow> get_string fs; (v4, fs) \<leftarrow> get_string fs;
     (v5, fs) \<leftarrow> get_string fs; (v6, fs) \<leftarrow> get_string fs;
     Some \<lparr>r_kind = v1, r_name = v2, r_arch = v3, r_branch = v4, r_commit = v5,
         r_collectionId = v6\<rparr> }"

definition fits_FpRef :: "allocator \<Rightarrow> FpRef \<Rightarrow> bool" where
  "fits_FpRef al x \<longleftrightarrow>
     str_fits al (r_kind x) \<and> str_fits al (r_name x) \<and> str_fits al (r_arch x) \<and>
     str_fits al (r_branch x) \<and> str_fits al (r_commit x) \<and>
     str_fits al (r_collectionId x)"

lemma FpRef_of_val [simp]: "FpRef_of (FpRef_val x) = Some x"
  by (simp add: FpRef_val_def FpRef_of_def)

lemma FpRef_fits [simp]:
  "fits_FpRef al x \<Longrightarrow> fits al (FpRef_val x) meta_FpRef"
  by (simp add: FpRef_val_def meta_FpRef_def fits_FpRef_def
      str_fits_def vec_fits_def)

interpretation fpref: converted_codec enc_value "parse_value al meta_FpRef"
    "\<lambda>v. fits al v meta_FpRef" FpRef_val FpRef_of "fits_FpRef al" for al
  by unfold_locales simp_all

subsection \<open>InstalledApp\<close>

record InstalledApp =
  a_ref :: FpRef
  a_origin :: string
  a_latestCommit :: string
  a_installedPath :: string
  a_installedSize :: u64
  a_isCurrentArch :: bool
  a_endOfLife :: bool
  a_endOfLifeRebase :: string
  a_appDataName :: string
  a_appDataSummary :: string
  a_appDataVersion :: string
  a_appDataIcon :: string

definition meta_InstalledApp :: gty where
  "meta_InstalledApp = TStruct [
     (''ref'', FElem meta_FpRef), (''origin'', FElem TString),
     (''latestCommit'', FElem TString), (''installedPath'', FElem TString),
     (''installedSize'', FElem (TArith I64)), (''isCurrentArch'', FBool),
     (''endOfLife'', FBool), (''endOfLifeRebase'', FElem TString),
     (''appDataName'', FElem TString), (''appDataSummary'', FElem TString),
     (''appDataVersion'', FElem TString), (''appDataIcon'', FElem TString)]"

definition InstalledApp_val :: "InstalledApp \<Rightarrow> gval" where
  "InstalledApp_val x = VStruct [
     FVal (FpRef_val (a_ref x)), FVal (VString (a_origin x)),
     FVal (VString (a_latestCommit x)), FVal (VString (a_installedPath x)),
     FVal (VArith (V64 (a_installedSize x))), FBoolVal (a_isCurrentArch x),
     FBoolVal (a_endOfLife x), FVal (VString (a_endOfLifeRebase x)),
     FVal (VString (a_appDataName x)), FVal (VString (a_appDataSummary x)),
     FVal (VString (a_appDataVersion x)), FVal (VString (a_appDataIcon x))]"

definition InstalledApp_of :: "gval \<Rightarrow> InstalledApp option" where
  "InstalledApp_of v = do {
     fs \<leftarrow> get_fields v;
     (v1, fs) \<leftarrow> get_elem FpRef_of fs; (v2, fs) \<leftarrow> get_string fs;
     (v3, fs) \<leftarrow> get_string fs; (v4, fs) \<leftarrow> get_string fs;
     (v5, fs) \<leftarrow> get_i64 fs; (v6, fs) \<leftarrow> get_bool fs;
     (v7, fs) \<leftarrow> get_bool fs; (v8, fs) \<leftarrow> get_string fs;
     (v9, fs) \<leftarrow> get_string fs; (v10, fs) \<leftarrow> get_string fs;
     (v11, fs) \<leftarrow> get_string fs; (v12, fs) \<leftarrow> get_string fs;
     Some \<lparr>a_ref = v1, a_origin = v2, a_latestCommit = v3, a_installedPath = v4,
         a_installedSize = v5, a_isCurrentArch = v6, a_endOfLife = v7, a_endOfLifeRebase = v8,
         a_appDataName = v9, a_appDataSummary = v10, a_appDataVersion = v11,
         a_appDataIcon = v12\<rparr> }"

definition fits_InstalledApp :: "allocator \<Rightarrow> InstalledApp \<Rightarrow> bool" where
  "fits_InstalledApp al x \<longleftrightarrow>
     fits_FpRef al (a_ref x) \<and> str_fits al (a_origin x) \<and>
     str_fits al (a_latestCommit x) \<and> str_fits al (a_installedPath x) \<and>
     str_fits al (a_endOfLifeRebase x) \<and> str_fits al (a_appDataName x) \<and>
     str_fits al (a_appDataSummary x) \<and> str_fits al (a_appDataVersion x) \<and>
     str_fits al (a_appDataIcon x)"

lemma InstalledApp_of_val [simp]: "InstalledApp_of (InstalledApp_val x) = Some x"
  by (simp add: InstalledApp_val_def InstalledApp_of_def)

lemma InstalledApp_fits [simp]:
  "fits_InstalledApp al x \<Longrightarrow> fits al (InstalledApp_val x) meta_InstalledApp"
  by (simp add: InstalledApp_val_def meta_InstalledApp_def fits_InstalledApp_def
      str_fits_def vec_fits_def)

interpretation installedapp: converted_codec enc_value "parse_value al meta_InstalledApp"
    "\<lambda>v. fits al v meta_InstalledApp" InstalledApp_val InstalledApp_of "fits_InstalledApp al" for al
  by unfold_locales simp_all

subsection \<open>FlatpakRemoteInfo\<close>

record FlatpakRemoteInfo =
  m_name :: string
  m_url :: string
  m_title :: string
  m_comment :: string
  m_description :: string
  m_homepage :: string
  m_defaultBranch :: string
  m_subset :: string
  m_collectionId :: string
  m_filter :: string
  m_remoteType :: i32
  m_disabled :: bool
  m_gpgVerify :: bool
  m_noDeps :: bool
  m_priority :: i32

definition meta_FlatpakRemoteInfo :: gty where
  "meta_FlatpakRemoteInfo = TStruct [
     (''name'', FElem TString), (''url'', FElem TString), (''title'', FElem TString),
     (''comment'', FElem TString), (''description'', FElem TString),
     (''homepage'', FElem TString), (''defaultBranch'', FElem TString),
     (''subset'', FElem TString), (''collectionId'', FElem TString),
     (''filter'', FElem TString), (''remoteType'', FElem (TArith I32)), (''disabled'', FBool),
     (''gpgVerify'', FBool), (''noDeps'', FBool), (''priority'', FElem (TArith I32))]"

definition FlatpakRemoteInfo_val :: "FlatpakRemoteInfo \<Rightarrow> gval" where
  "FlatpakRemoteInfo_val x = VStruct [
     FVal (VString (m_name x)), FVal (VString (m_url x)), FVal (VString (m_title x)),
     FVal (VString (m_comment x)), FVal (VString (m_description x)),
     FVal (VString (m_homepage x)), FVal (VString (m_defaultBranch x)),
     FVal (VString (m_subset x)), FVal (VString (m_collectionId x)),
     FVal (VString (m_filter x)), FVal (VArith (V32 (m_remoteType x))),
     FBoolVal (m_disabled x), FBoolVal (m_gpgVerify x), FBoolVal (m_noDeps x),
     FVal (VArith (V32 (m_priority x)))]"

definition FlatpakRemoteInfo_of :: "gval \<Rightarrow> FlatpakRemoteInfo option" where
  "FlatpakRemoteInfo_of v = do {
     fs \<leftarrow> get_fields v;
     (v1, fs) \<leftarrow> get_string fs; (v2, fs) \<leftarrow> get_string fs;
     (v3, fs) \<leftarrow> get_string fs; (v4, fs) \<leftarrow> get_string fs;
     (v5, fs) \<leftarrow> get_string fs; (v6, fs) \<leftarrow> get_string fs;
     (v7, fs) \<leftarrow> get_string fs; (v8, fs) \<leftarrow> get_string fs;
     (v9, fs) \<leftarrow> get_string fs; (v10, fs) \<leftarrow> get_string fs;
     (v11, fs) \<leftarrow> get_i32 fs; (v12, fs) \<leftarrow> get_bool fs;
     (v13, fs) \<leftarrow> get_bool fs; (v14, fs) \<leftarrow> get_bool fs;
     (v15, fs) \<leftarrow> get_i32 fs;
     Some \<lparr>m_name = v1, m_url = v2, m_title = v3, m_comment = v4, m_description = v5,
         m_homepage = v6, m_defaultBranch = v7, m_subset = v8, m_collectionId = v9,
         m_filter = v10, m_remoteType = v11, m_disabled = v12, m_gpgVerify = v13,
         m_noDeps = v14, m_priority = v15\<rparr> }"

definition fits_FlatpakRemoteInfo :: "allocator \<Rightarrow> FlatpakRemoteInfo \<Rightarrow> bool" where
  "fits_FlatpakRemoteInfo al x \<longleftrightarrow>
     str_fits al (m_name x) \<and> str_fits al (m_url x) \<and> str_fits al (m_title x) \<and>
     str_fits al (m_comment x) \<and> str_fits al (m_description x) \<and>
     str_fits al (m_homepage x) \<and> str_fits al (m_defaultBranch x) \<and>
     str_fits al (m_subset x) \<and> str_fits al (m_collectionId x) \<and>
     str_fits al (m_filter x)"

lemma FlatpakRemoteInfo_of_val [simp]: "FlatpakRemoteInfo_of (FlatpakRemoteInfo_val x) = Some x"
  by (simp add: FlatpakRemoteInfo_val_def FlatpakRemoteInfo_of_def)

lemma FlatpakRemoteInfo_fits [simp]:
  "fits_FlatpakRemoteInfo al x \<Longrightarrow> fits al (FlatpakRemoteInfo_val x) meta_FlatpakRemoteInfo"
  by (simp add: FlatpakRemoteInfo_val_def meta_FlatpakRemoteInfo_def fits_FlatpakRemoteInfo_def
      str_fits_def vec_fits_def)

interpretation flatpakremoteinfo: converted_codec enc_value "parse_value al meta_FlatpakRemoteInfo"
    "\<lambda>v. fits al v meta_FlatpakRemoteInfo" FlatpakRemoteInfo_val FlatpakRemoteInfo_of "fits_FlatpakRemoteInfo al" for al
  by unfold_locales simp_all

subsection \<open>RemoteConfig\<close>

record RemoteConfig =
  c_url :: string
  c_title :: string
  c_comment :: string
  c_homepage :: string
  c_defaultBranch :: string
  c_gpgKeyData :: "byte list"
  c_subset :: string
  c_collectionId :: string
  c_filter :: string
  c_priority :: i32
  c_gpgVerify :: i8
  c_disabled :: i8
  c_noDeps :: i8

definition meta_RemoteConfig :: gty where
  "meta_RemoteConfig = TStruct [
     (''url'', FElem TString), (''title'', FElem TString), (''comment'', FElem TString),
     (''homepage'', FElem TString), (''defaultBranch'', FElem TString),
     (''gpgKeyData'', FVector (TArith I8)), (''subset'', FElem TString),
     (''collectionId'', FElem TString), (''filter'', FElem TString),
     (''priority'', FElem (TArith I32)), (''gpgVerify'', FElem (TArith I8)),
     (''disabled'', FElem (TArith I8)), (''noDeps'', FElem (TArith I8))]"

definition RemoteConfig_val :: "RemoteConfig \<Rightarrow> gval" where
  "RemoteConfig_val x = VStruct [
     FVal (VString (c_url x)), FVal (VString (c_title x)), FVal (VString (c_comment x)),
     FVal (VString (c_homepage x)), FVal (VString (c_defaultBranch x)),
     FVecVal (map (\<lambda>b. VArith (V8 b)) (c_gpgKeyData x)), FVal (VString (c_subset x)),
     FVal (VString (c_collectionId x)), FVal (VString (c_filter x)),
     FVal (VArith (V32 (c_priority x))), FVal (VArith (V8 (c_gpgVerify x))),
     FVal (VArith (V8 (c_disabled x))), FVal (VArith (V8 (c_noDeps x)))]"

definition RemoteConfig_of :: "gval \<Rightarrow> RemoteConfig option" where
  "RemoteConfig_of v = do {
     fs \<leftarrow> get_fields v;
     (v1, fs) \<leftarrow> get_string fs; (v2, fs) \<leftarrow> get_string fs;
     (v3, fs) \<leftarrow> get_string fs; (v4, fs) \<leftarrow> get_string fs;
     (v5, fs) \<leftarrow> get_string fs; (v6, fs) \<leftarrow> get_bytes fs;
     (v7, fs) \<leftarrow> get_string fs; (v8, fs) \<leftarrow> get_string fs;
     (v9, fs) \<leftarrow> get_string fs; (v10, fs) \<leftarrow> get_i32 fs;
     (v11, fs) \<leftarrow> get_i8 fs; (v12, fs) \<leftarrow> get_i8 fs;
     (v13, fs) \<leftarrow> get_i8 fs;
     Some \<lparr>c_url = v1, c_title = v2, c_comment = v3, c_homepage = v4, c_defaultBranch = v5,
         c_gpgKeyData = v6, c_subset = v7, c_collectionId = v8, c_filter = v9,
         c_priority = v10, c_gpgVerify = v11, c_disabled = v12, c_noDeps = v13\<rparr> }"

definition fits_RemoteConfig :: "allocator \<Rightarrow> RemoteConfig \<Rightarrow> bool" where
  "fits_RemoteConfig al x \<longleftrightarrow>
     str_fits al (c_url x) \<and> str_fits al (c_title x) \<and>
     str_fits al (c_comment x) \<and> str_fits al (c_homepage x) \<and>
     str_fits al (c_defaultBranch x) \<and> vec_fits al (c_gpgKeyData x) \<and>
     str_fits al (c_subset x) \<and> str_fits al (c_collectionId x) \<and>
     str_fits al (c_filter x)"

lemma RemoteConfig_of_val [simp]: "RemoteConfig_of (RemoteConfig_val x) = Some x"
  by (simp add: RemoteConfig_val_def RemoteConfig_of_def)

lemma RemoteConfig_fits [simp]:
  "fits_RemoteConfig al x \<Longrightarrow> fits al (RemoteConfig_val x) meta_RemoteConfig"
  by (simp add: RemoteConfig_val_def meta_RemoteConfig_def fits_RemoteConfig_def
      str_fits_def vec_fits_def)

interpretation remoteconfig: converted_codec enc_value "parse_value al meta_RemoteConfig"
    "\<lambda>v. fits al v meta_RemoteConfig" RemoteConfig_val RemoteConfig_of "fits_RemoteConfig al" for al
  by unfold_locales simp_all

subsection \<open>TransactionProgress\<close>

record TransactionProgress =
  t_op :: string
  t_ref :: string
  t_progress :: i32
  t_bytesTransferred :: u64
  t_bytesTotal :: u64
  t_status :: string

definition meta_TransactionProgress :: gty where
  "meta_TransactionProgress = TStruct [
     (''op'', FElem TString), (''ref'', FElem TString), (''progress'', FElem (TArith I32)),
     (''bytesTransferred'', FElem (TArith I64)), (''bytesTotal'', FElem (TArith I64)),
     (''status'', FElem TString)]"

definition TransactionProgress_val :: "TransactionProgress \<Rightarrow> gval" where
  "TransactionProgress_val x = VStruct [
     FVal (VString (t_op x)), FVal (VString (t_ref x)), FVal (VArith (V32 (t_progress x))),
     FVal (VArith (V64 (t_bytesTransferred x))), FVal (VArith (V64 (t_bytesTotal x))),
     FVal (VString (t_status x))]"

definition TransactionProgress_of :: "gval \<Rightarrow> TransactionProgress option" where
  "TransactionProgress_of v = do {
     fs \<leftarrow> get_fields v;
     (v1, fs) \<leftarrow> get_string fs; (v2, fs) \<leftarrow> get_string fs;
     (v3, fs) \<leftarrow> get_i32 fs; (v4, fs) \<leftarrow> get_i64 fs;
     (v5, fs) \<leftarrow> get_i64 fs; (v6, fs) \<leftarrow> get_string fs;
     Some \<lparr>t_op = v1, t_ref = v2, t_progress = v3, t_bytesTransferred = v4, t_bytesTotal = v5,
         t_status = v6\<rparr> }"

definition fits_TransactionProgress :: "allocator \<Rightarrow> TransactionProgress \<Rightarrow> bool" where
  "fits_TransactionProgress al x \<longleftrightarrow>
     str_fits al (t_op x) \<and> str_fits al (t_ref x) \<and> str_fits al (t_status x)"

lemma TransactionProgress_of_val [simp]: "TransactionProgress_of (TransactionProgress_val x) = Some x"
  by (simp add: TransactionProgress_val_def TransactionProgress_of_def)

lemma TransactionProgress_fits [simp]:
  "fits_TransactionProgress al x \<Longrightarrow> fits al (TransactionProgress_val x) meta_TransactionProgress"
  by (simp add: TransactionProgress_val_def meta_TransactionProgress_def fits_TransactionProgress_def
      str_fits_def vec_fits_def)

interpretation transactionprogress: converted_codec enc_value "parse_value al meta_TransactionProgress"
    "\<lambda>v. fits al v meta_TransactionProgress" TransactionProgress_val TransactionProgress_of "fits_TransactionProgress al" for al
  by unfold_locales simp_all

subsection \<open>FpInstance\<close>

record FpInstance =
  i_appId :: string
  i_instanceId :: string
  i_arch :: string
  i_branch :: string
  i_commit :: string
  i_runtime :: string
  i_pid :: i32
  i_childPid :: i32
  i_isRunning :: bool

definition meta_FpInstance :: gty where
  "meta_FpInstance = TStruct [
     (''appId'', FElem TString), (''instanceId'', FElem TString), (''arch'', FElem TString),
     (''branch'', FElem TString), (''commit'', FElem TString), (''runtime'', FElem TString),
     (''pid'', FElem (TArith I32)), (''childPid'', FElem (TArith I32)), (''isRunning'', FBool)]"

definition FpInstance_val :: "FpInstance \<Rightarrow> gval" where
  "FpInstance_val x = VStruct [
     FVal (VString (i_appId x)), FVal (VString (i_instanceId x)), FVal (VString (i_arch x)),
     FVal (VString (i_branch x)), FVal (VString (i_commit x)), FVal (VString (i_runtime x)),
     FVal (VArith (V32 (i_pid x))), FVal (VArith (V32 (i_childPid x))),
     FBoolVal (i_isRunning x)]"

definition FpInstance_of :: "gval \<Rightarrow> FpInstance option" where
  "FpInstance_of v = do {
     fs \<leftarrow> get_fields v;
     (v1, fs) \<leftarrow> get_string fs; (v2, fs) \<leftarrow> get_string fs;
     (v3, fs) \<leftarrow> get_string fs; (v4, fs) \<leftarrow> get_string fs;
     (v5, fs) \<leftarrow> get_string fs; (v6, fs) \<leftarrow> get_string fs;
     (v7, fs) \<leftarrow> get_i32 fs; (v8, fs) \<leftarrow> get_i32 fs;
     (v9, fs) \<leftarrow> get_bool fs;
     Some \<lparr>i_appId = v1, i_instanceId = v2, i_arch = v3, i_branch = v4, i_commit = v5,
         i_runtime = v6, i_pid = v7, i_childPid = v8, i_isRunning = v9\<rparr> }"

definition fits_FpInstance :: "allocator \<Rightarrow> FpInstance \<Rightarrow> bool" where
  "fits_FpInstance al x \<longleftrightarrow>
     str_fits al (i_appId x) \<and> str_fits al (i_instanceId x) \<and>
     str_fits al (i_arch x) \<and> str_fits al (i_branch x) \<and>
     str_fits al (i_commit x) \<and> str_fits al (i_runtime x)"

lemma FpInstance_of_val [simp]: "FpInstance_of (FpInstance_val x) = Some x"
  by (simp add: FpInstance_val_def FpInstance_of_def)

lemma FpInstance_fits [simp]:
  "fits_FpInstance al x \<Longrightarrow> fits al (FpInstance_val x) meta_FpInstance"
  by (simp add: FpInstance_val_def meta_FpInstance_def fits_FpInstance_def
      str_fits_def vec_fits_def)

interpretation fpinstance: converted_codec enc_value "parse_value al meta_FpInstance"
    "\<lambda>v. fits al v meta_FpInstance" FpInstance_val FpInstance_of "fits_FpInstance al" for al
  by unfold_locales simp_all

subsection \<open>FpInstallationInfo\<close>

record FpInstallationInfo =
  n_id :: string
  n_displayName :: string
  n_path :: string
  n_isUser :: bool
  n_priority :: i32

definition meta_FpInstallationInfo :: gty where
  "meta_FpInstallationInfo = TStruct [
     (''id'', FElem TString), (''displayName'', FElem TString), (''path'', FElem TString),
     (''isUser'', FBool), (''priority'', FElem (TArith I32))]"

definition FpInstallationInfo_val :: "FpInstallationInfo \<Rightarrow> gval" where
  "FpInstallationInfo_val x = VStruct [
     FVal (VString (n_id x)), FVal (VString (n_displayName x)), FVal (VString (n_path x)),
     FBoolVal (n_isUser x), FVal (VArith (V32 (n_priority x)))]"

definition FpInstallationInfo_of :: "gval \<Rightarrow> FpInstallationInfo option" where
  "FpInstallationInfo_of v = do {
     fs \<leftarrow> get_fields v;
     (v1, fs) \<leftarrow> get_string fs; (v2, fs) \<leftarrow> get_string fs;
     (v3, fs) \<leftarrow> get_string fs; (v4, fs) \<leftarrow> get_bool fs;
     (v5, fs) \<leftarrow> get_i32 fs;
     Some \<lparr>n_id = v1, n_displayName = v2, n_path = v3, n_isUser = v4, n_priority = v5\<rparr> }"

definition fits_FpInstallationInfo :: "allocator \<Rightarrow> FpInstallationInfo \<Rightarrow> bool" where
  "fits_FpInstallationInfo al x \<longleftrightarrow>
     str_fits al (n_id x) \<and> str_fits al (n_displayName x) \<and> str_fits al (n_path x)"

lemma FpInstallationInfo_of_val [simp]: "FpInstallationInfo_of (FpInstallationInfo_val x) = Some x"
  by (simp add: FpInstallationInfo_val_def FpInstallationInfo_of_def)

lemma FpInstallationInfo_fits [simp]:
  "fits_FpInstallationInfo al x \<Longrightarrow> fits al (FpInstallationInfo_val x) meta_FpInstallationInfo"
  by (simp add: FpInstallationInfo_val_def meta_FpInstallationInfo_def fits_FpInstallationInfo_def
      str_fits_def vec_fits_def)

interpretation fpinstallationinfo: converted_codec enc_value "parse_value al meta_FpInstallationInfo"
    "\<lambda>v. fits al v meta_FpInstallationInfo" FpInstallationInfo_val FpInstallationInfo_of "fits_FpInstallationInfo al" for al
  by unfold_locales simp_all

subsection \<open>FpMetadataEntry\<close>

record FpMetadataEntry =
  e_section :: string
  e_key :: string
  e_value :: string

definition meta_FpMetadataEntry :: gty where
  "meta_FpMetadataEntry = TStruct [
     (''section'', FElem TString), (''key'', FElem TString), (''value'', FElem TString)]"

definition FpMetadataEntry_val :: "FpMetadataEntry \<Rightarrow> gval" where
  "FpMetadataEntry_val x = VStruct [
     FVal (VString (e_section x)), FVal (VString (e_key x)), FVal (VString (e_value x))]"

definition FpMetadataEntry_of :: "gval \<Rightarrow> FpMetadataEntry option" where
  "FpMetadataEntry_of v = do {
     fs \<leftarrow> get_fields v;
     (v1, fs) \<leftarrow> get_string fs; (v2, fs) \<leftarrow> get_string fs;
     (v3, fs) \<leftarrow> get_string fs;
     Some \<lparr>e_section = v1, e_key = v2, e_value = v3\<rparr> }"

definition fits_FpMetadataEntry :: "allocator \<Rightarrow> FpMetadataEntry \<Rightarrow> bool" where
  "fits_FpMetadataEntry al x \<longleftrightarrow>
     str_fits al (e_section x) \<and> str_fits al (e_key x) \<and> str_fits al (e_value x)"

lemma FpMetadataEntry_of_val [simp]: "FpMetadataEntry_of (FpMetadataEntry_val x) = Some x"
  by (simp add: FpMetadataEntry_val_def FpMetadataEntry_of_def)

lemma FpMetadataEntry_fits [simp]:
  "fits_FpMetadataEntry al x \<Longrightarrow> fits al (FpMetadataEntry_val x) meta_FpMetadataEntry"
  by (simp add: FpMetadataEntry_val_def meta_FpMetadataEntry_def fits_FpMetadataEntry_def
      str_fits_def vec_fits_def)

interpretation fpmetadataentry: converted_codec enc_value "parse_value al meta_FpMetadataEntry"
    "\<lambda>v. fits al v meta_FpMetadataEntry" FpMetadataEntry_val FpMetadataEntry_of "fits_FpMetadataEntry al" for al
  by unfold_locales simp_all

section \<open>Reading a struct\<close>

text \<open>\<open>glz::read_binary\<close> at a registered struct: the object the caller gets.\<close>

definition read_struct ::
    "allocator \<Rightarrow> region \<Rightarrow> gty \<Rightarrow> (gval \<Rightarrow> 'a option) \<Rightarrow> rd_error + 'a option" where
  "read_struct al g t of_val = map_sum id of_val (read_binary al g t)"

lemma read_struct_write:
  assumes "region_ok g" "rg_bytes g = write_binary v @ r" "fits al v t" "of_val v = Some x"
  shows "read_struct al g t of_val = Inr (Some x)"
  using read_binary_write [OF assms(1-3)] assms(4) by (simp add: read_struct_def)

text \<open>The default-constructed \<open>RemoteConfig\<close>, with its "leave unchanged" sentinels.\<close>

definition default_RemoteConfig :: RemoteConfig where
  "default_RemoteConfig =
     \<lparr>c_url = '''', c_title = '''', c_comment = '''', c_homepage = '''', c_defaultBranch = '''',
      c_gpgKeyData = [], c_subset = '''', c_collectionId = '''', c_filter = '''',
      c_priority = -1, c_gpgVerify = -1, c_disabled = -1, c_noDeps = -1\<rparr>"

section \<open>Values of the registered types\<close>

text \<open>Inversion of the typing of values: the shape of a value of each type.\<close>

lemma have_ftypes_iff [wire_simps]:
  "have_ftypes fs [] \<longleftrightarrow> fs = []"
  "have_ftypes fs ((n, t) # ts) \<longleftrightarrow> (\<exists>f fs'. fs = f # fs' \<and> has_ftype f t \<and> have_ftypes fs' ts)"
  by (cases fs; simp)+

lemma has_type_iff [wire_simps]:
  "has_type v TString \<longleftrightarrow> (\<exists>s. v = VString s)"
  "has_type v (TArith I8) \<longleftrightarrow> (\<exists>w. v = VArith (V8 w))"
  "has_type v (TArith I32) \<longleftrightarrow> (\<exists>w. v = VArith (V32 w))"
  "has_type v (TArith I64) \<longleftrightarrow> (\<exists>w. v = VArith (V64 w))"
  "has_type v (TStruct ts) \<longleftrightarrow> (\<exists>fs. v = VStruct fs \<and> have_ftypes fs ts)"
  by (cases v; auto elim: arith_ty_of.elims)+

lemma has_ftype_iff [wire_simps]:
  "has_ftype f (FElem t) \<longleftrightarrow> (\<exists>v. f = FVal v \<and> has_type v t)"
  "has_ftype f FBool \<longleftrightarrow> (\<exists>b. f = FBoolVal b)"
  "has_ftype f (FVector t) \<longleftrightarrow> (\<exists>vs. f = FVecVal vs \<and> list_all (\<lambda>v. has_type v t) vs)"
  by (cases f; auto)+

lemma bytes_of_vals_typed: "list_all (\<lambda>v. has_type v (TArith I8)) vs \<Longrightarrow> \<exists>bs. bytes_of_vals vs = Some bs"
  by (induction vs) (auto simp: wire_simps)

lemma structs_of_typed:
  "has_type v meta_FpRef \<Longrightarrow> \<exists>x. FpRef_of v = Some x"
  "has_type v meta_InstalledApp \<Longrightarrow> \<exists>x. InstalledApp_of v = Some x"
  "has_type v meta_FlatpakRemoteInfo \<Longrightarrow> \<exists>x. FlatpakRemoteInfo_of v = Some x"
  "has_type v meta_RemoteConfig \<Longrightarrow> \<exists>x. RemoteConfig_of v = Some x"
  "has_type v meta_TransactionProgress \<Longrightarrow> \<exists>x. TransactionProgress_of v = Some x"
  "has_type v meta_FpInstance \<Longrightarrow> \<exists>x. FpInstance_of v = Some x"
  "has_type v meta_FpInstallationInfo \<Longrightarrow> \<exists>x. FpInstallationInfo_of v = Some x"
  "has_type v meta_FpMetadataEntry \<Longrightarrow> \<exists>x. FpMetadataEntry_of v = Some x"
  by (auto simp: wire_simps meta_FpRef_def FpRef_of_def meta_InstalledApp_def InstalledApp_of_def
      meta_FlatpakRemoteInfo_def FlatpakRemoteInfo_of_def meta_RemoteConfig_def RemoteConfig_of_def
      meta_TransactionProgress_def TransactionProgress_of_def meta_FpInstance_def FpInstance_of_def
      meta_FpInstallationInfo_def FpInstallationInfo_of_def meta_FpMetadataEntry_def
      FpMetadataEntry_of_def dest: bytes_of_vals_typed [unfolded wire_simps])

lemma read_struct_typed:
  assumes "region_ok g" "\<And>v. has_type v t \<Longrightarrow> \<exists>x. of_val v = Some x"
  shows "read_struct al g t of_val \<notin> {Inr None, Inl Wild_access}"
proof (cases "read_binary al g t")
  case (Inl e)
  then show ?thesis using read_binary_refines_no_wild [OF assms(1), of al t] by (simp add: read_struct_def)
next
  case (Inr v)
  with assms read_binary_typed [OF assms(1) Inr] show ?thesis by (auto simp: read_struct_def)
qed

section \<open>Properties\<close>

text \<open>
  C22. Every registered struct survives the wire: reading what the writer produced for an
  object, whatever bytes follow it, gives an object with the same members, provided the
  allocator can hold its strings and vectors.
\<close>

theorem struct_round_trips:
  assumes "region_ok g"
  shows "
    (\<forall>x. fits_FpRef al x \<longrightarrow> rg_bytes g = write_binary (FpRef_val x) @ r \<longrightarrow>
      read_struct al g meta_FpRef FpRef_of = Inr (Some x)) \<and>
    (\<forall>x. fits_InstalledApp al x \<longrightarrow> rg_bytes g = write_binary (InstalledApp_val x) @ r \<longrightarrow>
      read_struct al g meta_InstalledApp InstalledApp_of = Inr (Some x)) \<and>
    (\<forall>x. fits_FlatpakRemoteInfo al x \<longrightarrow> rg_bytes g = write_binary (FlatpakRemoteInfo_val x) @ r \<longrightarrow>
      read_struct al g meta_FlatpakRemoteInfo FlatpakRemoteInfo_of = Inr (Some x)) \<and>
    (\<forall>x. fits_RemoteConfig al x \<longrightarrow> rg_bytes g = write_binary (RemoteConfig_val x) @ r \<longrightarrow>
      read_struct al g meta_RemoteConfig RemoteConfig_of = Inr (Some x)) \<and>
    (\<forall>x. fits_TransactionProgress al x \<longrightarrow> rg_bytes g = write_binary (TransactionProgress_val x) @ r \<longrightarrow>
      read_struct al g meta_TransactionProgress TransactionProgress_of = Inr (Some x)) \<and>
    (\<forall>x. fits_FpInstance al x \<longrightarrow> rg_bytes g = write_binary (FpInstance_val x) @ r \<longrightarrow>
      read_struct al g meta_FpInstance FpInstance_of = Inr (Some x)) \<and>
    (\<forall>x. fits_FpInstallationInfo al x \<longrightarrow> rg_bytes g = write_binary (FpInstallationInfo_val x) @ r \<longrightarrow>
      read_struct al g meta_FpInstallationInfo FpInstallationInfo_of = Inr (Some x)) \<and>
    (\<forall>x. fits_FpMetadataEntry al x \<longrightarrow> rg_bytes g = write_binary (FpMetadataEntry_val x) @ r \<longrightarrow>
      read_struct al g meta_FpMetadataEntry FpMetadataEntry_of = Inr (Some x))"
  by (intro conjI allI impI; erule read_struct_write [OF assms]; simp)

definition example_ref :: FpRef where
  "example_ref = \<lparr>r_kind = ''app'', r_name = ''org.x.Y'', r_arch = ''x86_64'', r_branch = ''stable'',
     r_commit = '''', r_collectionId = ''''\<rparr>"

theorem struct_round_trips_witness:
  "read_struct example_allocator
     \<lparr>rg_base = 4096, rg_bytes = write_binary (FpRef_val example_ref) @ [7]\<rparr> meta_FpRef FpRef_of =
   Inr (Some example_ref)"
proof -
  have ok: "region_ok \<lparr>rg_base = 4096, rg_bytes = write_binary (FpRef_val example_ref) @ [7]\<rparr>"
    by (simp add: region_ok_def wire_simps FpRef_val_def example_ref_def enc_string_def)
  have "fits_FpRef example_allocator example_ref"
    by (simp add: fits_FpRef_def str_fits_def example_allocator_def example_ref_def)
  then show ?thesis using struct_round_trips [OF ok, of example_allocator "[7]"] by simp
qed

end
