(* ===== verification/Reply_Stream.thy ===== *)
theory Reply_Stream
  imports Posting Flatpak_Types
begin

text \<open>
  The reply protocol between a native operation and the Dart future that waits for it: the
  posting shorthands of native/src/installation_reader.cpp, the frame discipline every
  streaming operation keeps (any number of 0x01 items and then 0xFF, or one error frame), and
  what of a text crosses a frame. The locale \<open>reply_stream\<close> is what an operation promises
  the listener at its port; the listeners themselves are in \<open>Dart_Client\<close>.
\<close>

section \<open>The posting shorthands\<close>

definition post_glaze :: "port \<Rightarrow> byte \<Rightarrow> gval \<Rightarrow> post" where
  "post_glaze p discriminator value = post_framed p discriminator (write_binary value)"

definition post_sentinel :: "port \<Rightarrow> post" where
  "post_sentinel p = PostCopy p [0xFF]"

definition post_error :: "port \<Rightarrow> string \<Rightarrow> post" where
  "post_error p msg = post_framed_error p 0x02 msg"

definition post_op_error :: "port \<Rightarrow> string \<Rightarrow> post" where
  "post_op_error p msg = post_framed_error p 0x03 msg"

definition post_string :: "port \<Rightarrow> string \<Rightarrow> post" where
  "post_string p s = post_framed_error p 0x01 s"

lemma post_port_simps [simp]:
  "post_port (post_glaze p d v) = p" "post_port (post_sentinel p) = p"
  "post_port (post_error p m) = p" "post_port (post_op_error p m) = p"
  "post_port (post_string p m) = p" "post_port (post_framed p d bs) = p"
  by (simp_all add: post_glaze_def post_framed_def post_sentinel_def post_error_def
      post_op_error_def post_string_def post_framed_error_def Let_def)

section \<open>The frame discipline\<close>

definition is_item :: "port \<Rightarrow> post \<Rightarrow> bool" where
  "is_item p x \<longleftrightarrow> post_port x = p \<and> take 1 (post_bytes x) = [0x01]"

lemma is_item_simps [simp]:
  "is_item p (post_glaze p 0x01 v)" "is_item p (post_string p s)" "is_item p (post_framed p 0x01 bs)"
  by (simp_all add: is_item_def post_glaze_def post_framed_def post_string_def
      post_framed_error_def Let_def)

fun stream_framed :: "port \<Rightarrow> post list \<Rightarrow> bool" where
  "stream_framed p [] = False"
| "stream_framed p [x] = (x = post_sentinel p)"
| "stream_framed p (x # xs) = (is_item p x \<and> stream_framed p xs)"

definition well_framed :: "port \<Rightarrow> post list \<Rightarrow> bool" where
  "well_framed p ps \<longleftrightarrow>
     stream_framed p ps \<or> (\<exists>msg. ps = [post_error p msg]) \<or> (\<exists>msg. ps = [post_op_error p msg])"

lemma stream_framed_append [simp]:
  "stream_framed p (xs @ [post_sentinel p]) \<longleftrightarrow> (\<forall>x \<in> set xs. is_item p x)"
proof (induction xs)
  case Nil
  then show ?case by simp
next
  case (Cons x xs)
  then show ?case by (cases "xs @ [post_sentinel p]") auto
qed

lemma stream_framedE:
  assumes "stream_framed p ps"
  obtains items where "ps = items @ [post_sentinel p]" "\<forall>x \<in> set items. is_item p x"
  using assms
proof (induction p ps arbitrary: thesis rule: stream_framed.induct)
  case (2 p x)
  from 2 show ?case by (metis append_Nil stream_framed.simps(2) stream_framed_append)
next
  case (3 p x y ys)
  then obtain items where "y # ys = items @ [post_sentinel p]" "\<forall>x \<in> set items. is_item p x"
    by auto
  with 3 show ?case by (metis append_Cons set_ConsD stream_framed.simps(3))
qed simp

lemma well_framed_intros [intro, simp]:
  "well_framed p [post_error p msg]"
  "well_framed p [post_op_error p msg]"
  "well_framed p [post_sentinel p]"
  "\<forall>x \<in> set xs. is_item p x \<Longrightarrow> well_framed p (xs @ [post_sentinel p])"
  "is_item p x \<Longrightarrow> well_framed p [x, post_sentinel p]"
  by (auto simp: well_framed_def)

lemma well_framed_port: "well_framed p ps \<Longrightarrow> x \<in> set ps \<Longrightarrow> post_port x = p"
  by (auto simp: well_framed_def is_item_def elim!: stream_framedE)

section \<open>Texts in frames\<close>

text \<open>
  \<open>GlazeCodec.decodeError\<close> at offset 1, up to its last step: the bytes of the frame that
  \<open>utf8.decode\<close> is then applied to. The whole of it, with what \<open>utf8.decode\<close> throws, is
  \<open>decode_error\<close> of \<open>Dart_Codec\<close>.
\<close>

definition decodeError :: "byte list \<Rightarrow> string" where
  "decodeError data =
     (if length data < 5 then ''unknown error''
      else let len = unat (le_word (take 4 (drop 1 data)) :: u32)
           in if length data < 5 + len then ''truncated error''
              else string_of (take len (drop 5 data)))"

text \<open>Only the first \<open>length mod 2 ^ 32\<close> bytes of a message cross the frame.\<close>

definition wire_msg :: "string \<Rightarrow> string" where
  "wire_msg msg = take (length (c_str msg) mod 2 ^ 32) (c_str msg)"

lemma wire_msg_short:
  "length msg < 2 ^ 32 \<Longrightarrow> CHR 0x00 \<notin> set msg \<Longrightarrow> wire_msg msg = msg"
proof -
  assume *: "length msg < 2 ^ 32" "CHR 0x00 \<notin> set msg"
  then have "c_str msg = msg" by (auto simp: c_str_def takeWhile_eq_all_conv)
  with * show ?thesis by (simp add: wire_msg_def)
qed

lemma post_bytes_framed_error:
  "post_bytes (post_framed_error p d msg) =
     d # le_bytes 4 (of_nat (length (c_str msg)) :: u32) @ bytes_of (wire_msg msg)"
  by (simp add: post_framed_error_def Let_def wire_msg_def unat_of_nat take_bit_eq_mod
      bytes_of_def take_map)

lemma decodeError_framed: "decodeError (post_bytes (post_framed_error p d msg)) = wire_msg msg"
proof -
  let ?n = "length (c_str msg)"
  have "unat (of_nat ?n :: u32) = ?n mod 2 ^ 32" by (simp add: unat_of_nat take_bit_eq_mod)
  moreover have "length (wire_msg msg) = ?n mod 2 ^ 32"
    by (simp add: wire_msg_def min_absorb2)
  ultimately show ?thesis by (simp add: decodeError_def post_bytes_framed_error Let_def)
qed

lemma le_bytes_eq_Nil [simp]: "le_bytes n v = [] \<longleftrightarrow> n = 0"
  by (metis length_le_bytes length_0_conv)

section \<open>The contract\<close>

text \<open>
  An operation that replies to a port. \<open>None\<close> is undefined behaviour: the bridge read
  \<open>err->message\<close> of an error that was not set.
\<close>

locale reply_stream =
  fixes reply :: "port \<Rightarrow> post list option"
  assumes framed: "reply p = Some ps \<Longrightarrow> well_framed p ps"
begin

lemma reply_port: "reply p = Some ps \<Longrightarrow> x \<in> set ps \<Longrightarrow> post_port x = p"
  using framed well_framed_port by blast

lemma reply_nonempty: "reply p = Some ps \<Longrightarrow> ps \<noteq> []"
  using framed [of p ps] by (auto simp: well_framed_def)

text \<open>A reply is items and one frame that ends it, and nothing comes after that frame.\<close>

lemma reply_ends:
  assumes "reply p = Some ps"
  shows "\<exists>items ending. ps = items @ [ending] \<and> (\<forall>x \<in> set items. is_item p x) \<and>
    (ending = post_sentinel p \<or>
     items = [] \<and> (\<exists>msg. ending = post_error p msg \<or> ending = post_op_error p msg))"
  using framed [OF assms]
  by (auto simp: well_framed_def elim!: stream_framedE)

end

end
