(* ===== verification/App_Metadata.thy ===== *)
theory App_Metadata
  imports Bridge_Prelude
begin

text \<open>
  native/src/app_metadata.cpp: the readers over a parsed metadata keyfile. GLib's
  \<open>GKeyFile\<close> is not part of the repository: \<open>keyfile\<close> is the record of the accessors
  the code calls on one (an accessor that returns NULL is \<open>None\<close>), and \<open>g_strstrip\<close> is
  a parameter.
\<close>

section \<open>The keyfile interface\<close>

record keyfile =
  kf_get_groups :: "string list option"
  kf_get_keys :: "string \<Rightarrow> string list option"
  kf_get_string :: "string \<Rightarrow> string \<Rightarrow> cstr"
  kf_get_string_list :: "string \<Rightarrow> string \<Rightarrow> string list option"
  kf_get_boolean :: "string \<Rightarrow> string \<Rightarrow> bool"

section \<open>Requested sockets\<close>

fun socket_loop :: "(string \<Rightarrow> string) \<Rightarrow> string list \<Rightarrow> string \<Rightarrow> bool" where
  "socket_loop strstrip [] socket_name = False"
| "socket_loop strstrip (s # sockets) socket_name =
     (let entry = strstrip s
      in if take 1 entry = ''!'' then socket_loop strstrip sockets socket_name
         else if entry = socket_name then True
         else socket_loop strstrip sockets socket_name)"

definition metadata_requests_socket ::
    "(string \<Rightarrow> string) \<Rightarrow> keyfile option \<Rightarrow> cstr \<Rightarrow> bool" where
  "metadata_requests_socket strstrip kf socket_name =
     (case (kf, socket_name) of
        (Some kf, Some socket_name) \<Rightarrow>
          (case kf_get_string_list kf ''Context'' ''sockets'' of
             None \<Rightarrow> False
           | Some sockets \<Rightarrow> socket_loop strstrip sockets socket_name)
      | _ \<Rightarrow> False)"

lemma socket_loop_iff:
  "socket_loop strstrip sockets name \<longleftrightarrow>
     take 1 name \<noteq> ''!'' \<and> name \<in> strstrip ` set sockets"
  by (induction sockets) (auto simp: Let_def)

section \<open>Required extensions\<close>

record RequiredExtension =
  ext_id :: string
  ext_branches :: "string list"

definition kPrefix :: string where
  "kPrefix = ''Extension ''"

definition kPrefixLen :: nat where
  "kPrefixLen = length kPrefix"

text \<open>The branches a group names: its non-empty \<open>versions\<close>, else its \<open>version\<close>, else the app's.\<close>

definition group_branches :: "keyfile \<Rightarrow> cstr \<Rightarrow> string \<Rightarrow> string list" where
  "group_branches kf app_branch grp =
     (let branches = (case kf_get_string_list kf grp ''versions'' of
            None \<Rightarrow> [] | Some versions \<Rightarrow> filter (\<lambda>v. v \<noteq> '''') versions)
      in if branches = []
         then [case hint (kf_get_string kf grp ''version'') of
                 Some version \<Rightarrow> version
               | None \<Rightarrow> (case app_branch of Some b \<Rightarrow> b | None \<Rightarrow> '''')]
         else branches)"

fun extension_loop ::
    "keyfile \<Rightarrow> cstr \<Rightarrow> string list \<Rightarrow> RequiredExtension list \<Rightarrow> RequiredExtension list" where
  "extension_loop kf app_branch [] out = out"
| "extension_loop kf app_branch (grp # groups) out =
     (if take kPrefixLen grp \<noteq> kPrefix then extension_loop kf app_branch groups out
      else if drop kPrefixLen grp = '''' then extension_loop kf app_branch groups out
      else if kf_get_boolean kf grp ''no-autodownload''
        then extension_loop kf app_branch groups out
      else if kf_get_boolean kf grp ''subdirectories''
        then extension_loop kf app_branch groups out
      else extension_loop kf app_branch groups
             (out @ [\<lparr>ext_id = drop kPrefixLen grp,
                      ext_branches = group_branches kf app_branch grp\<rparr>]))"

definition required_extensions :: "keyfile option \<Rightarrow> cstr \<Rightarrow> RequiredExtension list" where
  "required_extensions kf app_branch =
     (case kf of
        None \<Rightarrow> []
      | Some kf \<Rightarrow>
          (case kf_get_groups kf of
             None \<Rightarrow> []
           | Some groups \<Rightarrow> extension_loop kf app_branch groups []))"

section \<open>What the loop computes\<close>

definition wanted_group :: "keyfile \<Rightarrow> string \<Rightarrow> bool" where
  "wanted_group kf grp \<longleftrightarrow>
     (\<exists>id. id \<noteq> '''' \<and> grp = ''Extension '' @ id) \<and>
     \<not> kf_get_boolean kf grp ''no-autodownload'' \<and> \<not> kf_get_boolean kf grp ''subdirectories''"

lemma prefix_iff: "take kPrefixLen grp = kPrefix \<longleftrightarrow> grp = kPrefix @ drop kPrefixLen grp"
  by (metis append_eq_conv_conj append_take_drop_id kPrefixLen_def)

lemma wanted_group_iff:
  "wanted_group kf grp \<longleftrightarrow>
     take kPrefixLen grp = kPrefix \<and> drop kPrefixLen grp \<noteq> '''' \<and>
     \<not> kf_get_boolean kf grp ''no-autodownload'' \<and> \<not> kf_get_boolean kf grp ''subdirectories''"
proof -
  have "(\<exists>id. id \<noteq> '''' \<and> grp = kPrefix @ id) \<longleftrightarrow>
      take kPrefixLen grp = kPrefix \<and> drop kPrefixLen grp \<noteq> ''''"
    by (metis append_eq_conv_conj kPrefixLen_def prefix_iff)
  then show ?thesis by (simp add: wanted_group_def kPrefix_def)
qed

lemma extension_loop_eq:
  "extension_loop kf app_branch groups out =
     out @ map (\<lambda>grp. \<lparr>ext_id = drop kPrefixLen grp,
                         ext_branches = group_branches kf app_branch grp\<rparr>)
             (filter (wanted_group kf) groups)"
  by (induction groups arbitrary: out) (auto simp: wanted_group_iff)

lemma group_branches_nonempty: "group_branches kf app_branch grp \<noteq> []"
  by (auto simp: group_branches_def Let_def)

lemma required_extensions_branches:
  "ext \<in> set (required_extensions kf app_branch) \<Longrightarrow> ext_branches ext \<noteq> []"
  by (auto simp: required_extensions_def extension_loop_eq group_branches_nonempty
      split: option.splits)

section \<open>Properties\<close>

text \<open>The branches that satisfy an extension, as app_metadata.h documents them.\<close>

definition accepted_branches :: "keyfile \<Rightarrow> cstr \<Rightarrow> string \<Rightarrow> string list" where
  "accepted_branches kf app_branch grp =
     (let versions = filter (\<lambda>v. v \<noteq> '''')
            (case kf_get_string_list kf grp ''versions'' of None \<Rightarrow> [] | Some vs \<Rightarrow> vs)
      in if versions \<noteq> [] then versions
         else if kf_get_string kf grp ''version'' \<in> {None, Some ''''} then [safe_str app_branch]
         else [safe_str (kf_get_string kf grp ''version'')])"

lemma group_branches_eq: "group_branches kf app_branch grp = accepted_branches kf app_branch grp"
  by (auto simp: group_branches_def accepted_branches_def Let_def safe_str_def hint_def
      split: option.splits)

text \<open>
  required_extensions lists the extension groups of the keyfile in file order, without
  those fetched on demand and those with subdirectories; the branches of each are the
  non-empty \<open>versions\<close>, else the non-empty \<open>version\<close>, else the app's branch, and there
  is always at least one.
\<close>

lemma required_extensions_exact:
  "map (\<lambda>ext. (''Extension '' @ ext_id ext, ext_branches ext)) (required_extensions (Some kf) app_branch) =
     map (\<lambda>grp. (grp, accepted_branches kf app_branch grp))
       (filter (\<lambda>grp. (\<exists>eid. eid \<noteq> '''' \<and> grp = ''Extension '' @ eid) \<and>
          \<not> kf_get_boolean kf grp ''no-autodownload'' \<and> \<not> kf_get_boolean kf grp ''subdirectories'')
        (case kf_get_groups kf of None \<Rightarrow> [] | Some groups \<Rightarrow> groups)) \<and>
   [] \<notin> set (map ext_branches (required_extensions (Some kf) app_branch))"
proof -
  define groups where "groups = (case kf_get_groups kf of None \<Rightarrow> [] | Some groups \<Rightarrow> groups)"
  have eq: "required_extensions (Some kf) app_branch =
      map (\<lambda>grp. \<lparr>ext_id = drop kPrefixLen grp, ext_branches = group_branches kf app_branch grp\<rparr>)
        (filter (wanted_group kf) groups)"
    by (simp add: required_extensions_def groups_def extension_loop_eq split: option.splits)
  have "''Extension '' @ drop kPrefixLen grp = grp" if "wanted_group kf grp" for grp
    using that by (auto simp: wanted_group_def kPrefixLen_def kPrefix_def)
  then have "map (\<lambda>ext. (''Extension '' @ ext_id ext, ext_branches ext)) (required_extensions (Some kf) app_branch) =
      map (\<lambda>grp. (grp, accepted_branches kf app_branch grp)) (filter (wanted_group kf) groups)"
    by (auto simp: eq group_branches_eq)
  then show ?thesis
    by (auto simp: wanted_group_def [abs_def] groups_def dest: required_extensions_branches)
qed

end
