(* ===== verification/Libflatpak.thy ===== *)
theory Libflatpak
  imports App_Metadata
begin

text \<open>
  The interface of libflatpak and GLib as the bridges use it. The libraries are not part of
  the repository: their objects are records of what the getters return (a getter that may
  return NULL gives a \<open>cstr\<close>), and their calls are the fields of the record
  \<open>libflatpak\<close>, a parameter of every definition that uses one. A call that fails returns
  \<open>Inl\<close> of the \<open>GError\<close> it set, \<open>Inl None\<close> when it set none.
\<close>

datatype FlatpakRefKind = FLATPAK_REF_KIND_APP | FLATPAK_REF_KIND_RUNTIME

record FlatpakRef =
  ref_kind :: FlatpakRefKind
  ref_name :: cstr
  ref_arch :: cstr
  ref_branch :: cstr
  ref_commit :: cstr
  ref_collection_id :: cstr

record FlatpakInstalledRef = FlatpakRef +
  iref_origin :: cstr
  iref_latest_commit :: cstr
  iref_deploy_dir :: cstr
  iref_installed_size :: u64
  iref_is_current :: bool
  iref_eol :: cstr
  iref_eol_rebase :: cstr
  iref_appdata_name :: cstr
  iref_appdata_summary :: cstr
  iref_appdata_version :: cstr

record FlatpakRemoteRef = FlatpakRef +
  rref_metadata :: "byte list option"

record FlatpakRemote =
  remote_name :: cstr
  remote_url :: cstr
  remote_title :: cstr
  remote_comment :: cstr
  remote_description :: cstr
  remote_homepage :: cstr
  remote_default_branch :: cstr
  remote_collection_id :: cstr
  remote_filter :: cstr
  remote_gpg_key :: "byte list option"
  remote_disabled :: bool
  remote_gpg_verify :: bool
  remote_nodeps :: bool
  remote_prio :: i32
  remote_type :: i32

record FlatpakInstance =
  inst_app :: cstr
  inst_runtime :: cstr
  inst_id :: cstr
  inst_arch :: cstr
  inst_branch :: cstr
  inst_commit :: cstr
  inst_pid :: i32
  inst_child_pid :: i32
  inst_is_running :: bool

record FlatpakInstallation =
  install_id :: cstr
  install_display_name :: cstr
  install_path :: cstr
  install_is_user :: bool
  install_priority :: i32

record GError =
  g_domain :: nat
  g_code :: int
  g_message :: string

type_synonym 'a gresult = "GError option + 'a"

text \<open>One installation as the calls of one operation see it.\<close>

record libflatpak =
  lf_list_installed_refs :: "FlatpakInstalledRef list gresult"
  lf_list_installed_refs_by_kind :: "FlatpakRefKind \<Rightarrow> FlatpakInstalledRef list gresult"
  lf_list_installed_refs_for_update :: "FlatpakInstalledRef list gresult"
  lf_get_installed_ref ::
    "FlatpakRefKind \<Rightarrow> cstr \<Rightarrow> cstr \<Rightarrow> cstr \<Rightarrow> FlatpakInstalledRef gresult"
  lf_get_current_installed_app :: "string \<Rightarrow> FlatpakInstalledRef gresult"
  lf_list_remotes :: "FlatpakRemote list gresult"
  lf_get_remote_by_name :: "string \<Rightarrow> FlatpakRemote gresult"
  lf_list_remote_refs_sync :: "string \<Rightarrow> FlatpakRemoteRef list gresult"
  lf_load_metadata :: "FlatpakInstalledRef \<Rightarrow> byte list gresult"
  lf_fetch_remote_metadata_sync :: "string \<Rightarrow> FlatpakRef \<Rightarrow> byte list gresult"
  lf_ref_parse :: "string \<Rightarrow> FlatpakRef gresult"
  lf_key_file_load :: "byte list \<Rightarrow> keyfile gresult"
  lf_strstrip :: "string \<Rightarrow> string"
  lf_get_default_arch :: cstr
  lf_get_supported_arches :: "string list option"
  lf_get_system_installations :: "FlatpakInstallation list gresult"
  lf_instance_get_all :: "FlatpakInstance list option"
  lf_update_appstream_sync :: "string \<Rightarrow> cstr \<Rightarrow> unit gresult"
  lf_FLATPAK_ERROR :: nat
  lf_FLATPAK_ERROR_NOT_INSTALLED :: int

text \<open>
  The \<open>GError\<close> convention: a call that fails sets its error. The operations that read
  \<open>err->message\<close> without a check rest on it.
\<close>

definition sets_error :: "'a gresult \<Rightarrow> bool" where
  "sets_error r \<longleftrightarrow> r \<noteq> Inl None"

lemma sets_error_simps [simp]:
  "sets_error (Inr x)" "sets_error (Inl (Some e))" "\<not> sets_error (Inl None)"
  by (simp_all add: sets_error_def)

text \<open>\<open>err ? err->message : dflt\<close>.\<close>

definition err_or :: "GError option \<Rightarrow> string \<Rightarrow> string" where
  "err_or err dflt = (case err of None \<Rightarrow> dflt | Some e \<Rightarrow> g_message e)"

end
