(* ===== verification/Installations.thy ===== *)
theory Installations
  imports Bridge_Prelude
begin

text \<open>
  \<open>open_installation\<close>, which native/src/installation_reader.cpp, native/src/transaction_bridge.cpp
  and native/src/flatpak_bridge.cpp each define for themselves: the installation a name stands
  for, over libflatpak's three constructors.
\<close>

record 'i installations =
  new_user :: "'i option"
  new_system :: "'i option"
  new_for_path :: "cstr \<Rightarrow> 'i option"

definition open_installation :: "'i installations \<Rightarrow> cstr \<Rightarrow> 'i option" where
  "open_installation fs name =
     (if name = Some ''user'' then new_user fs
      else if name = Some ''system'' then new_system fs
      else new_for_path fs name)"

end
