(* ===== verification/Remote_Bridge.thy ===== *)
theory Remote_Bridge
  imports Reply_Stream Libflatpak Installations
begin

text \<open>
  native/src/user_remote_bridge.cpp: the write path for remotes. A \<open>FlatpakRemote\<close> object is
  the record of what its setters store; libflatpak's calls on an installation are parameters
  that pass the installation's state through. Every operation ends in one result frame, the
  contract \<open>single_reply\<close>; the system functions are the user functions on another handle.
\<close>

section \<open>Frames and configuration\<close>

definition post_ok :: "port \<Rightarrow> post" where
  "post_ok p = PostCopy p [0x01]"

definition apply_config :: "FlatpakRemote \<Rightarrow> RemoteConfig \<Rightarrow> FlatpakRemote" where
  "apply_config remote cfg =
     (let r = remote;
          r = (if c_url cfg \<noteq> '''' then r\<lparr>remote_url := Some (c_str (c_url cfg))\<rparr> else r);
          r = (if c_title cfg \<noteq> '''' then r\<lparr>remote_title := Some (c_str (c_title cfg))\<rparr> else r);
          r = (if c_comment cfg \<noteq> '''' then r\<lparr>remote_comment := Some (c_str (c_comment cfg))\<rparr> else r);
          r = (if c_homepage cfg \<noteq> '''' then r\<lparr>remote_homepage := Some (c_str (c_homepage cfg))\<rparr> else r);
          r = (if c_defaultBranch cfg \<noteq> ''''
               then r\<lparr>remote_default_branch := Some (c_str (c_defaultBranch cfg))\<rparr> else r);
          r = (if c_subset cfg \<noteq> '''' then r else r);
          r = (if c_collectionId cfg \<noteq> ''''
               then r\<lparr>remote_collection_id := Some (c_str (c_collectionId cfg))\<rparr> else r);
          r = (if c_filter cfg \<noteq> '''' then r\<lparr>remote_filter := Some (c_str (c_filter cfg))\<rparr> else r);
          r = (if c_gpgKeyData cfg \<noteq> [] then r\<lparr>remote_gpg_key := Some (c_gpgKeyData cfg)\<rparr> else r);
          r = (if 0 \<le>s c_gpgVerify cfg then r\<lparr>remote_gpg_verify := (c_gpgVerify cfg \<noteq> 0)\<rparr> else r);
          r = (if 0 \<le>s c_disabled cfg then r\<lparr>remote_disabled := (c_disabled cfg \<noteq> 0)\<rparr> else r);
          r = (if 0 \<le>s c_noDeps cfg then r\<lparr>remote_nodeps := (c_noDeps cfg \<noteq> 0)\<rparr> else r);
          r = (if 0 \<le>s c_priority cfg then r\<lparr>remote_prio := c_priority cfg\<rparr> else r)
      in r)"

text \<open>A buffer of which \<open>config_len\<close> bytes are read; a buffer that does not decode is ignored.\<close>

definition decode_config :: "allocator \<Rightarrow> region option \<Rightarrow> int \<Rightarrow> RemoteConfig" where
  "decode_config al buf len =
     (case buf of
        None \<Rightarrow> default_RemoteConfig
      | Some g \<Rightarrow>
          if len > 0
          then (case read_binary_into al (g\<lparr>rg_bytes := take (nat len) (rg_bytes g)\<rparr>) meta_RemoteConfig
                       (RemoteConfig_val default_RemoteConfig) of
                  (_, v) \<Rightarrow> (case RemoteConfig_of v of Some cfg \<Rightarrow> cfg | None \<Rightarrow> default_RemoteConfig))
          else default_RemoteConfig)"

section \<open>Operations\<close>

record 's remote_library =
  rl_remote_new :: "string \<Rightarrow> FlatpakRemote"
  rl_get_remote :: "string \<Rightarrow> 's \<Rightarrow> FlatpakRemote gresult"
  rl_add_remote :: "FlatpakRemote \<Rightarrow> bool \<Rightarrow> 's \<Rightarrow> unit gresult \<times> 's"
  rl_modify_remote :: "FlatpakRemote \<Rightarrow> 's \<Rightarrow> unit gresult \<times> 's"
  rl_remove_remote :: "string \<Rightarrow> 's \<Rightarrow> unit gresult \<times> 's"
  rl_update_remote :: "string \<Rightarrow> 's \<Rightarrow> unit gresult \<times> 's"
  rl_load_contents :: "string \<Rightarrow> byte list gresult"
  rl_key_file_load :: "byte list \<Rightarrow> keyfile gresult"
  rl_base64_decode :: "string \<Rightarrow> byte list option"

text \<open>\<open>ok ? post_ok (port) : post_error (port, err->message)\<close>.\<close>

definition post_result :: "port \<Rightarrow> 'a gresult \<Rightarrow> post list option" where
  "post_result p result =
     (case result of
        Inr _ \<Rightarrow> Some [post_ok p]
      | Inl None \<Rightarrow> None
      | Inl (Some e) \<Rightarrow> Some [post_error p (g_message e)])"

definition flatpak_user_remote_add ::
    "allocator \<Rightarrow> 's remote_library \<Rightarrow> string \<Rightarrow> region option \<Rightarrow> int \<Rightarrow> bool \<Rightarrow> port \<Rightarrow> 's \<Rightarrow>
     post list option \<times> 's" where
  "flatpak_user_remote_add al rl name config_buf config_len if_not_exists p s =
     (let cfg = decode_config al config_buf config_len;
          remote = apply_config (rl_remote_new rl name) cfg
      in case rl_add_remote rl remote if_not_exists s of
           (ok, s') \<Rightarrow> (post_result p ok, s'))"

definition keyfile_set ::
    "keyfile \<Rightarrow> string \<Rightarrow> (string \<Rightarrow> FlatpakRemote \<Rightarrow> FlatpakRemote) \<Rightarrow> FlatpakRemote \<Rightarrow> FlatpakRemote" where
  "keyfile_set kf key setter r =
     (case kf_get_string kf ''Flatpak Repo'' key of None \<Rightarrow> r | Some v \<Rightarrow> setter v r)"

definition apply_flatpakrepo :: "'s remote_library \<Rightarrow> keyfile \<Rightarrow> FlatpakRemote \<Rightarrow> FlatpakRemote" where
  "apply_flatpakrepo rl kf r =
     (let r = keyfile_set kf ''Url'' (\<lambda>v r. r\<lparr>remote_url := Some v\<rparr>) r;
          r = keyfile_set kf ''Title'' (\<lambda>v r. r\<lparr>remote_title := Some v\<rparr>) r;
          r = keyfile_set kf ''Comment'' (\<lambda>v r. r\<lparr>remote_comment := Some v\<rparr>) r;
          r = keyfile_set kf ''Description'' (\<lambda>v r. r\<lparr>remote_description := Some v\<rparr>) r;
          r = keyfile_set kf ''Homepage'' (\<lambda>v r. r\<lparr>remote_homepage := Some v\<rparr>) r;
          r = keyfile_set kf ''DefaultBranch'' (\<lambda>v r. r\<lparr>remote_default_branch := Some v\<rparr>) r
      in keyfile_set kf ''GPGKey''
           (\<lambda>v r. case rl_base64_decode rl v of
                    Some key \<Rightarrow> if key \<noteq> [] then r\<lparr>remote_gpg_key := Some key, remote_gpg_verify := True\<rparr> else r
                  | None \<Rightarrow> r) r)"

definition flatpak_user_remote_add_from_file ::
    "'s remote_library \<Rightarrow> string \<Rightarrow> string \<Rightarrow> bool \<Rightarrow> port \<Rightarrow> 's \<Rightarrow> post list option \<times> 's" where
  "flatpak_user_remote_add_from_file rl name flatpakrepo_path if_not_exists p s =
     (case rl_load_contents rl flatpakrepo_path of
        Inl err \<Rightarrow> (post_result p (Inl err :: unit gresult), s)
      | Inr contents \<Rightarrow>
          (case rl_key_file_load rl contents of
             Inl err \<Rightarrow> (post_result p (Inl err :: unit gresult), s)
           | Inr kf \<Rightarrow>
               (case rl_add_remote rl (apply_flatpakrepo rl kf (rl_remote_new rl name)) if_not_exists s of
                  (ok, s') \<Rightarrow> (post_result p ok, s'))))"

definition flatpak_user_remote_modify ::
    "allocator \<Rightarrow> 's remote_library \<Rightarrow> string \<Rightarrow> region option \<Rightarrow> int \<Rightarrow> port \<Rightarrow> 's \<Rightarrow> post list option \<times> 's" where
  "flatpak_user_remote_modify al rl name changes_buf changes_len p s =
     (let cfg = decode_config al changes_buf changes_len
      in case rl_get_remote rl name s of
           Inl err \<Rightarrow> (post_result p (Inl err :: unit gresult), s)
         | Inr remote \<Rightarrow>
             (case rl_modify_remote rl (apply_config remote cfg) s of
                (ok, s') \<Rightarrow> (post_result p ok, s')))"

definition flatpak_user_remote_remove ::
    "'s remote_library \<Rightarrow> string \<Rightarrow> bool \<Rightarrow> port \<Rightarrow> 's \<Rightarrow> post list option \<times> 's" where
  "flatpak_user_remote_remove rl name force p s =
     (let s = (if force
               then (case rl_get_remote rl name s of
                       Inl _ \<Rightarrow> s
                     | Inr remote \<Rightarrow> snd (rl_modify_remote rl (remote\<lparr>remote_disabled := True\<rparr>) s))
               else s)
      in case rl_remove_remote rl name s of
           (ok, s') \<Rightarrow> (post_result p ok, s'))"

definition flatpak_user_remote_update ::
    "'s remote_library \<Rightarrow> string \<Rightarrow> port \<Rightarrow> 's \<Rightarrow> post list option \<times> 's" where
  "flatpak_user_remote_update rl name p s =
     (case rl_update_remote rl name s of (ok, s') \<Rightarrow> (post_result p ok, s'))"

section \<open>Handles and exported calls\<close>

record 'i RemoteBridge =
  rb_port :: port
  rb_installation :: 'i

definition open_user_installation :: "'i installations \<Rightarrow> 'i option" where
  "open_user_installation fs = new_user fs"

definition open_system_installation :: "'i installations \<Rightarrow> 'i option" where
  "open_system_installation fs = new_system fs"

definition flatpak_user_remote_create :: "'i installations \<Rightarrow> port \<Rightarrow> 'i RemoteBridge option" where
  "flatpak_user_remote_create fs result_port =
     (case open_user_installation fs of
        None \<Rightarrow> None
      | Some inst \<Rightarrow> Some \<lparr>rb_port = result_port, rb_installation = inst\<rparr>)"

definition flatpak_system_remote_create :: "'i installations \<Rightarrow> port \<Rightarrow> 'i RemoteBridge option" where
  "flatpak_system_remote_create fs result_port =
     (case open_system_installation fs of
        None \<Rightarrow> None
      | Some inst \<Rightarrow> Some \<lparr>rb_port = result_port, rb_installation = inst\<rparr>)"

text \<open>Destroying a handle drops its reference to the installation; a NULL handle is dereferenced.\<close>

definition flatpak_user_remote_destroy :: "'i RemoteBridge option \<Rightarrow> 'i list option" where
  "flatpak_user_remote_destroy handle = map_option (\<lambda>b. [rb_installation b]) handle"

definition flatpak_system_remote_destroy :: "'i RemoteBridge option \<Rightarrow> 'i list option" where
  "flatpak_system_remote_destroy handle = map_option (\<lambda>b. [rb_installation b]) handle"

datatype remote_call =
    RemoteAdd string "region option" int bool
  | RemoteAddFromFile string string bool
  | RemoteModify string "region option" int
  | RemoteRemove string bool
  | RemoteUpdate string

fun remote_run ::
    "allocator \<Rightarrow> 's remote_library \<Rightarrow> remote_call \<Rightarrow> port \<Rightarrow> 's \<Rightarrow> post list option \<times> 's" where
  "remote_run al rl (RemoteAdd name buf len if_not_exists) p s =
     flatpak_user_remote_add al rl name buf len if_not_exists p s"
| "remote_run al rl (RemoteAddFromFile name path if_not_exists) p s =
     flatpak_user_remote_add_from_file rl name path if_not_exists p s"
| "remote_run al rl (RemoteModify name buf len) p s = flatpak_user_remote_modify al rl name buf len p s"
| "remote_run al rl (RemoteRemove name force) p s = flatpak_user_remote_remove rl name force p s"
| "remote_run al rl (RemoteUpdate name) p s = flatpak_user_remote_update rl name p s"

text \<open>
  The exported calls take a handle, which they dereference: the installation it holds decides
  what the library does. The system functions call the user functions.
\<close>

definition user_remote_run ::
    "allocator \<Rightarrow> ('i \<Rightarrow> 's remote_library) \<Rightarrow> remote_call \<Rightarrow> 'i RemoteBridge option \<Rightarrow> 's \<Rightarrow>
     post list option \<times> 's" where
  "user_remote_run al rl call handle s =
     (case handle of
        None \<Rightarrow> (None, s)
      | Some b \<Rightarrow> remote_run al (rl (rb_installation b)) call (rb_port b) s)"

definition system_remote_run ::
    "allocator \<Rightarrow> ('i \<Rightarrow> 's remote_library) \<Rightarrow> remote_call \<Rightarrow> 'i RemoteBridge option \<Rightarrow> 's \<Rightarrow>
     post list option \<times> 's" where
  "system_remote_run al rl call handle s = user_remote_run al rl call handle s"

section \<open>The contract\<close>

locale single_reply =
  fixes run :: "port \<Rightarrow> 's \<Rightarrow> post list option \<times> 's"
  assumes one_result: "run p s = (Some ps, s') \<Longrightarrow>
    ps = [PostCopy p [0x01]] \<or> (\<exists>msg. ps = [post_error p msg])"
begin

lemma one_frame: "run p s = (Some ps, s') \<Longrightarrow> length ps = 1 \<and> (\<forall>x \<in> set ps. post_port x = p)"
  using one_result by fastforce

end

lemma post_result_single:
  "post_result p r = Some ps \<Longrightarrow> ps = [PostCopy p [0x01]] \<or> (\<exists>msg. ps = [post_error p msg])"
  by (auto simp: post_result_def post_ok_def split: sum.splits option.splits)

lemmas remote_ops = flatpak_user_remote_add_def flatpak_user_remote_add_from_file_def
  flatpak_user_remote_modify_def flatpak_user_remote_remove_def flatpak_user_remote_update_def

lemma remote_run_single:
  "remote_run al rl call p s = (Some ps, s') \<Longrightarrow>
     ps = [PostCopy p [0x01]] \<or> (\<exists>msg. ps = [post_error p msg])"
  by (cases call)
    (auto simp: remote_ops Let_def split: sum.splits prod.splits dest: post_result_single)

interpretation remotes: single_reply "remote_run al rl call" for al rl call
  by unfold_locales (rule remote_run_single)

interpretation system_remotes: single_reply
    "\<lambda>p. system_remote_run al rl call (Some \<lparr>rb_port = p, rb_installation = inst\<rparr>)" for al rl call inst
  by unfold_locales (simp add: system_remote_run_def user_remote_run_def remote_run_single)

section \<open>Lemmas\<close>

text \<open>Every failing call of the library sets its error.\<close>

definition remote_errors_set :: "'s remote_library \<Rightarrow> bool" where
  "remote_errors_set rl \<longleftrightarrow>
     (\<forall>name s. sets_error (rl_get_remote rl name s)) \<and>
     (\<forall>r b s. sets_error (fst (rl_add_remote rl r b s))) \<and>
     (\<forall>r s. sets_error (fst (rl_modify_remote rl r s))) \<and>
     (\<forall>name s. sets_error (fst (rl_remove_remote rl name s))) \<and>
     (\<forall>name s. sets_error (fst (rl_update_remote rl name s))) \<and>
     (\<forall>path. sets_error (rl_load_contents rl path)) \<and>
     (\<forall>data. sets_error (rl_key_file_load rl data))"

lemma post_result_defined: "sets_error r \<Longrightarrow> \<exists>ps. post_result p r = Some ps"
  by (auto simp: post_result_def sets_error_def split: sum.splits option.splits)

lemma sets_error_case: "m = Inl e \<Longrightarrow> sets_error m \<Longrightarrow> sets_error (Inl e :: unit gresult)"
  by (auto simp: sets_error_def)

lemma fst_case_prod: "fst (case x of (ok, s') \<Rightarrow> (f ok, s')) = f (fst x)"
  by (simp add: case_prod_beta)

lemma remote_run_defined:
  assumes "remote_errors_set rl"
  shows "\<exists>ps. fst (remote_run al rl call p s) = Some ps"
  using assms
  by (cases call)
    (auto simp: remote_ops Let_def fst_case_prod remote_errors_set_def intro!: post_result_defined
      intro: sets_error_case split: sum.split)

lemma decode_config_wire:
  assumes "region_ok g" "rg_bytes g = write_binary (RemoteConfig_val cfg) @ junk" "fits_RemoteConfig al cfg"
    "len = int (length (write_binary (RemoteConfig_val cfg)))"
  shows "decode_config al (Some g) len = cfg"
proof -
  let ?g = "g\<lparr>rg_bytes := take (nat len) (rg_bytes g)\<rparr>"
  have bytes: "rg_bytes ?g = write_binary (RemoteConfig_val cfg) @ []" using assms(2,4) by simp
  have ok: "region_ok ?g" using assms(1,2,4) by (simp add: region_ok_def)
  have "parse_value al meta_RemoteConfig (rg_bytes ?g) = Some (RemoteConfig_val cfg, [])"
    using assms(3) bytes glaze.dec_enc [of al "RemoteConfig_val cfg" meta_RemoteConfig "[]"]
    by (simp add: write_binary_enc)
  then have "read_binary_into al ?g meta_RemoteConfig (RemoteConfig_val default_RemoteConfig) =
      (True, RemoteConfig_val cfg)"
    using read_binary_into_parse [OF ok] by simp
  moreover have "len > 0"
    by (simp add: assms(4) wire_simps RemoteConfig_val_def enc_string_def)
  ultimately show ?thesis by (simp add: decode_config_def)
qed

lemma decode_config_malformed:
  assumes "region_ok g" "parse_value al meta_RemoteConfig (take (nat len) (rg_bytes g)) = None"
  shows "decode_config al (Some g) len = default_RemoteConfig"
proof -
  let ?g = "g\<lparr>rg_bytes := take (nat len) (rg_bytes g)\<rparr>"
  have "region_ok ?g" using assms(1) by (simp add: region_ok_def)
  from read_binary_into_parse [OF this] assms(2)
  have "read_binary_into al ?g meta_RemoteConfig (RemoteConfig_val default_RemoteConfig) =
      (False, RemoteConfig_val default_RemoteConfig)" by simp
  then show ?thesis by (simp add: decode_config_def)
qed

lemma apply_default [simp]: "apply_config r default_RemoteConfig = r"
  by (simp add: apply_config_def default_RemoteConfig_def word_sle_eq)

text \<open>
  A forced removal disables the remote first, if it can be found, and ignores the outcome
  of that; the reply is that of the removal alone, made in the state the disabling left.
\<close>

lemma forced_removal_disables_first:
  assumes "rl_get_remote rl name s = Inr remote"
    "rl_modify_remote rl (remote\<lparr>remote_disabled := True\<rparr>) s = (ignored, s1)"
    "rl_remove_remote rl name s1 = (answer, s2)" "sets_error answer"
  shows "flatpak_user_remote_remove rl name True p s =
    (Some [case answer of Inr _ \<Rightarrow> PostCopy p [0x01] | Inl e \<Rightarrow> post_error p (g_message (the e))], s2)"
  using assms
  by (auto simp: flatpak_user_remote_remove_def post_result_def post_ok_def sets_error_def Let_def
      split: sum.splits option.splits)

section \<open>Properties\<close>

text \<open>
  C27. Every remote operation on a handle of the user or of the system installation posts
  exactly one frame, on the port the handle was created with: success, or an error message.
  If the installation could not be opened the handle is NULL, and every operation on it is
  undefined.
\<close>

theorem remote_calls_reply_once:
  assumes "\<forall>inst. remote_errors_set (rl inst)"
    "handle \<in> {flatpak_user_remote_create fs p, flatpak_system_remote_create fs p}"
    "run \<in> {user_remote_run, system_remote_run}"
  shows "case handle of
      None \<Rightarrow> fst (run al rl call handle s) = None
    | Some b \<Rightarrow> \<exists>x. fst (run al rl call handle s) = Some [x] \<and> post_port x = p \<and>
        (x = PostCopy p [0x01] \<or> (\<exists>msg. x = post_error p msg))"
proof (cases handle)
  case None
  with assms(3) show ?thesis by (auto simp: system_remote_run_def user_remote_run_def)
next
  case (Some b)
  then have b: "rb_port b = p"
    using assms(2) by (auto simp: flatpak_user_remote_create_def flatpak_system_remote_create_def
        split: option.splits)
  obtain ps s' where run: "remote_run al (rl (rb_installation b)) call p s = (Some ps, s')"
    using remote_run_defined assms(1) by (metis prod.collapse)
  then obtain x where "ps = [x]"
    using remotes.one_frame [OF run] by (auto simp: length_Suc_conv)
  moreover from this have "x = PostCopy p [0x01] \<or> (\<exists>msg. x = post_error p msg)"
    using remotes.one_result [OF run] by simp
  ultimately show ?thesis
    using run remotes.one_frame [OF run] assms(3) Some b
    by (auto simp: system_remote_run_def user_remote_run_def)
qed

definition example_remote :: FlatpakRemote where
  "example_remote =
     \<lparr>remote_name = Some ''hub'', remote_url = Some ''https://h'', remote_title = None,
      remote_comment = None, remote_description = None, remote_homepage = None,
      remote_default_branch = None, remote_collection_id = None, remote_filter = Some ''/f'',
      remote_gpg_key = None, remote_disabled = False, remote_gpg_verify = True, remote_nodeps = False,
      remote_prio = 1, remote_type = 0\<rparr>"

text \<open>One remote, under the name hub, is the installation's state; adding is refused.\<close>

definition example_remote_library :: "FlatpakRemote option remote_library" where
  "example_remote_library =
     \<lparr>rl_remote_new = (\<lambda>name. example_remote\<lparr>remote_name := Some name, remote_url := None\<rparr>),
      rl_get_remote = (\<lambda>name s. case s of Some r \<Rightarrow> Inr r | None \<Rightarrow> Inl (Some \<lparr>g_domain = 1, g_code = 1, g_message = ''no remote''\<rparr>)),
      rl_add_remote = (\<lambda>r b s. (Inl (Some \<lparr>g_domain = 1, g_code = 2, g_message = ''exists''\<rparr>), s)),
      rl_modify_remote = (\<lambda>r s. (Inr (), Some r)),
      rl_remove_remote = (\<lambda>name s. (Inr (), None)),
      rl_update_remote = (\<lambda>name s. (Inr (), s)),
      rl_load_contents = (\<lambda>path. Inr []),
      rl_key_file_load = (\<lambda>data. Inl (Some \<lparr>g_domain = 1, g_code = 3, g_message = ''bad''\<rparr>)),
      rl_base64_decode = (\<lambda>s. None)\<rparr>"

lemma example_remote_library_simps:
  "rl_get_remote example_remote_library name (Some r) = Inr r"
  "rl_modify_remote example_remote_library r s = (Inr (), Some r)"
  by (simp_all add: example_remote_library_def)

lemma example_remote_errors_set: "remote_errors_set example_remote_library"
  by (auto simp: remote_errors_set_def example_remote_library_def split: option.splits)

theorem remote_calls_reply_once_witness:
  "\<exists>x. fst (system_remote_run example_allocator (\<lambda>_ :: unit. example_remote_library) (RemoteUpdate ''hub'')
       (Some \<lparr>rb_port = 5, rb_installation = ()\<rparr>) None) = Some [x] \<and> post_port x = 5"
  using remote_calls_reply_once [of "\<lambda>_ :: unit. example_remote_library" "Some \<lparr>rb_port = 5, rb_installation = ()\<rparr>"
      "\<lparr>new_user = None, new_system = Some (), new_for_path = (\<lambda>_. None)\<rparr>" 5 system_remote_run
      example_allocator "RemoteUpdate ''hub''" None]
  by (auto simp: example_remote_errors_set flatpak_system_remote_create_def open_system_installation_def)

text \<open>
  Applying a configuration sets each member that is given, a non-empty string, a non-empty
  key or a number that is not negative (a string up to its first NUL), and leaves every other member of the remote as it is,
  in particular its name, description and type. The subset never reaches the remote.
\<close>

lemma apply_config_sets_given_members:
  "apply_config r cfg = r\<lparr>
     remote_url := (if c_url cfg = '''' then remote_url r else Some (c_str (c_url cfg))),
     remote_title := (if c_title cfg = '''' then remote_title r else Some (c_str (c_title cfg))),
     remote_comment := (if c_comment cfg = '''' then remote_comment r else Some (c_str (c_comment cfg))),
     remote_homepage := (if c_homepage cfg = '''' then remote_homepage r else Some (c_str (c_homepage cfg))),
     remote_default_branch := (if c_defaultBranch cfg = '''' then remote_default_branch r
                               else Some (c_str (c_defaultBranch cfg))),
     remote_collection_id := (if c_collectionId cfg = '''' then remote_collection_id r
                              else Some (c_str (c_collectionId cfg))),
     remote_filter := (if c_filter cfg = '''' then remote_filter r else Some (c_str (c_filter cfg))),
     remote_gpg_key := (if c_gpgKeyData cfg = [] then remote_gpg_key r else Some (c_gpgKeyData cfg)),
     remote_gpg_verify := (if sint (c_gpgVerify cfg) < 0 then remote_gpg_verify r else c_gpgVerify cfg \<noteq> 0),
     remote_disabled := (if sint (c_disabled cfg) < 0 then remote_disabled r else c_disabled cfg \<noteq> 0),
     remote_nodeps := (if sint (c_noDeps cfg) < 0 then remote_nodeps r else c_noDeps cfg \<noteq> 0),
     remote_prio := (if sint (c_priority cfg) < 0 then remote_prio r else c_priority cfg)\<rparr>"
  by (rule FlatpakRemote.equality) (simp_all add: apply_config_def Let_def word_sle_eq)

text \<open>
  C26. A configuration sent over the wire is what modify makes of the named remote: it decodes
  the buffer the Dart side wrote, whatever follows it in memory, and hands libflatpak that
  remote with each of the members below set to the sent value, a text up to its first NUL, if
  the text or key is not empty or the number not negative, and as it was otherwise. So an empty
  text clears nothing, and nothing is made of a subset. The reply is libflatpak's answer.
\<close>

theorem modify_applies_the_sent_config:
  assumes "region_ok g" "rg_bytes g = write_binary (RemoteConfig_val cfg) @ junk" "fits_RemoteConfig al cfg"
    "rl_get_remote rl name s = Inr remote"
    "changed = remote\<lparr>
       remote_url := (if c_url cfg = '''' then remote_url remote else Some (c_str (c_url cfg))),
       remote_title := (if c_title cfg = '''' then remote_title remote else Some (c_str (c_title cfg))),
       remote_comment := (if c_comment cfg = '''' then remote_comment remote else Some (c_str (c_comment cfg))),
       remote_homepage := (if c_homepage cfg = '''' then remote_homepage remote
                           else Some (c_str (c_homepage cfg))),
       remote_default_branch := (if c_defaultBranch cfg = '''' then remote_default_branch remote
                                 else Some (c_str (c_defaultBranch cfg))),
       remote_collection_id := (if c_collectionId cfg = '''' then remote_collection_id remote
                                else Some (c_str (c_collectionId cfg))),
       remote_filter := (if c_filter cfg = '''' then remote_filter remote else Some (c_str (c_filter cfg))),
       remote_gpg_key := (if c_gpgKeyData cfg = [] then remote_gpg_key remote else Some (c_gpgKeyData cfg)),
       remote_gpg_verify := (if sint (c_gpgVerify cfg) < 0 then remote_gpg_verify remote
                             else c_gpgVerify cfg \<noteq> 0),
       remote_disabled := (if sint (c_disabled cfg) < 0 then remote_disabled remote else c_disabled cfg \<noteq> 0),
       remote_nodeps := (if sint (c_noDeps cfg) < 0 then remote_nodeps remote else c_noDeps cfg \<noteq> 0),
       remote_prio := (if sint (c_priority cfg) < 0 then remote_prio remote else c_priority cfg)\<rparr>"
    "rl_modify_remote rl changed s = (answer, s')" "sets_error answer"
  shows "flatpak_user_remote_modify al rl name (Some g)
      (int (length (write_binary (RemoteConfig_val cfg)))) p s =
    (Some [case answer of Inr _ \<Rightarrow> PostCopy p [0x01] | Inl e \<Rightarrow> post_error p (g_message (the e))], s')"
proof -
  have "apply_config remote cfg = changed" unfolding assms(5) by (rule apply_config_sets_given_members)
  then show ?thesis
    using assms(4,6,7) decode_config_wire [OF assms(1-3) refl]
    by (auto simp: flatpak_user_remote_modify_def post_result_def post_ok_def sets_error_def Let_def
        split: sum.splits option.splits)
qed

definition example_config :: RemoteConfig where
  "example_config = default_RemoteConfig\<lparr>c_title := ''T'', c_subset := ''floss'', c_disabled := 1\<rparr>"

theorem modify_applies_the_sent_config_witness:
  "flatpak_user_remote_modify example_allocator example_remote_library ''hub''
     (Some \<lparr>rg_base = 4096, rg_bytes = write_binary (RemoteConfig_val example_config) @ [9]\<rparr>)
     (int (length (write_binary (RemoteConfig_val example_config)))) 5 (Some example_remote) =
   (Some [PostCopy 5 [0x01]], Some (example_remote\<lparr>remote_title := Some ''T'', remote_disabled := True\<rparr>))"
proof -
  have ok: "region_ok \<lparr>rg_base = 4096, rg_bytes = write_binary (RemoteConfig_val example_config) @ [9]\<rparr>"
    by (simp add: region_ok_def wire_simps RemoteConfig_val_def example_config_def
        default_RemoteConfig_def enc_string_def)
  have fits: "fits_RemoteConfig example_allocator example_config"
    by (simp add: fits_RemoteConfig_def str_fits_def vec_fits_def example_allocator_def
        example_config_def default_RemoteConfig_def)
  have sent: "rg_bytes \<lparr>rg_base = 4096, rg_bytes = write_binary (RemoteConfig_val example_config) @ [9]\<rparr> =
      write_binary (RemoteConfig_val example_config) @ [9]" by simp
  have "sets_error (Inr () :: unit gresult)" by (simp add: sets_error_def)
  from modify_applies_the_sent_config [OF ok sent fits example_remote_library_simps(1) refl
      example_remote_library_simps(2) this]
  show ?thesis by (simp add: example_config_def default_RemoteConfig_def c_str_def example_remote_def)
qed

text \<open>
  A configuration buffer that does not decode is not reported: modify then hands libflatpak
  the remote unchanged and posts success when that call succeeds.
\<close>

lemma malformed_config_reports_success:
  assumes "region_ok g" "parse_value al meta_RemoteConfig (take (nat len) (rg_bytes g)) = None"
    "rl_get_remote rl name s = Inr remote" "rl_modify_remote rl remote s = (Inr (), s')"
  shows "flatpak_user_remote_modify al rl name (Some g) len p s = (Some [PostCopy p [0x01]], s')"
  using assms(3,4) decode_config_malformed [OF assms(1,2)]
  by (simp add: flatpak_user_remote_modify_def post_result_def post_ok_def Let_def)

lemma malformed_config_reports_success_witness:
  "flatpak_user_remote_modify example_allocator example_remote_library ''hub''
     (Some \<lparr>rg_base = 4096, rg_bytes = [9, 9]\<rparr>) 2 5 (Some example_remote) =
   (Some [PostCopy 5 [0x01]], Some example_remote)"
  by (rule malformed_config_reports_success)
    (simp_all add: region_ok_def meta_RemoteConfig_def parse_string_def parse_u64_def take_bytes_def
      example_remote_library_def)

end
