(* ===== verification/Update_Monitor.thy ===== *)
theory Update_Monitor
  imports Reply_Stream Libflatpak Installations
begin

text \<open>
  The update monitor of native/src/flatpak_bridge.cpp: the handle with its last app count, the
  handler of the directory's "changed" signal, and the life of a handle from create to destroy.
  The listing libflatpak gives at each signal is a parameter; the signal is dispatched by the
  handle's own thread.
\<close>

section \<open>Counting and reporting\<close>

definition post_update_event :: "port \<Rightarrow> post" where
  "post_update_event p = PostCopy p [0x11]"

record MonitorHandle =
  mh_port :: port
  mh_file_monitor :: bool
  mh_signal_connected :: bool
  mh_thread :: bool
  mh_cancelled :: bool
  mh_last_app_count :: int

fun count_loop :: "FlatpakInstalledRef list \<Rightarrow> int \<Rightarrow> int" where
  "count_loop [] count = count"
| "count_loop (r # refs) count =
     count_loop refs (if ref_kind r = FLATPAK_REF_KIND_APP then count + 1 else count)"

definition count_installed_apps :: "FlatpakInstalledRef list gresult \<Rightarrow> int" where
  "count_installed_apps listing = (case listing of Inl _ \<Rightarrow> -1 | Inr refs \<Rightarrow> count_loop refs 0)"

definition on_file_changed ::
    "FlatpakInstalledRef list gresult \<Rightarrow> MonitorHandle \<Rightarrow> post list \<times> MonitorHandle" where
  "on_file_changed listing h =
     (let current = count_installed_apps listing
      in if current \<noteq> mh_last_app_count h
         then ([post_update_event (mh_port h)], h\<lparr>mh_last_app_count := current\<rparr>)
         else ([], h))"

section \<open>The life of a handle\<close>

definition flatpak_monitor_create ::
    "'i installations \<Rightarrow> ('i \<Rightarrow> FlatpakInstalledRef list gresult) \<Rightarrow> ('i \<Rightarrow> bool) \<Rightarrow> port \<Rightarrow> cstr \<Rightarrow>
     MonitorHandle option" where
  "flatpak_monitor_create fs listing monitor_ok event_port installation =
     (case open_installation fs installation of
        None \<Rightarrow> None
      | Some inst \<Rightarrow>
          Some \<lparr>mh_port = event_port, mh_file_monitor = monitor_ok inst,
                mh_signal_connected = monitor_ok inst, mh_thread = True, mh_cancelled = False,
                mh_last_app_count = count_installed_apps (listing inst)\<rparr>)"

text \<open>Close: quit the loop and join its thread, disconnect the handler, cancel the file monitor.\<close>

definition flatpak_monitor_close :: "MonitorHandle option \<Rightarrow> MonitorHandle option" where
  "flatpak_monitor_close handle =
     (case handle of
        None \<Rightarrow> None
      | Some h \<Rightarrow>
          (let h = (if mh_thread h then h\<lparr>mh_thread := False\<rparr> else h);
               h = (if mh_file_monitor h \<and> mh_signal_connected h
                    then h\<lparr>mh_signal_connected := False\<rparr> else h);
               h = (if mh_file_monitor h then h\<lparr>mh_cancelled := True\<rparr> else h)
           in Some h))"

text \<open>The references dropped by destroy: file monitor, loop, context, installation, handle.\<close>

datatype monitor_ref = RefFileMonitor | RefLoop | RefContext | RefInstallation | RefHandle

definition monitor_refs :: "MonitorHandle \<Rightarrow> monitor_ref list" where
  "monitor_refs h =
     (if mh_file_monitor h then [RefFileMonitor] else []) @ [RefLoop, RefContext, RefInstallation, RefHandle]"

definition flatpak_monitor_destroy :: "MonitorHandle option \<Rightarrow> monitor_ref list" where
  "flatpak_monitor_destroy handle =
     (case flatpak_monitor_close handle of None \<Rightarrow> [] | Some h \<Rightarrow> monitor_refs h)"

text \<open>A "changed" signal reaches the handler while the thread runs and the handler is connected.\<close>

definition dispatch_changed ::
    "FlatpakInstalledRef list gresult \<Rightarrow> MonitorHandle \<Rightarrow> post list \<times> MonitorHandle" where
  "dispatch_changed listing h =
     (if mh_thread h \<and> mh_signal_connected h then on_file_changed listing h else ([], h))"

fun run_changes ::
    "FlatpakInstalledRef list gresult list \<Rightarrow> MonitorHandle \<Rightarrow> post list \<times> MonitorHandle" where
  "run_changes [] h = ([], h)"
| "run_changes (listing # listings) h =
     (case dispatch_changed listing h of
        (posts, h') \<Rightarrow> (case run_changes listings h' of (posts', h'') \<Rightarrow> (posts @ posts', h'')))"

section \<open>Lemmas\<close>

lemma count_loop_eq:
  "count_loop refs n = n + int (length (filter (\<lambda>r. ref_kind r = FLATPAK_REF_KIND_APP) refs))"
  by (induction refs arbitrary: n) auto

lemma run_changes_connected:
  assumes "mh_thread h" "mh_signal_connected h"
  shows "fst (run_changes listings h) =
    replicate (length (filter (\<lambda>(before, now). before \<noteq> now)
      (zip (mh_last_app_count h # map count_installed_apps listings) (map count_installed_apps listings))))
      (post_update_event (mh_port h))"
  using assms
proof (induction listings arbitrary: h)
  case (Cons l ls)
  show ?case
  proof (cases "count_installed_apps l = mh_last_app_count h")
    case True
    with Cons show ?thesis
      by (simp add: dispatch_changed_def on_file_changed_def case_prod_beta)
  next
    case False
    with Cons.prems Cons.IH [of "h\<lparr>mh_last_app_count := count_installed_apps l\<rparr>"] show ?thesis
      by (auto simp: dispatch_changed_def on_file_changed_def case_prod_beta)
  qed
qed simp

lemma run_changes_closed: "\<not> mh_thread h \<Longrightarrow> run_changes listings h = ([], h)"
  by (induction listings) (simp_all add: dispatch_changed_def)

lemma run_changes_disconnected: "\<not> mh_signal_connected h \<Longrightarrow> run_changes listings h = ([], h)"
  by (induction listings) (simp_all add: dispatch_changed_def)

text \<open>
  Closing a monitor ends its events for good, closing it again or closing none changes
  nothing, and destroy after close drops each reference the handle owns exactly once.
\<close>

lemma monitor_close_is_final:
  assumes "flatpak_monitor_create fs listing monitor_ok p name = Some h"
  shows "\<exists>closed. flatpak_monitor_close (Some h) = Some closed \<and>
    run_changes listings closed = ([], closed) \<and>
    flatpak_monitor_close (Some closed) = Some closed \<and> flatpak_monitor_close None = None \<and>
    flatpak_monitor_destroy (Some closed) = flatpak_monitor_destroy (Some h) \<and>
    distinct (flatpak_monitor_destroy (Some h)) \<and>
    set (flatpak_monitor_destroy (Some h)) =
      {RefLoop, RefContext, RefInstallation, RefHandle} \<union> (if mh_file_monitor h then {RefFileMonitor} else {})"
proof -
  have "mh_thread h" "mh_signal_connected h = mh_file_monitor h"
    using assms by (auto simp: flatpak_monitor_create_def split: option.splits)
  then show ?thesis
    by (auto simp: flatpak_monitor_close_def flatpak_monitor_destroy_def monitor_refs_def Let_def
        run_changes_closed)
qed

section \<open>Properties\<close>

text \<open>
  C37. A monitor that could be set up posts one 0x11 event for each signal at which the number
  of installed apps differs from the number at the signal before, the first compared with the
  number at creation, and none otherwise (an unreadable installation counts as -1 apps); one
  that could not posts nothing; and once closed, no later signal posts anything.
\<close>

theorem monitor_reports_count_changes:
  assumes "flatpak_monitor_create fs listing monitor_ok p name = Some h"
    "open_installation fs name = Some inst"
  shows "fst (run_changes listings h) =
      (let count = (\<lambda>l. case l of
             Inl _ \<Rightarrow> -1
           | Inr refs \<Rightarrow> int (length (filter (\<lambda>r. ref_kind r = FLATPAK_REF_KIND_APP) refs)));
           counts = map count (listings :: FlatpakInstalledRef list gresult list)
       in if monitor_ok inst
          then replicate (length (filter (\<lambda>(before, now). before \<noteq> now)
                 (zip (count (listing inst) # counts) counts))) (PostCopy p [0x11])
          else []) \<and>
    (\<exists>closed. flatpak_monitor_close (Some (snd (run_changes listings h))) = Some closed \<and>
       fst (run_changes later closed) = [])"
proof -
  have count: "count_installed_apps = (\<lambda>l. case l of
          Inl _ \<Rightarrow> -1
        | Inr refs \<Rightarrow> int (length (filter (\<lambda>r. ref_kind r = FLATPAK_REF_KIND_APP) refs)))"
    by (auto simp: count_installed_apps_def count_loop_eq fun_eq_iff split: sum.splits)
  have h: "mh_thread h" "mh_port h = p" "mh_signal_connected h = monitor_ok inst"
    "mh_last_app_count h = count_installed_apps (listing inst)"
    using assms by (auto simp: flatpak_monitor_create_def)
  have "fst (run_changes listings h) = []" if "\<not> monitor_ok inst"
    using that h run_changes_disconnected by simp
  moreover have "\<exists>closed. flatpak_monitor_close (Some h') = Some closed \<and> fst (run_changes later closed) = []" for h'
    by (simp add: flatpak_monitor_close_def Let_def run_changes_closed)
  ultimately show ?thesis
    using run_changes_connected [of h listings] h
    by (simp add: post_update_event_def Let_def count)
qed

theorem monitor_reports_count_changes_witness:
  "\<exists>h closed. flatpak_monitor_create \<lparr>new_user = Some (), new_system = None, new_for_path = (\<lambda>_. None)\<rparr>
      (\<lambda>_. Inr []) (\<lambda>_. True) 5 (Some ''user'') = Some h \<and>
    fst (run_changes [Inl None, Inl None, Inr []] h) = [PostCopy 5 [0x11], PostCopy 5 [0x11]] \<and>
    flatpak_monitor_close (Some (snd (run_changes [Inl None, Inl None, Inr []] h))) = Some closed \<and>
    fst (run_changes [Inl None] closed) = []"
proof -
  let ?fs = "\<lparr>new_user = Some (), new_system = None, new_for_path = (\<lambda>_. None)\<rparr>"
  obtain h where h: "flatpak_monitor_create ?fs (\<lambda>_. Inr []) (\<lambda>_. True) 5 (Some ''user'') = Some h"
    by (simp add: flatpak_monitor_create_def open_installation_def)
  moreover have "open_installation ?fs (Some ''user'') = Some ()" by (simp add: open_installation_def)
  ultimately show ?thesis
    using monitor_reports_count_changes [OF h, of "()" "[Inl None, Inl None, Inr []]" "[Inl None]"]
    by (auto simp: Let_def numeral_2_eq_2)
qed

end
