(* ===== verification/Monitor_Loop.thy ===== *)
theory Monitor_Loop
  imports Update_Monitor
begin

text \<open>
  The thread of an update monitor and the call that closes it, in native/src/flatpak_bridge.cpp:
  \<open>monitor_thread_func\<close> runs the handle's main loop, \<open>flatpak_monitor_close\<close> quits the loop and
  joins the thread. GLib's loop is its running flag: \<open>g_main_loop_run\<close> sets it and iterates while
  it is set, \<open>g_main_loop_quit\<close> clears it. Whether a quit that comes before the run is remembered
  is a parameter, since GLib's documentation leaves it open; GLib's code does not remember it.
\<close>

section \<open>The thread and the closing call\<close>

datatype loop_thread = ThreadStarting | ThreadLooping | ThreadReturned

datatype close_call = CloseIdle | CloseJoining | CloseDone

record monitor_sys =
  ms_handle :: MonitorHandle
  ms_thread :: loop_thread
  ms_running :: bool
  ms_close :: close_call
  ms_posted :: "post list"

definition monitor_started :: "MonitorHandle \<Rightarrow> monitor_sys" where
  "monitor_started h =
     \<lparr>ms_handle = h, ms_thread = ThreadStarting, ms_running = False, ms_close = CloseIdle, ms_posted = []\<rparr>"

text \<open>\<open>g_main_loop_run\<close>: entering the loop, one iteration, and leaving it.\<close>

definition loop_enter :: "bool \<Rightarrow> monitor_sys \<Rightarrow> monitor_sys option" where
  "loop_enter remembers s =
     (if ms_thread s = ThreadStarting
      then Some (s\<lparr>ms_thread := ThreadLooping, ms_running := \<not> (remembers \<and> ms_close s \<noteq> CloseIdle)\<rparr>)
      else None)"

definition loop_iterate :: "FlatpakInstalledRef list gresult \<Rightarrow> monitor_sys \<Rightarrow> monitor_sys option" where
  "loop_iterate listing s =
     (if ms_thread s = ThreadLooping \<and> ms_running s
      then (case dispatch_changed listing (ms_handle s) of
              (posts, h) \<Rightarrow> Some (s\<lparr>ms_handle := h, ms_posted := ms_posted s @ posts\<rparr>))
      else None)"

definition loop_leave :: "monitor_sys \<Rightarrow> monitor_sys option" where
  "loop_leave s =
     (if ms_thread s = ThreadLooping \<and> \<not> ms_running s then Some (s\<lparr>ms_thread := ThreadReturned\<rparr>) else None)"

text \<open>\<open>flatpak_monitor_close\<close>: \<open>g_main_loop_quit\<close>, then the join and the rest of the call.\<close>

definition close_quit :: "monitor_sys \<Rightarrow> monitor_sys option" where
  "close_quit s =
     (if ms_close s = CloseIdle then Some (s\<lparr>ms_running := False, ms_close := CloseJoining\<rparr>) else None)"

definition close_join :: "monitor_sys \<Rightarrow> monitor_sys option" where
  "close_join s =
     (if ms_close s = CloseJoining \<and> ms_thread s = ThreadReturned
      then (case flatpak_monitor_close (Some (ms_handle s)) of
              None \<Rightarrow> None
            | Some h \<Rightarrow> Some (s\<lparr>ms_handle := h, ms_close := CloseDone\<rparr>))
      else None)"

inductive monitor_step :: "bool \<Rightarrow> monitor_sys \<Rightarrow> monitor_sys \<Rightarrow> bool" for remembers where
  enter: "loop_enter remembers s = Some s' \<Longrightarrow> monitor_step remembers s s'"
| iterate: "loop_iterate listing s = Some s' \<Longrightarrow> monitor_step remembers s s'"
| leave: "loop_leave s = Some s' \<Longrightarrow> monitor_step remembers s s'"
| quit: "close_quit s = Some s' \<Longrightarrow> monitor_step remembers s s'"
| join: "close_join s = Some s' \<Longrightarrow> monitor_step remembers s s'"

inductive_cases monitor_stepE: "monitor_step remembers s s'"

lemmas monitor_ops = loop_enter_def loop_iterate_def loop_leave_def close_quit_def close_join_def

section \<open>What the steps keep\<close>

text \<open>The close call is over only when the thread is; a thread that starts loops only later.\<close>

definition monitor_inv :: "monitor_sys \<Rightarrow> bool" where
  "monitor_inv s \<longleftrightarrow>
     (ms_thread s = ThreadReturned \<longrightarrow> ms_close s \<noteq> CloseIdle) \<and>
     (ms_close s = CloseDone \<longrightarrow> ms_thread s = ThreadReturned) \<and>
     (ms_close s = CloseIdle \<longrightarrow> ms_thread s = ThreadLooping \<longrightarrow> ms_running s) \<and>
     (ms_thread s = ThreadStarting \<longrightarrow> ms_posted s = [])"

lemma monitor_step_inv: "monitor_step remembers s s' \<Longrightarrow> monitor_inv s \<Longrightarrow> monitor_inv s'"
  by (elim monitor_stepE) (auto simp: monitor_ops monitor_inv_def split: if_splits prod.splits option.splits)

lemma monitor_run_inv: "(monitor_step remembers)\<^sup>*\<^sup>* (monitor_started h) s \<Longrightarrow> monitor_inv s"
  by (induction rule: rtranclp_induct) (auto simp: monitor_inv_def monitor_started_def dest: monitor_step_inv)

text \<open>A quit that was lost: the loop runs although a close call waits for its end.\<close>

definition quit_lost :: "monitor_sys \<Rightarrow> bool" where
  "quit_lost s \<longleftrightarrow> ms_close s = CloseJoining \<and> ms_thread s = ThreadLooping \<and> ms_running s"

lemma quit_lost_step: "monitor_step remembers s s' \<Longrightarrow> quit_lost s \<Longrightarrow> quit_lost s'"
  by (elim monitor_stepE) (auto simp: monitor_ops quit_lost_def split: if_splits prod.splits option.splits)

lemma quit_lost_for_ever: "(monitor_step remembers)\<^sup>*\<^sup>* s s' \<Longrightarrow> quit_lost s \<Longrightarrow> quit_lost s'"
  by (induction rule: rtranclp_induct) (auto dest: quit_lost_step)

text \<open>A quit is lost only when it came before the loop was entered and is not remembered.\<close>

lemma not_lost_step:
  "monitor_step remembers s s' \<Longrightarrow> ms_thread s \<noteq> ThreadStarting \<or> remembers \<Longrightarrow> monitor_inv s \<Longrightarrow>
     \<not> quit_lost s \<Longrightarrow> \<not> quit_lost s'"
  by (elim monitor_stepE)
    (auto simp: monitor_ops quit_lost_def monitor_inv_def split: if_splits prod.splits option.splits)

lemma thread_stays: "monitor_step remembers s s' \<Longrightarrow> ms_thread s \<noteq> ThreadStarting \<Longrightarrow> ms_thread s' \<noteq> ThreadStarting"
  by (elim monitor_stepE) (auto simp: monitor_ops split: if_splits prod.splits option.splits)

lemma not_lost_run:
  assumes "(monitor_step remembers)\<^sup>*\<^sup>* s s'" "ms_thread s \<noteq> ThreadStarting \<or> remembers" "monitor_inv s"
    "\<not> quit_lost s"
  shows "\<not> quit_lost s' \<and> monitor_inv s' \<and> (ms_thread s' \<noteq> ThreadStarting \<or> remembers)"
  using assms
  by (induction rule: rtranclp_induct) (blast dest: not_lost_step monitor_step_inv thread_stays)+

text \<open>A close call that waits without a lost quit is let through by the thread's next steps.\<close>

lemma close_returns:
  assumes "ms_close s = CloseJoining" "\<not> quit_lost s" "ms_thread s \<noteq> ThreadStarting \<or> remembers"
  shows "\<exists>n s'. n \<le> 3 \<and> (monitor_step remembers ^^ n) s s' \<and> ms_close s' = CloseDone"
proof -
  obtain h where closed: "flatpak_monitor_close (Some (ms_handle s)) = Some h"
    by (auto simp: flatpak_monitor_close_def Let_def)
  have join: "\<exists>s'. monitor_step remembers t s' \<and> ms_close s' = CloseDone"
    if "ms_thread t = ThreadReturned" "ms_close t = CloseJoining" "ms_handle t = ms_handle s" for t
  proof -
    have "close_join t = Some (t\<lparr>ms_handle := h, ms_close := CloseDone\<rparr>)"
      using that closed by (simp add: close_join_def)
    from monitor_step.join [OF this] show ?thesis by force
  qed
  have leave: "\<exists>u s'. monitor_step remembers t u \<and> monitor_step remembers u s' \<and> ms_close s' = CloseDone"
    if "ms_thread t = ThreadLooping" "\<not> ms_running t" "ms_close t = CloseJoining" "ms_handle t = ms_handle s" for t
  proof -
    have "loop_leave t = Some (t\<lparr>ms_thread := ThreadReturned\<rparr>)" using that by (simp add: loop_leave_def)
    from monitor_step.leave [OF this] join [of "t\<lparr>ms_thread := ThreadReturned\<rparr>"] that show ?thesis by force
  qed
  show ?thesis
  proof (cases "ms_thread s")
    case ThreadReturned
    with join [of s] assms(1) show ?thesis
      by (intro exI [of _ "Suc 0"]) (auto intro: relpowp_Suc_I relpowp_0_I simp del: relpowp.simps)
  next
    case ThreadLooping
    with leave [of s] assms(1,2) show ?thesis
      by (intro exI [of _ "Suc (Suc 0)"])
        (auto simp: quit_lost_def simp del: relpowp.simps intro: relpowp_Suc_I relpowp_0_I)
  next
    case ThreadStarting
    have "loop_enter remembers s = Some (s\<lparr>ms_thread := ThreadLooping, ms_running := False\<rparr>)"
      using ThreadStarting assms by (auto simp: loop_enter_def)
    note entered = monitor_step.enter [OF this]
    obtain u s' where "monitor_step remembers (s\<lparr>ms_thread := ThreadLooping, ms_running := False\<rparr>) u"
      "monitor_step remembers u s'" "ms_close s' = CloseDone"
      using leave [of "s\<lparr>ms_thread := ThreadLooping, ms_running := False\<rparr>"] assms(1) by auto
    then have "(monitor_step remembers ^^ Suc (Suc (Suc 0))) s s'" "ms_close s' = CloseDone"
      using entered by (blast intro: relpowp_Suc_I relpowp_0_I)+
    then show ?thesis by (intro exI [of _ "Suc (Suc (Suc 0))"]) auto
  qed
qed

lemma close_requested:
  "(monitor_step remembers)\<^sup>*\<^sup>* s s' \<Longrightarrow> ms_close s \<noteq> CloseIdle \<Longrightarrow> ms_close s' \<noteq> CloseIdle"
proof (induction rule: rtranclp_induct)
  case (step t s')
  then show ?case
    by (elim monitor_stepE) (auto simp: monitor_ops split: if_splits prod.splits option.splits)
qed simp

lemma run_keeps_inv: "(monitor_step remembers)\<^sup>*\<^sup>* s s' \<Longrightarrow> monitor_inv s \<Longrightarrow> monitor_inv s'"
  by (induction rule: rtranclp_induct) (auto dest: monitor_step_inv)

text \<open>After the close call has returned nothing is posted.\<close>

lemma closed_posts_nothing:
  "(monitor_step remembers)\<^sup>*\<^sup>* s s' \<Longrightarrow> ms_close s = CloseDone \<Longrightarrow> monitor_inv s \<Longrightarrow>
     ms_close s' = CloseDone \<and> monitor_inv s' \<and> ms_posted s' = ms_posted s"
proof (induction rule: rtranclp_induct)
  case (step t s')
  then have t: "ms_close t = CloseDone" "monitor_inv t" "ms_posted t = ms_posted s" by blast+
  then have "ms_thread t = ThreadReturned" by (simp add: monitor_inv_def)
  with t step.hyps(2) have "ms_close s' = CloseDone \<and> ms_posted s' = ms_posted t"
    by (elim monitor_stepE) (auto simp: monitor_ops split: if_splits)
  with t step.hyps(2) show ?case by (auto dest: monitor_step_inv)
qed simp

section \<open>Properties\<close>

text \<open>
  C36. A close call that finds the monitor's thread in its loop, or any at all if the loop
  remembers a quit that comes early, can always return within three steps, whatever signals
  are handled meanwhile, and nothing is posted after it. But a close call that comes before
  the thread has entered a loop that does not remember it may wait for ever, with the monitor
  still posting: no step of any thread lets it return.
\<close>

theorem monitor_close_returns:
  assumes "(monitor_step remembers)\<^sup>*\<^sup>* (monitor_started h) s" "close_quit s = Some s1"
    "(monitor_step remembers)\<^sup>*\<^sup>* s1 s2"
  shows "(ms_thread s \<noteq> ThreadStarting \<or> remembers \<longrightarrow>
      (ms_close s2 = CloseDone \<or>
       (\<exists>n s3. n \<le> 3 \<and> (monitor_step remembers ^^ n) s2 s3 \<and> ms_close s3 = CloseDone))) \<and>
    (ms_close s2 = CloseDone \<longrightarrow>
      (\<forall>s3. (monitor_step remembers)\<^sup>*\<^sup>* s2 s3 \<longrightarrow> ms_posted s3 = ms_posted s2)) \<and>
    (\<not> remembers \<longrightarrow> ms_thread s = ThreadStarting \<longrightarrow> loop_enter remembers s1 = Some s2 \<longrightarrow>
      (\<forall>s3. (monitor_step remembers)\<^sup>*\<^sup>* s2 s3 \<longrightarrow> ms_close s3 = CloseJoining))"
proof -
  have s: "monitor_inv s" using assms(1) by (rule monitor_run_inv)
  have s1: "monitor_inv s1" "\<not> quit_lost s1" "ms_close s1 = CloseJoining" "ms_thread s1 = ms_thread s"
    using monitor_step_inv [OF monitor_step.quit [OF assms(2)] s] assms(2)
    by (auto simp: close_quit_def quit_lost_def split: if_splits)
  have "ms_close s2 = CloseDone \<or> (\<exists>n s3. n \<le> 3 \<and> (monitor_step remembers ^^ n) s2 s3 \<and> ms_close s3 = CloseDone)"
    if "ms_thread s \<noteq> ThreadStarting \<or> remembers"
  proof -
    have "\<not> quit_lost s2 \<and> monitor_inv s2 \<and> (ms_thread s2 \<noteq> ThreadStarting \<or> remembers)"
      using not_lost_run [OF assms(3) _ s1(1,2)] that s1(4) by simp
    moreover have "ms_close s2 \<noteq> CloseIdle" using close_requested [OF assms(3)] s1(3) by simp
    ultimately show ?thesis using close_returns [of s2 remembers] by (cases "ms_close s2") auto
  qed
  moreover have "ms_posted s3 = ms_posted s2"
    if "ms_close s2 = CloseDone" "(monitor_step remembers)\<^sup>*\<^sup>* s2 s3" for s3
    using closed_posts_nothing [OF that(2,1)] run_keeps_inv [OF assms(3) s1(1)] by blast
  moreover have "ms_close s3 = CloseJoining"
    if "\<not> remembers" "loop_enter remembers s1 = Some s2" "(monitor_step remembers)\<^sup>*\<^sup>* s2 s3" for s3
  proof -
    have "quit_lost s2" using that(1,2) s1(3) by (auto simp: loop_enter_def quit_lost_def split: if_splits)
    from quit_lost_for_ever [OF that(3) this] show ?thesis by (simp add: quit_lost_def)
  qed
  ultimately show ?thesis by blast
qed

theorem monitor_close_returns_witness:
  "\<exists>h s1 s2. flatpak_monitor_create \<lparr>new_user = Some (), new_system = None, new_for_path = (\<lambda>_. None)\<rparr>
      (\<lambda>_. Inr []) (\<lambda>_. True) 5 (Some ''user'') = Some h \<and>
    close_quit (monitor_started h) = Some s1 \<and> loop_enter False s1 = Some s2 \<and>
    (monitor_step False)\<^sup>*\<^sup>* s2 (s2\<lparr>ms_posted := ms_posted s2 @ [PostCopy 5 [0x11]], ms_handle := (ms_handle s2)\<lparr>mh_last_app_count := -1\<rparr>\<rparr>) \<and>
    ms_close (s2\<lparr>ms_posted := ms_posted s2 @ [PostCopy 5 [0x11]], ms_handle := (ms_handle s2)\<lparr>mh_last_app_count := -1\<rparr>\<rparr>) = CloseJoining"
proof -
  let ?fs = "\<lparr>new_user = Some (), new_system = None, new_for_path = (\<lambda>_. None)\<rparr>"
  obtain h where h: "flatpak_monitor_create ?fs (\<lambda>_. Inr []) (\<lambda>_. True) 5 (Some ''user'') = Some h"
    "mh_last_app_count h = 0" "mh_port h = 5" "mh_thread h" "mh_signal_connected h"
    by (simp add: flatpak_monitor_create_def open_installation_def count_installed_apps_def)
  let ?s1 = "(monitor_started h)\<lparr>ms_running := False, ms_close := CloseJoining\<rparr>"
  let ?s2 = "?s1\<lparr>ms_thread := ThreadLooping, ms_running := True\<rparr>"
  let ?s3 = "?s2\<lparr>ms_posted := ms_posted ?s2 @ [PostCopy 5 [0x11]], ms_handle := (ms_handle ?s2)\<lparr>mh_last_app_count := -1\<rparr>\<rparr>"
  have q: "close_quit (monitor_started h) = Some ?s1" by (simp add: close_quit_def monitor_started_def)
  have e: "loop_enter False ?s1 = Some ?s2" by (simp add: loop_enter_def monitor_started_def)
  have "loop_iterate (Inl None) ?s2 = Some ?s3"
    using h(2-5) by (simp add: loop_iterate_def dispatch_changed_def on_file_changed_def
        count_installed_apps_def post_update_event_def monitor_started_def)
  then have run: "(monitor_step False)\<^sup>*\<^sup>* ?s2 ?s3" by (blast intro: monitor_step.iterate)
  have "(monitor_step False)\<^sup>*\<^sup>* ?s1 ?s2" using e by (blast intro: monitor_step.enter)
  from monitor_close_returns [OF rtranclp.rtrancl_refl q this] e run
  have "ms_close ?s3 = CloseJoining" by (simp only: monitor_started_def) simp
  with h(1) q e run show ?thesis by blast
qed

end
