(* ===== verification/Work_Queue.thy ===== *)
theory Work_Queue
  imports Bridge_Prelude
begin

text \<open>
  native/include/serial_queue.h, and the contract every background worker of the bridge is
  measured against. A worker is a state machine: the operations other threads call on it
  and the steps of its own thread, each one critical section of the code, interleave in any
  order. \<open>serial_worker\<close> is the accounting every worker keeps (what was accepted is, in
  order, what was answered, what is in hand and what is queued); \<open>draining_worker\<close> adds
  the shutdown contract.
\<close>

section \<open>The contract of a worker\<close>

locale serial_worker =
  fixes init :: "'s \<Rightarrow> bool"
    and step :: "'s \<Rightarrow> 's \<Rightarrow> bool"
    and accepted :: "'s \<Rightarrow> 'a list"
    and answered :: "'s \<Rightarrow> 'a list"
    and in_hand :: "'s \<Rightarrow> 'a list"
    and waiting :: "'s \<Rightarrow> 'a list"
  assumes init_accounts: "init s \<Longrightarrow> accepted s = answered s @ in_hand s @ waiting s"
    and step_accounts: "step s t \<Longrightarrow> accepted s = answered s @ in_hand s @ waiting s \<Longrightarrow>
      accepted t = answered t @ in_hand t @ waiting t"
begin

lemma run_accounts:
  assumes "init s" "step\<^sup>*\<^sup>* s t"
  shows "accepted t = answered t @ in_hand t @ waiting t"
  using assms(2)
proof (induction rule: rtranclp_induct)
  case base
  show ?case by (rule init_accounts [OF assms(1)])
next
  case (step t u)
  then show ?case by (blast intro: step_accounts)
qed

lemma answered_is_prefix:
  "init s \<Longrightarrow> step\<^sup>*\<^sup>* s t \<Longrightarrow> \<exists>rest. accepted t = answered t @ rest"
  using run_accounts by blast

lemma answered_at_most_once:
  "init s \<Longrightarrow> step\<^sup>*\<^sup>* s t \<Longrightarrow> distinct (accepted t) \<Longrightarrow> distinct (answered t)"
  using answered_is_prefix by fastforce

end

text \<open>
  A worker that keeps the shutdown contract: once stopped it cannot take anything more on,
  its own steps alone bring it to its end, and at its end nothing is left in hand or queued.
\<close>

locale draining_worker = serial_worker init step accepted answered in_hand waiting
  for init step accepted answered in_hand waiting +
  fixes own_step :: "'s \<Rightarrow> 's option"
    and stopped :: "'s \<Rightarrow> bool"
    and finished :: "'s \<Rightarrow> bool"
    and distance :: "'s \<Rightarrow> nat"
    and inv :: "'s \<Rightarrow> bool"
  assumes own_is_step: "own_step s = Some t \<Longrightarrow> step s t"
    and init_inv: "init s \<Longrightarrow> inv s"
    and step_inv: "step s t \<Longrightarrow> inv s \<Longrightarrow> inv t"
    and step_stopped: "step s t \<Longrightarrow> stopped s \<Longrightarrow> stopped t"
    and finished_empty: "inv s \<Longrightarrow> finished s \<Longrightarrow> in_hand s = [] \<and> waiting s = []"
    and own_progress: "inv s \<Longrightarrow> stopped s \<Longrightarrow> \<not> finished s \<Longrightarrow>
      \<exists>t. own_step s = Some t \<and> distance t < distance s"
begin

lemma run_inv: "init s \<Longrightarrow> step\<^sup>*\<^sup>* s t \<Longrightarrow> inv t"
  by (rotate_tac, induction rule: rtranclp_induct) (auto intro: init_inv step_inv)

lemma finished_answered_all:
  assumes "init s" "step\<^sup>*\<^sup>* s t" "finished t"
  shows "answered t = accepted t"
  using run_accounts [OF assms(1,2)] finished_empty [OF run_inv [OF assms(1,2)] assms(3)] by simp

text \<open>From any stopped state the worker's own steps reach its end, in a bounded number.\<close>

lemma stopped_terminates:
  assumes "inv s" "stopped s"
  shows "\<exists>n t. n \<le> distance s \<and> ((\<lambda>s t. own_step s = Some t) ^^ n) s t \<and> finished t"
  using assms
proof (induction "distance s" arbitrary: s rule: less_induct)
  case less
  show ?case
  proof (cases "finished s")
    case True
    then show ?thesis by (intro exI [of _ 0] exI [of _ s]) simp
  next
    case False
    then obtain t where t: "own_step s = Some t" "distance t < distance s"
      using own_progress less.prems by blast
    have "inv t" "stopped t"
      using t(1) less.prems own_is_step step_inv step_stopped by blast+
    with less.hyps [OF t(2)] obtain n u where
      u: "n \<le> distance t" "((\<lambda>s t. own_step s = Some t) ^^ n) t u" "finished u"
      by blast
    from t(1) u(2) have "((\<lambda>s t. own_step s = Some t) ^^ Suc n) s u"
      by (intro relpowp_Suc_I2) auto
    with u t(2) show ?thesis
      by (intro exI [of _ "Suc n"] exI [of _ u]) simp
  qed
qed

end

text \<open>
  A run in which the worker gets \<open>n\<close> turns, among any steps of the other threads; a turn of a
  worker that waits changes nothing. \<open>live\<close> restricts the states passed through.
\<close>

inductive served ::
    "('s \<Rightarrow> 's \<Rightarrow> bool) \<Rightarrow> ('s \<Rightarrow> 's option) \<Rightarrow> ('s \<Rightarrow> bool) \<Rightarrow> nat \<Rightarrow> 's \<Rightarrow> 's \<Rightarrow> bool"
  for step own_step live where
  start: "served step own_step live 0 s s"
| turn: "served step own_step live n s t \<Longrightarrow> own_step t = Some u \<Longrightarrow> live u \<Longrightarrow>
    served step own_step live (Suc n) s u"
| waits: "served step own_step live n s t \<Longrightarrow> own_step t = None \<Longrightarrow>
    served step own_step live (Suc n) s t"
| other: "served step own_step live n s t \<Longrightarrow> step t u \<Longrightarrow> live u \<Longrightarrow>
    served step own_step live n s u"

text \<open>
  A worker that answers what it accepted if only it gets its turns: \<open>cost\<close> turns per item,
  whatever the others do. \<open>effort\<close> counts the turns spent so far.
\<close>

locale live_worker = serial_worker init step accepted answered in_hand waiting
  for init step accepted answered in_hand waiting +
  fixes own_step :: "'s \<Rightarrow> 's option"
    and live :: "'s \<Rightarrow> bool"
    and effort :: "'s \<Rightarrow> nat"
    and cost :: nat
  assumes turn_is_step: "own_step s = Some t \<Longrightarrow> step s t"
    and turn_effort: "live s \<Longrightarrow> own_step s = Some t \<Longrightarrow> in_hand s @ waiting s \<noteq> [] \<Longrightarrow> effort s < effort t"
    and waits_for_work: "live s \<Longrightarrow> own_step s = None \<Longrightarrow> in_hand s @ waiting s = []"
    and step_effort: "step s t \<Longrightarrow> effort s \<le> effort t"
    and effort_bound: "effort s < cost * Suc (length (answered s))"
    and step_accepted: "step s t \<Longrightarrow> \<exists>later. accepted t = accepted s @ later"
    and step_answered: "step s t \<Longrightarrow> length (answered s) \<le> length (answered t)"
begin

lemma served_reaches: "served step own_step live n s t \<Longrightarrow> step\<^sup>*\<^sup>* s t"
  by (induction rule: served.induct) (auto intro: rtranclp.rtrancl_into_rtrancl turn_is_step)

lemma served_live: "served step own_step live n s t \<Longrightarrow> live s \<Longrightarrow> live t"
  by (induction rule: served.induct) auto

lemma accepted_grows: "step\<^sup>*\<^sup>* s t \<Longrightarrow> \<exists>later. accepted t = accepted s @ later"
proof (induction rule: rtranclp_induct)
  case (step t u)
  then show ?case using step_accepted [of t u] by fastforce
qed simp

lemma all_answered:
  assumes "init i" "step\<^sup>*\<^sup>* i s" "step\<^sup>*\<^sup>* s t" "in_hand t @ waiting t = []"
  shows "length (accepted s) \<le> length (answered t)"
proof -
  have "accepted t = answered t"
    using run_accounts [OF assms(1) rtranclp_trans [OF assms(2,3)]] assms(4) by simp
  with accepted_grows [OF assms(3)] show ?thesis by auto
qed

lemma served_effort:
  assumes "init i" "step\<^sup>*\<^sup>* i s" "live s" "served step own_step live n s t"
  shows "effort s + n \<le> effort t \<or> length (accepted s) \<le> length (answered t)"
  using assms(4,1-3)
proof (induction rule: served.induct)
  case (turn n s t u)
  have st: "step\<^sup>*\<^sup>* s t" "live t" "step t u"
    using turn served_reaches served_live turn_is_step by blast+
  show ?case
  proof (cases "in_hand t @ waiting t = []")
    case True
    with all_answered [OF turn.prems(1,2) st(1)] step_answered [OF st(3)] show ?thesis by simp
  next
    case False
    with turn_effort [OF st(2) turn.hyps(2)] turn.IH [OF turn.prems] step_answered [OF st(3)]
    show ?thesis by linarith
  qed
next
  case (waits n s t)
  then have "step\<^sup>*\<^sup>* s t" "in_hand t @ waiting t = []"
    using served_reaches served_live waits_for_work by blast+
  with all_answered waits.prems show ?case by blast
next
  case (other n s t u)
  then show ?case
    using step_effort [OF other.hyps(2)] step_answered [OF other.hyps(2)] by fastforce
qed simp

text \<open>With \<open>cost\<close> turns for each item not answered yet, all of them are answered, in order.\<close>

lemma served_answers:
  assumes "init i" "step\<^sup>*\<^sup>* i s" "live s" "served step own_step live n s t"
    "cost * length (accepted s) \<le> effort s + n"
  shows "\<exists>later. answered t = accepted s @ later"
proof -
  have reach: "step\<^sup>*\<^sup>* s t" using served_reaches assms(4) by blast
  have "length (accepted s) \<le> length (answered t)"
  proof (rule ccontr)
    assume *: "\<not> length (accepted s) \<le> length (answered t)"
    then have "cost * length (accepted s) \<le> effort t"
      using served_effort [OF assms(1-4)] assms(5) by linarith
    also have "\<dots> < cost * Suc (length (answered t))" by (rule effort_bound)
    finally have "length (accepted s) < Suc (length (answered t))"
      by (simp only: mult_less_cancel1)
    with * show False by simp
  qed
  moreover obtain later where "accepted t = accepted s @ later" using accepted_grows [OF reach] by blast
  moreover have "\<exists>rest. accepted t = answered t @ rest"
    using run_accounts [OF assms(1) rtranclp_trans [OF assms(2) reach]] by auto
  ultimately show ?thesis by (auto simp: append_eq_append_conv2) metis+
qed

end

section \<open>SerialQueue\<close>

text \<open>
  The worker thread's program counter: parked at the wait, running an item outside the
  lock, handing the backlog it took to the cancel callback, or returned. The log of handler
  calls, the items taken and the pushes refused are what an observer sees.
\<close>

datatype 'a sq_pc = SqWait | SqRun 'a | SqDrain "'a list" | SqDone

datatype 'a sq_event = Ran 'a | Cancelled 'a

fun event_item :: "'a sq_event \<Rightarrow> 'a" where
  "event_item (Ran x) = x"
| "event_item (Cancelled x) = x"

record 'a serial_queue =
  sq_queue :: "'a list"
  sq_stop :: bool
  sq_pc :: "'a sq_pc"
  sq_joined :: bool
  sq_log :: "'a sq_event list"
  sq_taken :: "'a list"

definition sq_new :: "'a serial_queue" where
  "sq_new = \<lparr>sq_queue = [], sq_stop = False, sq_pc = SqWait, sq_joined = False,
             sq_log = [], sq_taken = []\<rparr>"

definition sq_push :: "'a \<Rightarrow> 'a serial_queue \<Rightarrow> bool \<times> 'a serial_queue" where
  "sq_push item q =
     (if sq_stop q then (False, q)
      else (True, q\<lparr>sq_queue := sq_queue q @ [item], sq_taken := sq_taken q @ [item]\<rparr>))"

text \<open>\<open>stop ()\<close>: the flag under the lock, then the join, which waits for the thread to return.\<close>

definition sq_request_stop :: "'a serial_queue \<Rightarrow> 'a serial_queue" where
  "sq_request_stop q = q\<lparr>sq_stop := True\<rparr>"

definition sq_join :: "'a serial_queue \<Rightarrow> 'a serial_queue option" where
  "sq_join q =
     (if sq_joined q then Some q
      else if sq_pc q = SqDone then Some (q\<lparr>sq_joined := True\<rparr>)
      else None)"

definition sq_stopped :: "'a serial_queue \<Rightarrow> bool" where
  "sq_stopped q = sq_stop q"

text \<open>One step of \<open>loop\<close>; \<open>None\<close> while the wait blocks and after the return.\<close>

definition sq_loop :: "'a serial_queue \<Rightarrow> 'a serial_queue option" where
  "sq_loop q =
     (case sq_pc q of
        SqWait \<Rightarrow>
          (if \<not> (sq_stop q \<or> sq_queue q \<noteq> []) then None
           else if sq_stop q then Some (q\<lparr>sq_pc := SqDrain (sq_queue q), sq_queue := []\<rparr>)
           else (case sq_queue q of
               item # rest \<Rightarrow> Some (q\<lparr>sq_pc := SqRun item, sq_queue := rest\<rparr>)
             | [] \<Rightarrow> None))
      | SqRun item \<Rightarrow> Some (q\<lparr>sq_pc := SqWait, sq_log := sq_log q @ [Ran item]\<rparr>)
      | SqDrain [] \<Rightarrow> Some (q\<lparr>sq_pc := SqDone\<rparr>)
      | SqDrain (item # pending) \<Rightarrow>
          Some (q\<lparr>sq_pc := SqDrain pending, sq_log := sq_log q @ [Cancelled item]\<rparr>)
      | SqDone \<Rightarrow> None)"

inductive sq_step :: "'a serial_queue \<Rightarrow> 'a serial_queue \<Rightarrow> bool" where
  push: "sq_push item q = (taken, q') \<Longrightarrow> sq_step q q'"
| request_stop: "sq_step q (sq_request_stop q)"
| join: "sq_join q = Some q' \<Longrightarrow> sq_step q q'"
| work: "sq_loop q = Some q' \<Longrightarrow> sq_step q q'"

inductive_cases sq_stepE: "sq_step q q'"

definition sq_answered :: "'a serial_queue \<Rightarrow> 'a list" where
  "sq_answered q = map event_item (sq_log q)"

definition sq_in_hand :: "'a serial_queue \<Rightarrow> 'a list" where
  "sq_in_hand q = (case sq_pc q of SqRun item \<Rightarrow> [item] | SqDrain pending \<Rightarrow> pending | _ \<Rightarrow> [])"

definition sq_draining :: "'a serial_queue \<Rightarrow> bool" where
  "sq_draining q \<longleftrightarrow> (case sq_pc q of SqDrain _ \<Rightarrow> True | SqDone \<Rightarrow> True | _ \<Rightarrow> False)"

text \<open>The thread leaves the wait for the drain only when stopped, and nothing is queued after that.\<close>

definition sq_inv :: "'a serial_queue \<Rightarrow> bool" where
  "sq_inv q \<longleftrightarrow> (sq_draining q \<longrightarrow> sq_stop q \<and> sq_queue q = []) \<and> (sq_joined q \<longrightarrow> sq_pc q = SqDone)"

definition sq_distance :: "'a serial_queue \<Rightarrow> nat" where
  "sq_distance q =
     (case sq_pc q of
        SqRun _ \<Rightarrow> length (sq_queue q) + 3
      | SqWait \<Rightarrow> length (sq_queue q) + 2
      | SqDrain pending \<Rightarrow> length pending + 1
      | SqDone \<Rightarrow> 0)"

lemmas sq_state_defs =
  sq_push_def sq_request_stop_def sq_join_def sq_loop_def sq_answered_def sq_in_hand_def

lemma sq_step_accounts:
  assumes "sq_step q q'" "sq_taken q = sq_answered q @ sq_in_hand q @ sq_queue q"
  shows "sq_taken q' = sq_answered q' @ sq_in_hand q' @ sq_queue q'"
  using assms
  by (elim sq_stepE) (auto simp: sq_state_defs split: if_splits sq_pc.splits list.splits)

lemma sq_step_inv: "sq_step q q' \<Longrightarrow> sq_inv q \<Longrightarrow> sq_inv q'"
  by (elim sq_stepE)
    (auto simp: sq_state_defs sq_inv_def sq_draining_def split: if_splits sq_pc.splits list.splits)

lemma sq_step_stop: "sq_step q q' \<Longrightarrow> sq_stop q \<Longrightarrow> sq_stop q'"
  by (elim sq_stepE) (auto simp: sq_state_defs split: if_splits sq_pc.splits list.splits)

lemma sq_loop_progress:
  assumes "sq_inv q" "sq_stop q" "sq_pc q \<noteq> SqDone"
  shows "\<exists>q'. sq_loop q = Some q' \<and> sq_distance q' < sq_distance q"
proof (cases "sq_pc q")
  case (SqDrain pending)
  then show ?thesis by (cases pending) (simp_all add: sq_loop_def sq_distance_def)
qed (use assms in \<open>simp_all add: sq_loop_def sq_distance_def\<close>)

lemma sq_new_accounts: "q = sq_new \<Longrightarrow> sq_taken q = sq_answered q @ sq_in_hand q @ sq_queue q"
  by (simp add: sq_new_def sq_answered_def sq_in_hand_def)

lemma sq_new_inv: "q = sq_new \<Longrightarrow> sq_inv q"
  by (simp add: sq_new_def sq_inv_def sq_draining_def)

lemma sq_done_empty: "sq_inv q \<Longrightarrow> sq_pc q = SqDone \<Longrightarrow> sq_in_hand q = [] \<and> sq_queue q = []"
  by (simp add: sq_inv_def sq_draining_def sq_in_hand_def)

interpretation sq: draining_worker "\<lambda>q. q = sq_new" sq_step sq_taken sq_answered sq_in_hand sq_queue
    sq_loop sq_stop "\<lambda>q. sq_pc q = SqDone" sq_distance sq_inv
  by unfold_locales
    (blast intro: sq_new_accounts sq_step_accounts sq_step.work sq_new_inv sq_step_inv
      sq_step_stop sq_loop_progress dest: sq_done_empty)+

text \<open>
  The worker also answers while it is not stopped: two turns per item, to take it and to run
  it, and one per cancelled item.
\<close>

definition sq_effort :: "'a serial_queue \<Rightarrow> nat" where
  "sq_effort q = 2 * length (sq_log q) +
     (case sq_pc q of SqWait \<Rightarrow> 0 | SqDone \<Rightarrow> 1 | SqRun _ \<Rightarrow> 1 | SqDrain _ \<Rightarrow> 1)"

interpretation sq_live: live_worker "\<lambda>q. q = sq_new" sq_step sq_taken sq_answered sq_in_hand sq_queue
    sq_loop sq_inv sq_effort 2
proof unfold_locales
  fix s t :: "'a serial_queue"
  show "sq_loop s = Some t \<Longrightarrow> sq_step s t" by (rule sq_step.work)
  show "sq_inv s \<Longrightarrow> sq_loop s = Some t \<Longrightarrow> sq_in_hand s @ sq_queue s \<noteq> [] \<Longrightarrow> sq_effort s < sq_effort t"
    by (auto simp: sq_effort_def sq_loop_def sq_in_hand_def sq_inv_def sq_draining_def
        split: sq_pc.splits if_splits list.splits)
  show "sq_inv s \<Longrightarrow> sq_loop s = None \<Longrightarrow> sq_in_hand s @ sq_queue s = []"
    by (auto simp: sq_loop_def sq_in_hand_def sq_inv_def sq_draining_def
        split: sq_pc.splits if_splits list.splits)
  show "sq_step s t \<Longrightarrow> sq_effort s \<le> sq_effort t"
    by (elim sq_stepE)
      (auto simp: sq_effort_def sq_state_defs split: sq_pc.splits if_splits list.splits)
  show "sq_effort s < 2 * Suc (length (sq_answered s))"
    by (auto simp: sq_effort_def sq_answered_def split: sq_pc.splits)
  show "sq_step s t \<Longrightarrow> \<exists>later. sq_taken t = sq_taken s @ later"
    by (elim sq_stepE) (auto simp: sq_state_defs split: sq_pc.splits if_splits list.splits)
  show "sq_step s t \<Longrightarrow> length (sq_answered s) \<le> length (sq_answered t)"
    by (elim sq_stepE) (auto simp: sq_state_defs split: sq_pc.splits if_splits list.splits)
qed

text \<open>
  Items are run before any is cancelled: the log is a run of \<open>Ran\<close> events followed by a run
  of \<open>Cancelled\<close> ones, the latter only in the drain.
\<close>

definition sq_log_inv :: "'a serial_queue \<Rightarrow> bool" where
  "sq_log_inv q \<longleftrightarrow> (\<exists>rs cs. sq_log q = map Ran rs @ map Cancelled cs \<and>
     (\<not> sq_draining q \<longrightarrow> cs = []))"

lemma sq_log_inv_same:
  "sq_log_inv q \<Longrightarrow> sq_log q' = sq_log q \<Longrightarrow> sq_draining q' = sq_draining q \<Longrightarrow> sq_log_inv q'"
  by (simp add: sq_log_inv_def)

lemma sq_step_log_inv: "sq_step q q' \<Longrightarrow> sq_log_inv q \<Longrightarrow> sq_log_inv q'"
proof (elim sq_stepE)
  assume inv: "sq_log_inv q" and work: "sq_loop q = Some q'"
  obtain rs cs where l: "sq_log q = map Ran rs @ map Cancelled cs" "\<not> sq_draining q \<longrightarrow> cs = []"
    using inv by (auto simp: sq_log_inv_def)
  show "sq_log_inv q'"
  proof (cases "sq_pc q")
    case SqWait
    with l have "sq_log q = map Ran rs @ map Cancelled []" by (simp add: sq_draining_def)
    moreover have "sq_log q' = sq_log q"
      using SqWait work by (auto simp: sq_loop_def split: if_splits list.splits)
    ultimately show ?thesis unfolding sq_log_inv_def by metis
  next
    case (SqRun item)
    with l work have "sq_log q' = map Ran (rs @ [item]) @ map Cancelled []"
      by (auto simp: sq_loop_def sq_draining_def)
    then show ?thesis unfolding sq_log_inv_def by blast
  next
    case (SqDrain pending)
    with work l have "sq_draining q'"
      "sq_log q' = map Ran rs @ map Cancelled (cs @ (case pending of [] \<Rightarrow> [] | x # _ \<Rightarrow> [x]))"
      by (auto simp: sq_loop_def sq_draining_def split: list.splits)
    then show ?thesis unfolding sq_log_inv_def by blast
  next
    case SqDone
    with work show ?thesis by (simp add: sq_loop_def)
  qed
qed (erule sq_log_inv_same; force simp: sq_state_defs sq_draining_def split: if_splits)+

lemma sq_run_log_inv: "sq_step\<^sup>*\<^sup>* sq_new q \<Longrightarrow> sq_log_inv q"
proof (induction rule: rtranclp_induct)
  case base
  show ?case by (simp add: sq_log_inv_def sq_new_def)
next
  case (step q q')
  then show ?case by (blast intro: sq_step_log_inv)
qed

section \<open>Schedules\<close>

text \<open>
  A schedule: what the other threads call and when the worker moves. A call or a step that
  would block leaves the state as it is.
\<close>

datatype 'a sq_action = SqPush 'a | SqStop | SqJoin | SqWork

fun sq_exec :: "'a sq_action \<Rightarrow> 'a serial_queue \<Rightarrow> 'a serial_queue" where
  "sq_exec (SqPush item) q = snd (sq_push item q)"
| "sq_exec SqStop q = sq_request_stop q"
| "sq_exec SqJoin q = (case sq_join q of None \<Rightarrow> q | Some q' \<Rightarrow> q')"
| "sq_exec SqWork q = (case sq_loop q of None \<Rightarrow> q | Some q' \<Rightarrow> q')"

definition sq_run :: "'a sq_action list \<Rightarrow> 'a serial_queue \<Rightarrow> 'a serial_queue" where
  "sq_run as q = fold sq_exec as q"

lemmas sq_exec_defs = sq_run_def sq_state_defs sq_new_def

lemma sq_exec_step: "sq_step\<^sup>*\<^sup>* q (sq_exec a q)"
proof (cases a)
  case (SqPush item)
  then show ?thesis by (cases "sq_push item q") (auto intro: sq_step.push)
qed (auto intro: sq_step.intros split: option.splits)

lemma sq_run_reachable: "sq_step\<^sup>*\<^sup>* q (sq_run as q)"
proof (induction as arbitrary: q)
  case Nil
  then show ?case by (simp add: sq_run_def)
next
  case (Cons a as)
  have "sq_step\<^sup>*\<^sup>* q (sq_exec a q)" by (rule sq_exec_step)
  moreover have "sq_step\<^sup>*\<^sup>* (sq_exec a q) (sq_run (a # as) q)"
    using Cons [of "sq_exec a q"] by (simp add: sq_run_def)
  ultimately show ?case by (rule rtranclp_trans)
qed

lemma sq_exec_inv: "sq_inv q \<Longrightarrow> sq_inv (sq_exec a q)"
  using sq_exec_step [of q a]
  by (induction rule: rtranclp_induct) (auto intro: sq_step_inv)

text \<open>A schedule serves the worker as often as it moves it.\<close>

lemma sq_run_serves:
  "sq_inv q \<Longrightarrow> served sq_step sq_loop sq_inv (length (filter (\<lambda>a. a = SqWork) as)) q (sq_run as q)"
proof (induction as rule: rev_induct)
  case Nil
  then show ?case by (simp add: sq_run_def served.start)
next
  case (snoc a as)
  let ?r = "sq_run as q" and ?n = "length (filter (\<lambda>a. a = SqWork) as)"
  have served: "served sq_step sq_loop sq_inv ?n q ?r" and inv: "sq_inv (sq_exec a ?r)"
    using snoc sq_live.served_live sq_exec_inv by blast+
  have "served sq_step sq_loop sq_inv ?n q (sq_exec a ?r)" if "a \<noteq> SqWork"
  proof (cases a)
    case (SqPush item)
    then have "sq_step ?r (sq_exec a ?r)" by (cases "sq_push item ?r") (auto intro: sq_step.push)
    with served inv show ?thesis by (blast intro: served.other)
  next
    case SqStop
    with served inv show ?thesis by (auto intro: served.other sq_step.request_stop)
  next
    case SqJoin
    with served inv show ?thesis
      by (cases "sq_join ?r") (auto intro: served.other sq_step.join)
  qed (use that in simp)
  moreover have "served sq_step sq_loop sq_inv (Suc ?n) q (sq_exec SqWork ?r)" if "a = SqWork"
    using served inv that
    by (cases "sq_loop ?r") (auto intro: served.turn served.waits)
  ultimately show ?case by (auto simp: sq_run_def)
qed

section \<open>Properties\<close>

text \<open>
  C13. Every item \<open>push\<close> took is answered exactly once, in the order taken, whatever the
  interleaving of pushes, stops, joins and the worker: when the worker has returned, the
  items of the handler calls are the items taken, first the ones that ran and then the
  cancelled backlog.
\<close>

theorem serial_queue_answers_exactly_once:
  assumes "sq_step\<^sup>*\<^sup>* sq_new q" "sq_pc q = SqDone"
  shows "\<exists>rs cs. sq_log q = map Ran rs @ map Cancelled cs \<and> sq_taken q = rs @ cs"
proof -
  obtain rs cs where log: "sq_log q = map Ran rs @ map Cancelled cs"
    using sq_run_log_inv [OF assms(1)] by (auto simp: sq_log_inv_def)
  have "sq_answered q = sq_taken q"
    using sq.finished_answered_all assms by blast
  then have "sq_taken q = rs @ cs"
    by (simp add: sq_answered_def log comp_def)
  with log show ?thesis by blast
qed

theorem serial_queue_answers_exactly_once_witness:
  "\<exists>rs cs. sq_log (sq_run [SqPush ''a'', SqWork, SqPush ''b'', SqStop, SqPush ''c'', SqWork, SqWork, SqWork, SqWork]
       sq_new) = map Ran rs @ map Cancelled cs \<and>
    sq_taken (sq_run [SqPush ''a'', SqWork, SqPush ''b'', SqStop, SqPush ''c'', SqWork, SqWork, SqWork, SqWork]
       sq_new) = rs @ cs"
  by (rule serial_queue_answers_exactly_once [OF sq_run_reachable])
    (simp add: sq_exec_defs)

text \<open>
  An item taken is answered if only the worker gets its turns: once it had two turns for
  each item not answered yet, these have all been answered in the order they were taken,
  whatever was pushed, stopped or joined meanwhile.
\<close>

lemma serial_queue_answers_under_fairness:
  assumes "sq_step\<^sup>*\<^sup>* sq_new q"
    "2 * (length (sq_taken q) - length (sq_log q)) \<le> length (filter (\<lambda>a. a = SqWork) as)"
  shows "\<exists>later. map event_item (sq_log (sq_run as q)) = sq_taken q @ later"
proof -
  have inv: "sq_inv q" using sq.run_inv assms(1) by blast
  have "2 * length (sq_taken q) \<le> sq_effort q + length (filter (\<lambda>a. a = SqWork) as)"
    using assms(2) by (simp add: sq_effort_def diff_mult_distrib2)
  from sq_live.served_answers [OF refl assms(1) inv sq_run_serves [OF inv] this]
  show ?thesis by (simp add: sq_answered_def)
qed

lemma serial_queue_answers_under_fairness_witness:
  "\<exists>later. map event_item (sq_log (sq_run [SqWork, SqPush ''c'', SqWork, SqStop, SqWork, SqWork]
      (sq_run [SqPush ''a'', SqPush ''b''] sq_new))) = [''a'', ''b''] @ later"
  using serial_queue_answers_under_fairness [OF sq_run_reachable,
      of "[SqPush ''a'', SqPush ''b'']" "[SqWork, SqPush ''c'', SqWork, SqStop, SqWork, SqWork]"]
  by (simp add: sq_exec_defs)

text \<open>
  After \<open>stop\<close> was requested the worker returns by its own steps, after at most one
  running item, one step per queued item to cancel it, and two more, so the join of \<open>stop\<close>
  is not blocked for ever; and no push is taken any more.
\<close>

lemma serial_queue_stop_returns:
  assumes "sq_step\<^sup>*\<^sup>* sq_new q" "sq_stop q"
  shows "(\<exists>n q'. n \<le> length (sq_queue q) + length (sq_in_hand q) + 3 \<and>
      ((\<lambda>s t. sq_loop s = Some t) ^^ n) q q' \<and> sq_pc q' = SqDone \<and> sq_join q' \<noteq> None) \<and>
    sq_push item q = (False, q)"
proof -
  have inv: "sq_inv q" using sq.run_inv assms(1) by blast
  have "sq_distance q \<le> length (sq_queue q) + length (sq_in_hand q) + 3"
    by (auto simp: sq_distance_def sq_in_hand_def split: sq_pc.splits)
  moreover obtain n q' where "n \<le> sq_distance q" "((\<lambda>s t. sq_loop s = Some t) ^^ n) q q'"
    "sq_pc q' = SqDone"
    using sq.stopped_terminates [OF inv assms(2)] by blast
  moreover from this have "sq_join q' \<noteq> None" by (simp add: sq_join_def)
  moreover have "sq_push item q = (False, q)" using assms(2) by (simp add: sq_push_def)
  ultimately show ?thesis by (meson order_trans)
qed

lemma serial_queue_stop_returns_witness:
  "(\<exists>n q'. n \<le> length (sq_queue (sq_run [SqPush ''a'', SqWork, SqPush ''b'', SqStop] sq_new)) +
        length (sq_in_hand (sq_run [SqPush ''a'', SqWork, SqPush ''b'', SqStop] sq_new)) + 3 \<and>
      ((\<lambda>s t. sq_loop s = Some t) ^^ n) (sq_run [SqPush ''a'', SqWork, SqPush ''b'', SqStop] sq_new) q' \<and>
      sq_pc q' = SqDone \<and> sq_join q' \<noteq> None) \<and>
    sq_push ''c'' (sq_run [SqPush ''a'', SqWork, SqPush ''b'', SqStop] sq_new) =
      (False, sq_run [SqPush ''a'', SqWork, SqPush ''b'', SqStop] sq_new)"
  by (rule serial_queue_stop_returns [OF sq_run_reachable]) (simp add: sq_exec_defs)

end
