(* ===== verification/Thread_Places.thy ===== *)
theory Thread_Places
  imports Bridge_Prelude
begin

text \<open>
  Threads inside a class that guards its members by a mutex: a worker that the class owns and
  any number of calling threads, each at a place in the code. What the line-by-line models of
  such classes share: who holds a mutex, and what a step of one caller leaves of the others.
\<close>

section \<open>Sums and counts over threads\<close>

text \<open>A sum over the threads changes by what the thread that moved contributes.\<close>

lemma sum_list_update_part:
  fixes f :: "'b \<Rightarrow> 'c :: comm_monoid_add"
  shows "i < length xs \<Longrightarrow> sum_list (map f (xs[i := v])) + f (xs ! i) = sum_list (map f xs) + f v"
proof (induction xs arbitrary: i)
  case (Cons x xs)
  then show ?case by (cases i) (auto simp: ac_simps)
qed simp

lemma filter_at_most_one:
  assumes "\<And>i j. i < length xs \<Longrightarrow> j < length xs \<Longrightarrow> P (xs ! i) \<Longrightarrow> P (xs ! j) \<Longrightarrow> i = j"
  shows "length (filter P xs) \<le> 1"
proof -
  have "card {i. i < length xs \<and> P (xs ! i)} \<le> 1"
    using assms by (auto simp: card_le_Suc0_iff_eq)
  then show ?thesis by (simp add: length_filter_conv_card)
qed

section \<open>Mutexes\<close>

datatype bridge_thread = Worker | Caller nat

text \<open>
  The holder of a mutex is the thread at a place that holds it: \<open>w\<close> says so of the worker's
  place, \<open>holds\<close> of the callers' places.
\<close>

definition lock_held :: "bridge_thread option \<Rightarrow> bool \<Rightarrow> ('c \<Rightarrow> bool) \<Rightarrow> 'c list \<Rightarrow> bool" where
  "lock_held mu w holds cs \<longleftrightarrow>
     (mu = Some Worker \<longleftrightarrow> w) \<and>
     (\<forall>i. mu = Some (Caller i) \<longleftrightarrow> i < length cs \<and> holds (cs ! i))"

text \<open>The thread that moves keeps the mutex or goes without it, takes it, or releases it.\<close>

lemma lock_held_caller:
  assumes "lock_held mu w holds cs" "i < length cs"
    "mu' = mu \<and> (holds c \<longleftrightarrow> holds (cs ! i)) \<or>
     mu = None \<and> mu' = Some (Caller i) \<and> holds c \<or>
     holds (cs ! i) \<and> mu' = None \<and> \<not> holds c"
  shows "lock_held mu' w holds (cs[i := c])"
proof -
  have old: "mu = Some Worker \<longleftrightarrow> w" "\<And>j. mu = Some (Caller j) \<longleftrightarrow> j < length cs \<and> holds (cs ! j)"
    using assms(1) by (simp_all add: lock_held_def)
  have "mu' = Some Worker \<longleftrightarrow> w"
    using assms(3) old(1) old(2) [of i] assms(2) by (elim disjE conjE) auto
  moreover have "mu' = Some (Caller j) \<longleftrightarrow> j < length (cs[i := c]) \<and> holds (cs[i := c] ! j)" for j
    using assms(3) old(2) [of j] old(2) [of i] assms(2) by (cases "j = i") (elim disjE conjE; simp)+
  ultimately show ?thesis by (simp add: lock_held_def)
qed

lemma lock_held_worker:
  assumes "lock_held mu w holds cs"
    "mu' = mu \<and> (w' \<longleftrightarrow> w) \<or> mu = None \<and> mu' = Some Worker \<and> w' \<or> w \<and> mu' = None \<and> \<not> w'"
  shows "lock_held mu' w' holds cs"
  using assms(2,1)
  by (elim disjE conjE) (simp_all add: lock_held_def, metis option.discI option.inject bridge_thread.distinct(1))

lemma lock_held_alone:
  assumes "lock_held mu w holds cs" "i < length cs" "holds (cs ! i)"
  shows "\<not> w" "j < length cs \<Longrightarrow> holds (cs ! j) \<Longrightarrow> j = i"
proof -
  have mu: "mu = Some (Caller i)" using assms by (simp add: lock_held_def)
  with assms(1) show "\<not> w" by (simp add: lock_held_def)
  show "j = i" if "j < length cs" "holds (cs ! j)"
  proof -
    have "mu = Some (Caller j)" using assms(1) that by (simp add: lock_held_def)
    with mu show "j = i" by simp
  qed
qed

section \<open>Calls\<close>

text \<open>
  \<open>go i\<close> is a step of caller \<open>i\<close> inside a call, \<open>enter i k\<close> the beginning of the call \<open>k\<close> by a
  caller that is in none.
\<close>

locale calling_threads =
  fixes callers :: "'s \<Rightarrow> 'c list"
    and go :: "nat \<Rightarrow> 's \<Rightarrow> 's option"
    and enter :: "nat \<Rightarrow> 'k \<Rightarrow> 's \<Rightarrow> 's option"
    and entry :: "'k \<Rightarrow> 'c"
    and outside :: 'c
  assumes go_callers:
      "go i s = Some t \<Longrightarrow> i < length (callers s) \<and> callers t = (callers s)[i := callers t ! i]"
    and enter_callers:
      "enter i k s = Some t \<Longrightarrow>
         i < length (callers s) \<and> callers s ! i = outside \<and> callers t = (callers s)[i := entry k]"
begin

lemma go_places:
  assumes "go i s = Some t"
  shows "callers s ! i \<in> set (callers s)" "callers t ! i \<in> set (callers t)"
    "set (callers t) \<subseteq> insert (callers t ! i) (set (callers s))"
    "length (callers t) = length (callers s)"
proof -
  have i: "i < length (callers s)" and t: "callers t = (callers s)[i := callers t ! i]"
    using go_callers [OF assms] by blast+
  show "callers s ! i \<in> set (callers s)" using i by simp
  show "length (callers t) = length (callers s)" by (subst t) simp
  with i show "callers t ! i \<in> set (callers t)" by simp
  show "set (callers t) \<subseteq> insert (callers t ! i) (set (callers s))"
    by (subst t) (rule set_update_subset_insert)
qed

lemma go_new: "go i s = Some t \<Longrightarrow> c \<in> set (callers t) \<Longrightarrow> c = callers t ! i \<or> c \<in> set (callers s)"
  using go_places(3) by (metis insertE subsetD)

text \<open>A caller that moves leaves the others where they were.\<close>

lemma go_others:
  assumes "go i s = Some t" "c \<in> set (callers s)"
  shows "c = callers s ! i \<or> c \<in> set (callers t)"
proof -
  obtain j where j: "j < length (callers s)" "c = callers s ! j"
    using assms(2) by (auto simp: in_set_conv_nth)
  have t: "callers t = (callers s)[i := callers t ! i]" using go_callers [OF assms(1)] by blast
  show ?thesis
  proof (cases "j = i")
    case False
    then have "callers t ! j = c" by (subst t) (simp add: j)
    moreover have "length (callers t) = length (callers s)" by (subst t) simp
    ultimately show ?thesis using j(1) nth_mem by fastforce
  qed (simp add: j)
qed

lemma go_sum:
  fixes f :: "'c \<Rightarrow> 'm :: comm_monoid_add"
  assumes "go i s = Some t"
  shows "sum_list (map f (callers t)) + f (callers s ! i) =
    sum_list (map f (callers s)) + f (callers t ! i)"
  using sum_list_update_part [of i "callers s" f "callers t ! i"] go_callers [OF assms] by metis

lemma enter_places:
  assumes "enter i k s = Some t"
  shows "set (callers t) \<subseteq> insert (entry k) (set (callers s))" "length (callers t) = length (callers s)"
    "entry k \<in> set (callers t)"
  using enter_callers [OF assms] set_update_subset_insert [of "callers s" i "entry k"]
  by (auto simp: set_update_memI)

lemma enter_new: "enter i k s = Some t \<Longrightarrow> c \<in> set (callers t) \<Longrightarrow> c = entry k \<or> c \<in> set (callers s)"
  using enter_places(1) by (metis insertE subsetD)

lemma enter_others:
  assumes "enter i k s = Some t" "c \<in> set (callers s)" "c \<noteq> outside"
  shows "c \<in> set (callers t)"
proof -
  obtain j where j: "j < length (callers s)" "c = callers s ! j"
    using assms(2) by (auto simp: in_set_conv_nth)
  with assms(3) enter_callers [OF assms(1)] have "callers t ! j = c" "j < length (callers t)"
    by (auto simp: nth_list_update)
  then show ?thesis by fastforce
qed

lemma enter_sum:
  fixes f :: "'c \<Rightarrow> 'm :: comm_monoid_add"
  assumes "enter i k s = Some t"
  shows "sum_list (map f (callers t)) + f outside = sum_list (map f (callers s)) + f (entry k)"
  using sum_list_update_part [of i "callers s" f "entry k"] enter_callers [OF assms] by metis

end

end
