(* ===== verification/Queue_Sync.thy ===== *)
theory Queue_Sync
  imports Work_Queue Step_Simulation Thread_Places "HOL-Library.Multiset"
begin

text \<open>
  native/include/serial_queue.h again, one step per lock, wait, wakeup and unlock. In
  \<open>Work_Queue\<close> a call and a turn of the worker are one critical section each; here they are
  the sequence of steps the code makes, with the mutex \<open>mu_\<close>, the condition variable \<open>cv_\<close>, the
  mutex \<open>join_mu_\<close> and any number of calling threads. The lemmas show that the steps simulate
  those of \<open>Work_Queue\<close>, that no wakeup is lost, that the thread is joined once, and that
  every call returns.
\<close>

section \<open>Threads and their places in the code\<close>

text \<open>
  The worker: before the lock of an iteration, testing the predicate of the wait, asleep in
  it, woken and about to lock again, past the wait, holding an item it popped, running it,
  holding the backlog it swapped out, cancelling it, returned.
\<close>

datatype 'a sy_worker =
    WLock | WTest | WAsleep | WWoken | WTake | WHas 'a | WRun 'a
  | WSwapped "'a list" | WCancel "'a list" | WDone

text \<open>
  A calling thread: in none of the calls, or at a line of \<open>push\<close>, of \<open>stop\<close> or of \<open>stopped\<close>.
\<close>

datatype 'a sy_caller =
    Outside
  | PushLock 'a | PushTest 'a | PushUnlock 'a bool | PushNotify 'a
  | StopLock | StopSet | StopUnlock | StopNotify | JoinLock | JoinTest | JoinWait | JoinUnlock
  | StoppedLock | StoppedRead | StoppedUnlock bool

datatype 'a sy_call = Push 'a | Stop | Stopped

text \<open>
  The members of the class, the places of the threads, and ghosts: what happened (\<open>sy_log\<close>,
  \<open>sy_taken\<close>), what the pushes returned and how often the thread was joined.
\<close>

record 'a sync_queue =
  sy_queue :: "'a list"
  sy_stop :: bool
  sy_mu :: "bridge_thread option"
  sy_join_mu :: "bridge_thread option"
  sy_joinable :: bool
  sy_worker :: "'a sy_worker"
  sy_callers :: "'a sy_caller list"
  sy_log :: "'a sq_event list"
  sy_taken :: "'a list"
  sy_pushed :: "('a \<times> bool) list"
  sy_joins :: nat

definition sy_new :: "nat \<Rightarrow> 'a sync_queue" where
  "sy_new n = \<lparr>sy_queue = [], sy_stop = False, sy_mu = None, sy_join_mu = None, sy_joinable = True,
     sy_worker = WLock, sy_callers = replicate n Outside, sy_log = [], sy_taken = [],
     sy_pushed = [], sy_joins = 0\<rparr>"

section \<open>The steps\<close>

text \<open>
  The worker. \<open>None\<close>: it waits for the mutex or for a notification, or has returned; also the
  undefined \<open>front\<close> of an empty queue, which is shown not to happen.
\<close>

definition sy_work :: "'a sync_queue \<Rightarrow> 'a sync_queue option" where
  "sy_work s =
     (case sy_worker s of
        WLock \<Rightarrow> (if sy_mu s = None then Some (s\<lparr>sy_mu := Some Worker, sy_worker := WTest\<rparr>) else None)
      | WTest \<Rightarrow>
          Some (if sy_stop s \<or> sy_queue s \<noteq> [] then s\<lparr>sy_worker := WTake\<rparr>
                else s\<lparr>sy_mu := None, sy_worker := WAsleep\<rparr>)
      | WAsleep \<Rightarrow> None
      | WWoken \<Rightarrow> (if sy_mu s = None then Some (s\<lparr>sy_mu := Some Worker, sy_worker := WTest\<rparr>) else None)
      | WTake \<Rightarrow>
          (if sy_stop s then Some (s\<lparr>sy_worker := WSwapped (sy_queue s), sy_queue := []\<rparr>)
           else (case sy_queue s of
               item # rest \<Rightarrow> Some (s\<lparr>sy_worker := WHas item, sy_queue := rest\<rparr>)
             | [] \<Rightarrow> None))
      | WHas item \<Rightarrow> Some (s\<lparr>sy_mu := None, sy_worker := WRun item\<rparr>)
      | WRun item \<Rightarrow> Some (s\<lparr>sy_log := sy_log s @ [Ran item], sy_worker := WLock\<rparr>)
      | WSwapped pending \<Rightarrow> Some (s\<lparr>sy_mu := None, sy_worker := WCancel pending\<rparr>)
      | WCancel [] \<Rightarrow> Some (s\<lparr>sy_worker := WDone\<rparr>)
      | WCancel (item # pending) \<Rightarrow>
          Some (s\<lparr>sy_log := sy_log s @ [Cancelled item], sy_worker := WCancel pending\<rparr>)
      | WDone \<Rightarrow> None)"

text \<open>\<open>notify_one\<close> wakes the worker if it is asleep and is forgotten otherwise.\<close>

definition sy_notify :: "'a sync_queue \<Rightarrow> 'a sync_queue" where
  "sy_notify s = (if sy_worker s = WAsleep then s\<lparr>sy_worker := WWoken\<rparr> else s)"

definition sy_at :: "nat \<Rightarrow> 'a sy_caller \<Rightarrow> 'a sync_queue \<Rightarrow> 'a sync_queue" where
  "sy_at i c s = s\<lparr>sy_callers := (sy_callers s)[i := c]\<rparr>"

definition sy_lock :: "nat \<Rightarrow> 'a sy_caller \<Rightarrow> 'a sync_queue \<Rightarrow> 'a sync_queue option" where
  "sy_lock i c s = (if sy_mu s = None then Some (sy_at i c (s\<lparr>sy_mu := Some (Caller i)\<rparr>)) else None)"

definition sy_unlock :: "nat \<Rightarrow> 'a sy_caller \<Rightarrow> 'a sync_queue \<Rightarrow> 'a sync_queue option" where
  "sy_unlock i c s = Some (sy_at i c (s\<lparr>sy_mu := None\<rparr>))"

text \<open>One line of a call. \<open>None\<close>: the thread is in no call, or it is blocked.\<close>

definition sy_line :: "nat \<Rightarrow> 'a sy_caller \<Rightarrow> 'a sync_queue \<Rightarrow> 'a sync_queue option" where
  "sy_line i c s =
     (case c of
        Outside \<Rightarrow> None
      | PushLock item \<Rightarrow> sy_lock i (PushTest item) s
      | PushTest item \<Rightarrow>
          Some (if sy_stop s then sy_at i (PushUnlock item False) s
                else sy_at i (PushUnlock item True)
                  (s\<lparr>sy_queue := sy_queue s @ [item], sy_taken := sy_taken s @ [item]\<rparr>))
      | PushUnlock item True \<Rightarrow> sy_unlock i (PushNotify item) s
      | PushUnlock item False \<Rightarrow> sy_unlock i Outside (s\<lparr>sy_pushed := sy_pushed s @ [(item, False)]\<rparr>)
      | PushNotify item \<Rightarrow>
          Some (sy_at i Outside (sy_notify (s\<lparr>sy_pushed := sy_pushed s @ [(item, True)]\<rparr>)))
      | StopLock \<Rightarrow> sy_lock i StopSet s
      | StopSet \<Rightarrow> Some (sy_at i StopUnlock (s\<lparr>sy_stop := True\<rparr>))
      | StopUnlock \<Rightarrow> sy_unlock i StopNotify s
      | StopNotify \<Rightarrow> Some (sy_at i JoinLock (sy_notify s))
      | JoinLock \<Rightarrow>
          (if sy_join_mu s = None then Some (sy_at i JoinTest (s\<lparr>sy_join_mu := Some (Caller i)\<rparr>)) else None)
      | JoinTest \<Rightarrow> Some (sy_at i (if sy_joinable s then JoinWait else JoinUnlock) s)
      | JoinWait \<Rightarrow>
          (if sy_worker s = WDone
           then Some (sy_at i JoinUnlock (s\<lparr>sy_joinable := False, sy_joins := Suc (sy_joins s)\<rparr>))
           else None)
      | JoinUnlock \<Rightarrow> Some (sy_at i Outside (s\<lparr>sy_join_mu := None\<rparr>))
      | StoppedLock \<Rightarrow> sy_lock i StoppedRead s
      | StoppedRead \<Rightarrow> Some (sy_at i (StoppedUnlock (sy_stop s)) s)
      | StoppedUnlock _ \<Rightarrow> sy_unlock i Outside s)"

definition sy_go :: "nat \<Rightarrow> 'a sync_queue \<Rightarrow> 'a sync_queue option" where
  "sy_go i s = (if i < length (sy_callers s) then sy_line i (sy_callers s ! i) s else None)"

fun sy_entry :: "'a sy_call \<Rightarrow> 'a sy_caller" where
  "sy_entry (Push item) = PushLock item"
| "sy_entry Stop = StopLock"
| "sy_entry Stopped = StoppedLock"

definition sy_begin :: "nat \<Rightarrow> 'a sy_call \<Rightarrow> 'a sync_queue \<Rightarrow> 'a sync_queue option" where
  "sy_begin i call s =
     (if i < length (sy_callers s) \<and> sy_callers s ! i = Outside
      then Some (sy_at i (sy_entry call) s) else None)"

text \<open>A wait may also end without a notification.\<close>

definition sy_spurious :: "'a sync_queue \<Rightarrow> 'a sync_queue option" where
  "sy_spurious s = (if sy_worker s = WAsleep then Some (s\<lparr>sy_worker := WWoken\<rparr>) else None)"

text \<open>The moves of the threads inside the class, and with them the calls and spurious wakeups.\<close>

inductive sy_move :: "'a sync_queue \<Rightarrow> 'a sync_queue \<Rightarrow> bool" where
  work: "sy_work s = Some t \<Longrightarrow> sy_move s t"
| go: "sy_go i s = Some t \<Longrightarrow> sy_move s t"

inductive sy_step :: "'a sync_queue \<Rightarrow> 'a sync_queue \<Rightarrow> bool" where
  move: "sy_move s t \<Longrightarrow> sy_step s t"
| enter: "sy_begin i call s = Some t \<Longrightarrow> sy_step s t"
| spurious: "sy_spurious s = Some t \<Longrightarrow> sy_step s t"

inductive_cases sy_moveE: "sy_move s t"
inductive_cases sy_stepE: "sy_step s t"

text \<open>Schedules, in which a thread that cannot move stays where it is.\<close>

datatype 'a sy_action = Work | Go nat | Begin nat "'a sy_call" | Spurious

fun sy_try :: "'a sy_action \<Rightarrow> 'a sync_queue \<Rightarrow> 'a sync_queue option" where
  "sy_try Work s = sy_work s"
| "sy_try (Go i) s = sy_go i s"
| "sy_try (Begin i call) s = sy_begin i call s"
| "sy_try Spurious s = sy_spurious s"

definition sy_run :: "'a sy_action list \<Rightarrow> 'a sync_queue \<Rightarrow> 'a sync_queue" where
  "sy_run as s = fold (\<lambda>a s. case sy_try a s of None \<Rightarrow> s | Some t \<Rightarrow> t) as s"

lemma sy_try_step: "sy_try a s = Some t \<Longrightarrow> sy_step s t"
  by (cases a) (auto intro: sy_step.intros sy_move.intros)

lemma sy_run_reachable: "sy_step\<^sup>*\<^sup>* s (sy_run as s)"
proof (induction as rule: rev_induct)
  case (snoc a as)
  then show ?case
    by (auto simp: sy_run_def split: option.splits intro: rtranclp.rtrancl_into_rtrancl sy_try_step)
qed (simp add: sy_run_def)

section \<open>Locks and places\<close>

text \<open>Where a thread holds a mutex, and where a caller still owes the worker a notification.\<close>

fun worker_holds :: "'a sy_worker \<Rightarrow> bool" where
  "worker_holds WTest = True"
| "worker_holds WTake = True"
| "worker_holds (WHas _) = True"
| "worker_holds (WSwapped _) = True"
| "worker_holds _ = False"

fun caller_holds :: "'a sy_caller \<Rightarrow> bool" where
  "caller_holds (PushTest _) = True"
| "caller_holds (PushUnlock _ _) = True"
| "caller_holds StopSet = True"
| "caller_holds StopUnlock = True"
| "caller_holds StoppedRead = True"
| "caller_holds (StoppedUnlock _) = True"
| "caller_holds _ = False"

fun caller_joins :: "'a sy_caller \<Rightarrow> bool" where
  "caller_joins JoinTest = True"
| "caller_joins JoinWait = True"
| "caller_joins JoinUnlock = True"
| "caller_joins _ = False"

fun notifies :: "'a sy_caller \<Rightarrow> bool" where
  "notifies (PushUnlock _ True) = True"
| "notifies (PushNotify _) = True"
| "notifies StopUnlock = True"
| "notifies StopNotify = True"
| "notifies _ = False"

fun has_stopped :: "'a sy_caller \<Rightarrow> bool" where
  "has_stopped StopUnlock = True"
| "has_stopped StopNotify = True"
| "has_stopped JoinLock = True"
| "has_stopped JoinTest = True"
| "has_stopped JoinWait = True"
| "has_stopped JoinUnlock = True"
| "has_stopped _ = False"

text \<open>The item of a push that is in the queue's books and has not returned.\<close>

fun unreturned :: "'a sy_caller \<Rightarrow> 'a multiset" where
  "unreturned (PushUnlock item True) = {#item#}"
| "unreturned (PushNotify item) = {#item#}"
| "unreturned _ = {#}"

definition sy_locks :: "'a sync_queue \<Rightarrow> bool" where
  "sy_locks s \<longleftrightarrow>
     lock_held (sy_mu s) (worker_holds (sy_worker s)) caller_holds (sy_callers s) \<and>
     lock_held (sy_join_mu s) False caller_joins (sy_callers s)"

text \<open>Who waited found work or the stop flag; who drains saw the flag, and nothing is queued then.\<close>

fun worker_finds :: "'a sy_worker \<Rightarrow> bool \<Rightarrow> 'a list \<Rightarrow> bool" where
  "worker_finds WTake stopping queued \<longleftrightarrow> stopping \<or> queued \<noteq> []"
| "worker_finds (WSwapped _) stopping queued \<longleftrightarrow> stopping \<and> queued = []"
| "worker_finds (WCancel _) stopping queued \<longleftrightarrow> stopping \<and> queued = []"
| "worker_finds WDone stopping queued \<longleftrightarrow> stopping \<and> queued = []"
| "worker_finds _ _ _ \<longleftrightarrow> True"

definition sy_data :: "'a sync_queue \<Rightarrow> bool" where
  "sy_data s \<longleftrightarrow> worker_finds (sy_worker s) (sy_stop s) (sy_queue s) \<and>
     (\<forall>c \<in> set (sy_callers s). has_stopped c \<longrightarrow> sy_stop s)"

text \<open>No wakeup is lost: a worker asleep with something to do has a notification coming.\<close>

definition sy_wakes :: "'a sync_queue \<Rightarrow> bool" where
  "sy_wakes s \<longleftrightarrow>
     (sy_worker s = WAsleep \<and> (sy_stop s \<or> sy_queue s \<noteq> []) \<longrightarrow>
      (\<exists>c \<in> set (sy_callers s). notifies c))"

definition sy_joined_once :: "'a sync_queue \<Rightarrow> bool" where
  "sy_joined_once s \<longleftrightarrow>
     (JoinWait \<in> set (sy_callers s) \<longrightarrow> sy_joinable s) \<and>
     sy_joins s = (if sy_joinable s then 0 else 1) \<and> (sy_joinable s \<or> sy_worker s = WDone)"

text \<open>The items taken are those whose push returned true, and those whose push is about to.\<close>

definition sy_books :: "'a sync_queue \<Rightarrow> bool" where
  "sy_books s \<longleftrightarrow>
     mset (map fst (filter snd (sy_pushed s))) + sum_list (map unreturned (sy_callers s)) =
       mset (sy_taken s)"

lemmas sy_defs =
  sy_work_def sy_go_def sy_line_def sy_begin_def sy_spurious_def sy_lock_def sy_unlock_def
  sy_at_def sy_notify_def

lemmas sy_splits =
  if_splits sy_worker.splits sy_caller.splits list.splits bool.splits sy_call.splits

lemma sy_entry_facts:
  "\<not> caller_holds (sy_entry call)" "\<not> caller_joins (sy_entry call)" "\<not> notifies (sy_entry call)"
  "\<not> has_stopped (sy_entry call)" "unreturned (sy_entry call) = {#}" "sy_entry call \<noteq> JoinWait"
  by (cases call; simp)+

lemma sy_go_callers:
  "sy_go i s = Some t \<Longrightarrow> i < length (sy_callers s) \<and> sy_callers t = (sy_callers s)[i := sy_callers t ! i]"
  by (cases "sy_callers s ! i") (auto simp: sy_defs split: if_splits bool.splits)

lemma sy_begin_state:
  "sy_begin i call s = Some t \<Longrightarrow> t = s\<lparr>sy_callers := (sy_callers s)[i := sy_entry call]\<rparr>"
  by (auto simp: sy_begin_def sy_at_def split: if_splits)

interpretation sy: calling_threads sy_callers sy_go sy_begin sy_entry Outside
  by unfold_locales (rule sy_go_callers, auto simp: sy_begin_def sy_at_def split: if_splits)

lemma sy_work_locks: "sy_work s = Some t \<Longrightarrow> sy_locks s \<Longrightarrow> sy_locks t"
proof -
  assume work: "sy_work s = Some t" and inv: "sy_locks s"
  have "sy_callers t = sy_callers s" "sy_join_mu t = sy_join_mu s"
    using work by (cases "sy_worker s"; auto simp: sy_work_def split: if_splits list.splits)+
  moreover have "lock_held (sy_mu t) (worker_holds (sy_worker t)) caller_holds (sy_callers s)"
    by (rule lock_held_worker [OF inv [unfolded sy_locks_def, THEN conjunct1]])
      (use work in \<open>cases "sy_worker s"; auto simp: sy_work_def split: if_splits list.splits\<close>)
  ultimately show "sy_locks t" using inv by (simp add: sy_locks_def)
qed

lemma sy_go_locks:
  assumes go: "sy_go i s = Some t" and inv: "sy_locks s"
  shows "sy_locks t"
proof -
  have i: "i < length (sy_callers s)" and t: "sy_callers t = (sy_callers s)[i := sy_callers t ! i]"
    using sy_go_callers [OF go] by blast+
  have "worker_holds (sy_worker t) = worker_holds (sy_worker s)"
    using go by (cases "sy_callers s ! i") (auto simp: sy_defs split: if_splits bool.splits)
  moreover have "lock_held (sy_mu t) (worker_holds (sy_worker s)) caller_holds ((sy_callers s)[i := sy_callers t ! i])"
    by (rule lock_held_caller [OF inv [unfolded sy_locks_def, THEN conjunct1] i])
      (use go in \<open>cases "sy_callers s ! i"; force simp: sy_defs split: if_splits bool.splits\<close>)
  moreover have "lock_held (sy_join_mu t) False caller_joins ((sy_callers s)[i := sy_callers t ! i])"
    by (rule lock_held_caller [OF inv [unfolded sy_locks_def, THEN conjunct2] i])
      (use go in \<open>cases "sy_callers s ! i"; force simp: sy_defs split: if_splits bool.splits\<close>)
  ultimately show ?thesis unfolding sy_locks_def by (simp flip: t)
qed

lemma sy_step_locks: "sy_step s t \<Longrightarrow> sy_locks s \<Longrightarrow> sy_locks t"
proof (elim sy_stepE sy_moveE)
  fix i :: nat and call :: "'a sy_call"
  assume inv: "sy_locks s"
  { assume enter: "sy_begin i call s = Some t"
    then have "i < length (sy_callers s)" "sy_callers s ! i = Outside" using sy.enter_callers by blast+
    with inv show "sy_locks t"
      by (auto simp: sy_locks_def sy_begin_state [OF enter] sy_entry_facts intro: lock_held_caller) }
  { assume "sy_spurious s = Some t"
    with inv show "sy_locks t"
      by (auto simp: sy_locks_def sy_spurious_def intro: lock_held_worker split: if_splits) }
qed (blast intro: sy_work_locks sy_go_locks)+

section \<open>The other invariants\<close>

lemma sy_go_data:
  assumes "sy_go i s = Some t" "sy_data s"
  shows "sy_data t"
proof -
  note places = sy.go_places [OF assms(1)]
  have "has_stopped (sy_callers s ! i) \<longrightarrow> sy_stop s" using assms(2) places(1) unfolding sy_data_def by blast
  then have "has_stopped (sy_callers t ! i) \<longrightarrow> sy_stop t" "sy_stop s \<longrightarrow> sy_stop t"
    using assms(1) by (cases "sy_callers s ! i"; force simp: sy_defs split: if_splits bool.splits)+
  then have "\<forall>c \<in> set (sy_callers t). has_stopped c \<longrightarrow> sy_stop t"
    using places(3) assms(2) unfolding sy_data_def by blast
  moreover have "worker_finds (sy_worker t) (sy_stop t) (sy_queue t)"
    using assms
    by (cases "sy_callers s ! i"; cases "sy_worker s")
      (auto simp: sy_defs sy_data_def split: if_splits bool.splits)
  ultimately show ?thesis by (simp add: sy_data_def)
qed

lemma sy_step_data: "sy_step s t \<Longrightarrow> sy_data s \<Longrightarrow> sy_data t"
proof (elim sy_stepE sy_moveE)
  fix i :: nat and call :: "'a sy_call"
  assume inv: "sy_data s"
  { assume enter: "sy_begin i call s = Some t"
    have "\<forall>c \<in> set (sy_callers t). has_stopped c \<longrightarrow> sy_stop s"
      using sy.enter_places(1) [OF enter] inv sy_entry_facts(4) [of call] unfolding sy_data_def by blast
    with inv show "sy_data t" unfolding sy_data_def sy_begin_state [OF enter] by simp }
  { assume "sy_work s = Some t"
    with inv show "sy_data t"
      by (cases "sy_worker s") (auto simp: sy_work_def sy_data_def split: if_splits list.splits) }
  { assume "sy_spurious s = Some t"
    with inv show "sy_data t" by (auto simp: sy_spurious_def sy_data_def split: if_splits) }
qed (rule sy_go_data)

lemma sy_step_wakes: "sy_step s t \<Longrightarrow> sy_locks s \<Longrightarrow> sy_wakes s \<Longrightarrow> sy_wakes t"
proof (elim sy_stepE sy_moveE)
  fix i :: nat and call :: "'a sy_call"
  assume inv: "sy_wakes s"
  { assume work: "sy_work s = Some t"
    then have "sy_worker t = WAsleep \<longrightarrow> \<not> sy_stop t \<and> sy_queue t = []"
      by (cases "sy_worker s") (auto simp: sy_work_def split: if_splits list.splits)
    then show "sy_wakes t" by (auto simp: sy_wakes_def) }
  { assume go: "sy_go i s = Some t"
    have "notifies (sy_callers t ! i) \<or> sy_worker t = sy_worker s \<and> sy_stop t = sy_stop s \<and>
        sy_queue t = sy_queue s \<and> \<not> notifies (sy_callers s ! i) \<or> sy_worker t \<noteq> WAsleep"
      using go by (cases "sy_callers s ! i") (auto simp: sy_defs split: if_splits bool.splits)
    with inv sy.go_others [OF go] sy.go_places(2) [OF go] show "sy_wakes t"
      unfolding sy_wakes_def by (elim disjE) metis+ }
  { assume enter: "sy_begin i call s = Some t"
    then show "sy_wakes t"
      using inv sy.enter_others [OF enter] sy_begin_state [OF enter]
      unfolding sy_wakes_def by (auto) (metis notifies.simps(5))+ }
  { assume "sy_spurious s = Some t"
    then show "sy_wakes t" by (auto simp: sy_spurious_def sy_wakes_def split: if_splits) }
qed

lemma joining_alone:
  assumes "sy_locks s" "i < length (sy_callers s)" "j < length (sy_callers s)"
    "caller_joins (sy_callers s ! i)" "caller_joins (sy_callers s ! j)"
  shows "i = j"
  using lock_held_alone(2) assms unfolding sy_locks_def by metis

lemma sy_go_joined:
  assumes go: "sy_go i s = Some t" and locks: "sy_locks s" and inv: "sy_joined_once s"
  shows "sy_joined_once t"
proof -
  have i: "i < length (sy_callers s)" and t: "sy_callers t = (sy_callers s)[i := sy_callers t ! i]"
    using sy_go_callers [OF go] by blast+
  have once: "JoinWait \<in> set (sy_callers s) \<longrightarrow> sy_joinable s"
    "sy_joins s = (if sy_joinable s then 0 else 1)" "sy_joinable s \<or> sy_worker s = WDone"
    using inv by (auto simp: sy_joined_once_def)
  have ended: "sy_worker s = WDone \<longrightarrow> sy_worker t = WDone"
    using go by (cases "sy_callers s ! i") (auto simp: sy_defs split: if_splits bool.splits)
  show ?thesis
  proof (cases "sy_callers s ! i = JoinWait")
    case True
    then have "sy_joinable s" using once(1) i nth_mem by fastforce
    moreover have "sy_joins t = Suc (sy_joins s)" "\<not> sy_joinable t" "sy_worker t = WDone"
      "sy_callers t ! i = JoinUnlock"
      using go i True by (auto simp: sy_defs split: if_splits)
    moreover have "JoinWait \<notin> set (sy_callers t)"
    proof
      assume "JoinWait \<in> set (sy_callers t)"
      then obtain j where j: "j < length (sy_callers t)" "sy_callers t ! j = JoinWait"
        by (auto simp: in_set_conv_nth)
      have len: "length (sy_callers t) = length (sy_callers s)" by (subst t) simp
      have "j \<noteq> i" using j(2) \<open>sy_callers t ! i = JoinUnlock\<close> by auto
      moreover have "sy_callers s ! j = JoinWait"
        using j(2) \<open>j \<noteq> i\<close> by (subst (asm) t) simp
      then have "j = i" using joining_alone [OF locks, of j i] i j(1) len True by simp
      ultimately show False by simp
    qed
    ultimately show ?thesis using once by (simp add: sy_joined_once_def)
  next
    case False
    then have "sy_joins t = sy_joins s" "sy_joinable t = sy_joinable s"
      "sy_callers t ! i = JoinWait \<longrightarrow> sy_joinable s"
      using go by (cases "sy_callers s ! i"; force simp: sy_defs split: if_splits bool.splits)+
    with once ended sy.go_places(3) [OF go] show ?thesis unfolding sy_joined_once_def by auto
  qed
qed

lemma sy_step_joined: "sy_step s t \<Longrightarrow> sy_locks s \<Longrightarrow> sy_joined_once s \<Longrightarrow> sy_joined_once t"
proof (elim sy_stepE sy_moveE)
  fix i :: nat and call :: "'a sy_call"
  assume inv: "sy_joined_once s"
  { assume "sy_work s = Some t"
    with inv show "sy_joined_once t"
      by (cases "sy_worker s") (auto simp: sy_work_def sy_joined_once_def split: if_splits list.splits) }
  { assume enter: "sy_begin i call s = Some t"
    have "JoinWait \<in> set (sy_callers t) \<longrightarrow> JoinWait \<in> set (sy_callers s)"
      using sy.enter_places(1) [OF enter] sy_entry_facts(6) [of call] by auto
    with inv sy_begin_state [OF enter] show "sy_joined_once t"
      by (auto simp: sy_joined_once_def) }
  { assume "sy_spurious s = Some t"
    with inv show "sy_joined_once t" by (auto simp: sy_spurious_def sy_joined_once_def split: if_splits) }
qed (rule sy_go_joined)

lemma books_move:
  fixes a :: "'b :: cancel_comm_monoid_add"
  assumes "a' + u = a + v" "p' + v + n = p + u + n'" "p + a = n"
  shows "p' + a' = n'"
proof -
  have "(p' + a') + (u + v + n) = (p' + v + n) + (a' + u)" by (simp add: ac_simps)
  also have "\<dots> = (p + u + n') + (a + v)" by (simp only: assms(1,2))
  also have "\<dots> = n' + (u + v + (p + a))" by (simp add: ac_simps)
  finally show ?thesis by (simp add: assms(3))
qed

lemma sy_step_books: "sy_step s t \<Longrightarrow> sy_books s \<Longrightarrow> sy_books t"
proof (elim sy_stepE sy_moveE)
  fix i :: nat and call :: "'a sy_call"
  assume inv: "sy_books s"
  { assume "sy_work s = Some t"
    with inv show "sy_books t"
      by (cases "sy_worker s") (auto simp: sy_work_def sy_books_def split: if_splits list.splits) }
  { assume go: "sy_go i s = Some t"
    then have i: "i < length (sy_callers s)" using sy_go_callers by blast
    have "sum_list (map unreturned (sy_callers t)) + unreturned (sy_callers s ! i) =
        sum_list (map unreturned (sy_callers s)) + unreturned (sy_callers t ! i)"
      by (rule sy.go_sum [OF go])
    moreover have "mset (map fst (filter snd (sy_pushed t))) + unreturned (sy_callers t ! i) + mset (sy_taken s) =
        mset (map fst (filter snd (sy_pushed s))) + unreturned (sy_callers s ! i) + mset (sy_taken t)"
      using go i by (cases "sy_callers s ! i") (auto simp: sy_defs split: if_splits bool.splits)
    ultimately show "sy_books t" using inv unfolding sy_books_def by (rule books_move) }
  { assume enter: "sy_begin i call s = Some t"
    with inv sy.enter_sum [OF enter, of unreturned] show "sy_books t"
      by (simp add: sy_books_def sy_entry_facts sy_begin_state [OF enter]) }
  { assume "sy_spurious s = Some t"
    with inv show "sy_books t" by (auto simp: sy_spurious_def sy_books_def split: if_splits) }
qed

section \<open>The simulation\<close>

fun sy_abs_pc :: "'a sy_worker \<Rightarrow> 'a sq_pc" where
  "sy_abs_pc (WHas item) = SqRun item"
| "sy_abs_pc (WRun item) = SqRun item"
| "sy_abs_pc (WSwapped pending) = SqDrain pending"
| "sy_abs_pc (WCancel pending) = SqDrain pending"
| "sy_abs_pc WDone = SqDone"
| "sy_abs_pc _ = SqWait"

definition sy_abs :: "'a sync_queue \<Rightarrow> 'a serial_queue" where
  "sy_abs s =
     \<lparr>sq_queue = sy_queue s, sq_stop = sy_stop s, sq_pc = sy_abs_pc (sy_worker s),
      sq_joined = (\<not> sy_joinable s), sq_log = sy_log s, sq_taken = sy_taken s\<rparr>"

definition sy_inv :: "'a sync_queue \<Rightarrow> bool" where
  "sy_inv s \<longleftrightarrow> sy_locks s \<and> sy_data s \<and> sy_wakes s \<and> sy_joined_once s \<and> sy_books s"

lemma sy_step_inv: "sy_step s t \<Longrightarrow> sy_inv s \<Longrightarrow> sy_inv t"
  unfolding sy_inv_def
  using sy_step_locks sy_step_data sy_step_wakes sy_step_joined sy_step_books by blast

lemma sum_list_unreturned: "\<forall>c \<in> set cs. c = Outside \<Longrightarrow> sum_list (map unreturned cs) = {#}"
  by (induction cs) simp_all

lemma sy_new_inv: "sy_inv (sy_new n)"
  by (auto simp: sy_inv_def sy_new_def sy_locks_def lock_held_def sy_data_def sy_wakes_def sy_joined_once_def
      sy_books_def sum_list_unreturned simp del: sum_list_replicate map_replicate)

lemma sy_work_abs:
  assumes work: "sy_work s = Some t"
  shows "sq_step\<^sup>*\<^sup>* (sy_abs s) (sy_abs t)"
proof -
  have "sq_loop (sy_abs s) = Some (sy_abs t)" if "sy_worker s = WTake"
    using work that by (cases "sy_queue s") (auto simp: sy_work_def sy_abs_def sq_loop_def split: if_splits)
  moreover have "sq_loop (sy_abs s) = Some (sy_abs t)" if "sy_worker s = WRun item" for item
    using work that by (auto simp: sy_work_def sy_abs_def sq_loop_def)
  moreover have "sq_loop (sy_abs s) = Some (sy_abs t)" if "sy_worker s = WCancel pending" for pending
    using work that by (cases pending) (auto simp: sy_work_def sy_abs_def sq_loop_def)
  moreover have "sy_abs t = sy_abs s"
    if "sy_worker s \<noteq> WTake" "\<And>item. sy_worker s \<noteq> WRun item" "\<And>pending. sy_worker s \<noteq> WCancel pending"
    using work that by (cases "sy_worker s") (auto simp: sy_work_def sy_abs_def split: if_splits)
  ultimately show ?thesis using sq_step.work r_into_rtranclp rtranclp.rtrancl_refl by metis
qed

lemma sy_go_abs:
  assumes go: "sy_go i s = Some t" and once: "sy_joined_once s"
  shows "sq_step\<^sup>*\<^sup>* (sy_abs s) (sy_abs t)"
proof (cases "sy_callers s ! i")
  case (PushTest item)
  with go have "sq_push item (sy_abs s) = (\<not> sy_stop s, sy_abs t)"
    by (auto simp: sy_defs sy_abs_def sq_push_def split: if_splits)
  then show ?thesis by (blast intro: sq_step.push)
next
  case StopSet
  with go have "sy_abs t = sq_request_stop (sy_abs s)"
    by (auto simp: sy_defs sy_abs_def sq_request_stop_def split: if_splits)
  then show ?thesis by (auto intro: sq_step.request_stop)
next
  case JoinWait
  with go once sy.go_places(1) [OF go] have "sq_join (sy_abs s) = Some (sy_abs t)"
    by (auto simp: sy_defs sy_abs_def sq_join_def sy_joined_once_def split: if_splits)
  then show ?thesis by (blast intro: sq_step.join)
qed (use go in \<open>auto simp: sy_defs sy_abs_def split: if_splits bool.splits\<close>)

lemma sy_step_abs:
  assumes "sy_step s t" "sy_inv s"
  shows "sq_step\<^sup>*\<^sup>* (sy_abs s) (sy_abs t)"
  using assms
proof (elim sy_stepE sy_moveE)
  assume "sy_inv s"
  then have once: "sy_joined_once s" by (simp add: sy_inv_def)
  { fix i assume "sy_go i s = Some t"
    then show ?thesis using once by (rule sy_go_abs) }
  { fix i call assume "sy_begin i call s = Some t"
    from sy_begin_state [OF this] have "sy_abs t = sy_abs s" by (simp add: sy_abs_def)
    then show ?thesis by simp }
  { assume "sy_spurious s = Some t"
    then have "sy_abs t = sy_abs s" by (auto simp: sy_spurious_def sy_abs_def split: if_splits)
    then show ?thesis by simp }
qed (rule sy_work_abs)

interpretation sync: simulation "\<lambda>s. \<exists>n. s = sy_new n" sy_step "\<lambda>q. q = sq_new" sq_step sy_abs sy_inv
proof unfold_locales
  fix s t :: "'a sync_queue"
  show "\<exists>n. s = sy_new n \<Longrightarrow> sy_abs s = sq_new" by (auto simp: sy_new_def sy_abs_def sq_new_def)
  show "\<exists>n. s = sy_new n \<Longrightarrow> sy_inv s" by (auto intro: sy_new_inv)
  show "sy_step s t \<Longrightarrow> sy_inv s \<Longrightarrow> sy_inv t" by (rule sy_step_inv)
  show "sy_step s t \<Longrightarrow> sy_inv s \<Longrightarrow> sq_step\<^sup>*\<^sup>* (sy_abs s) (sy_abs t)" by (rule sy_step_abs)
qed

section \<open>Every call returns\<close>

text \<open>
  What is left to do inside the class. A notification may cost the worker a round through
  the wait, an item a round of the loop.
\<close>

fun worker_left :: "'a sy_worker \<Rightarrow> nat" where
  "worker_left WAsleep = 0"
| "worker_left WDone = 0"
| "worker_left (WCancel pending) = length pending + 1"
| "worker_left (WSwapped pending) = length pending + 2"
| "worker_left WTake = 3"
| "worker_left WTest = 4"
| "worker_left WLock = 5"
| "worker_left WWoken = 5"
| "worker_left (WRun _) = 6"
| "worker_left (WHas _) = 7"

fun caller_left :: "'a sy_caller \<Rightarrow> nat" where
  "caller_left Outside = 0"
| "caller_left (PushLock _) = 17"
| "caller_left (PushTest _) = 16"
| "caller_left (PushUnlock _ _) = 7"
| "caller_left (PushNotify _) = 6"
| "caller_left StopLock = 13"
| "caller_left StopSet = 12"
| "caller_left StopUnlock = 11"
| "caller_left StopNotify = 10"
| "caller_left JoinLock = 4"
| "caller_left JoinTest = 3"
| "caller_left JoinWait = 2"
| "caller_left JoinUnlock = 1"
| "caller_left StoppedLock = 3"
| "caller_left StoppedRead = 2"
| "caller_left (StoppedUnlock _) = 1"

definition sy_left :: "'a sync_queue \<Rightarrow> nat" where
  "sy_left s =
     worker_left (sy_worker s) + 8 * length (sy_queue s) + sum_list (map caller_left (sy_callers s))"

lemma sy_move_left:
  assumes "sy_move s t"
  shows "sy_left t < sy_left s"
  using assms
proof (elim sy_moveE)
  assume "sy_work s = Some t"
  then show ?thesis
    by (cases "sy_worker s") (auto simp: sy_work_def sy_left_def split: if_splits list.splits)
next
  fix i assume go: "sy_go i s = Some t"
  then have i: "i < length (sy_callers s)" using sy_go_callers by blast
  have "sum_list (map caller_left (sy_callers t)) + caller_left (sy_callers s ! i) =
      sum_list (map caller_left (sy_callers s)) + caller_left (sy_callers t ! i)"
    by (rule sy.go_sum [OF go])
  moreover have "worker_left (sy_worker t) + 8 * length (sy_queue t) + caller_left (sy_callers t ! i) <
      worker_left (sy_worker s) + 8 * length (sy_queue s) + caller_left (sy_callers s ! i)"
    using go i by (cases "sy_callers s ! i") (auto simp: sy_defs split: if_splits bool.splits)
  ultimately show ?thesis by (simp add: sy_left_def)
qed

interpretation sync_moves: measured sy_move sy_left "\<lambda>_. True"
  by unfold_locales (simp_all add: sy_move_left)

text \<open>Who holds \<open>mu_\<close> can move; so can whoever holds \<open>join_mu_\<close> once the worker has returned.\<close>

lemma worker_holds_moves: "sy_data s \<Longrightarrow> worker_holds (sy_worker s) \<Longrightarrow> \<exists>t. sy_move s t"
proof -
  assume "sy_data s" "worker_holds (sy_worker s)"
  then have "sy_work s \<noteq> None"
    by (cases "sy_worker s"; cases "sy_queue s") (auto simp: sy_work_def sy_data_def)
  then show ?thesis by (auto intro: sy_move.work)
qed

lemma caller_moves:
  assumes "i < length (sy_callers s)" "sy_callers s ! i \<noteq> Outside"
    "sy_mu s = None \<or> caller_holds (sy_callers s ! i) \<or> notifies (sy_callers s ! i) \<or>
      caller_joins (sy_callers s ! i) \<or> sy_callers s ! i = JoinLock"
    "caller_joins (sy_callers s ! i) \<longrightarrow> sy_worker s = WDone"
    "sy_callers s ! i = JoinLock \<longrightarrow> sy_join_mu s = None"
  shows "\<exists>t. sy_move s t"
proof -
  have "\<exists>t. sy_line i (sy_callers s ! i) s = Some t"
    using assms(2-)
    by (cases "sy_callers s ! i") (auto simp: sy_line_def sy_lock_def sy_unlock_def split: bool.splits)
  with assms(1) have "\<exists>t. sy_go i s = Some t" by (simp add: sy_go_def)
  then show ?thesis by (auto intro: sy_move.go)
qed

text \<open>Where nothing can move, nobody is in a call and the worker sleeps with nothing to do or is gone.\<close>

lemma sy_stuck:
  assumes inv: "sy_inv s" and stuck: "\<nexists>t. sy_move s t"
  shows "(\<forall>c \<in> set (sy_callers s). c = Outside) \<and>
    (if sy_stop s then sy_worker s = WDone else sy_worker s = WAsleep \<and> sy_queue s = [])"
proof -
  have locks: "sy_locks s" and data: "sy_data s" and wakes: "sy_wakes s" using inv by (auto simp: sy_inv_def)
  have at: "c = Outside" if "c \<in> set (sy_callers s)" "sy_mu s = None \<or> caller_holds c \<or> notifies c \<or> caller_joins c \<or> c = JoinLock"
    "caller_joins c \<longrightarrow> sy_worker s = WDone" "c = JoinLock \<longrightarrow> sy_join_mu s = None" for c
    using that caller_moves [of _ s] stuck by (auto simp: in_set_conv_nth)
  have mu: "sy_mu s = None"
  proof (rule ccontr)
    assume "sy_mu s \<noteq> None"
    then obtain th where th: "sy_mu s = Some th" by blast
    show False
    proof (cases th)
      case Worker
      with th locks worker_holds_moves [OF data] stuck show False by (simp add: sy_locks_def lock_held_def)
    next
      case (Caller i)
      with th locks have "i < length (sy_callers s)" "caller_holds (sy_callers s ! i)"
        by (auto simp: sy_locks_def lock_held_def)
      with at [of "sy_callers s ! i"] nth_mem [of i "sy_callers s"] show False
        by (cases "sy_callers s ! i") auto
    qed
  qed
  have "sy_work s = None" using stuck sy_move.work by (cases "sy_work s") blast+
  with mu data have worker: "sy_worker s = WAsleep \<or> sy_worker s = WDone"
    by (cases "sy_worker s")
      (auto simp: sy_work_def sy_data_def split: if_splits list.splits)
  have awake: "\<not> notifies c" if "c \<in> set (sy_callers s)" for c
    using at [OF that] mu by (cases c) auto
  then have ended: "sy_worker s = WDone" if "sy_stop s \<or> sy_queue s \<noteq> []"
    using wakes worker that by (auto simp: sy_wakes_def)
  have joins: "\<not> caller_joins c" if "c \<in> set (sy_callers s)" for c
  proof
    assume "caller_joins c"
    moreover from this have "has_stopped c" by (cases c) auto
    then have "sy_worker s = WDone" using data that ended unfolding sy_data_def by blast
    ultimately show False using at [OF that] by (cases c) auto
  qed
  have "sy_join_mu s = None"
  proof (rule ccontr)
    assume "sy_join_mu s \<noteq> None"
    then obtain th where th: "sy_join_mu s = Some th" by blast
    moreover from th locks have "th \<noteq> Worker" by (auto simp: sy_locks_def lock_held_def)
    ultimately obtain i where "sy_join_mu s = Some (Caller i)" by (cases th) auto
    then have "i < length (sy_callers s)" "caller_joins (sy_callers s ! i)"
      using locks unfolding sy_locks_def lock_held_def by blast+
    with joins nth_mem show False by blast
  qed
  then have "\<forall>c \<in> set (sy_callers s). c = Outside" using at mu joins by blast
  moreover have "sy_worker s = WDone \<longrightarrow> sy_stop s" using data by (auto simp: sy_data_def)
  ultimately show ?thesis using worker ended by auto
qed

text \<open>Whether every thread inside the class is blocked, and runs in which each action moves one.\<close>

definition sy_blocked :: "'a sync_queue \<Rightarrow> bool" where
  "sy_blocked s \<longleftrightarrow> sy_work s = None \<and> (\<forall>i < length (sy_callers s). sy_go i s = None)"

lemma sy_blocked_iff: "sy_blocked s \<longleftrightarrow> (\<nexists>t. sy_move s t)"
proof
  assume blocked: "sy_blocked s"
  have "sy_go i s = None" for i
    using blocked by (cases "i < length (sy_callers s)") (auto simp: sy_blocked_def sy_go_def)
  with blocked show "\<nexists>t. sy_move s t" by (auto simp: sy_blocked_def elim: sy_moveE)
next
  assume "\<nexists>t. sy_move s t"
  then show "sy_blocked s" unfolding sy_blocked_def by (metis not_None_eq sy_move.intros)
qed

fun sy_moves :: "'a sy_action list \<Rightarrow> 'a sync_queue \<Rightarrow> 'a sync_queue option" where
  "sy_moves [] s = Some s"
| "sy_moves (Work # as) s = Option.bind (sy_work s) (sy_moves as)"
| "sy_moves (Go i # as) s = Option.bind (sy_go i s) (sy_moves as)"
| "sy_moves (_ # as) s = None"

lemma sy_moves_relpow: "sy_moves as s = Some t \<Longrightarrow> (sy_move ^^ length as) s t"
proof (induction as s rule: sy_moves.induct)
  case (2 as s)
  then obtain u where "sy_work s = Some u" "sy_moves as u = Some t"
    by (auto simp: bind_eq_Some_conv)
  with 2 show ?case by (auto intro: relpowp_Suc_I2 sy_move.work simp del: relpowp.simps)
next
  case (3 i as s)
  then obtain u where "sy_go i s = Some u" "sy_moves as u = Some t"
    by (auto simp: bind_eq_Some_conv)
  with 3 show ?case by (auto intro: relpowp_Suc_I2 sy_move.go simp del: relpowp.simps)
qed simp_all

lemma sy_run_abs: "sy_step\<^sup>*\<^sup>* (sy_new n) s \<Longrightarrow> sq_step\<^sup>*\<^sup>* sq_new (sy_abs s)"
  using sync.run_abs [of "sy_new n" s] by fastforce

lemma moves_are_steps: "(sy_move ^^ m) s t \<Longrightarrow> sy_step\<^sup>*\<^sup>* s t"
  by (induction m arbitrary: t) (auto intro: rtranclp.rtrancl_into_rtrancl sy_step.move)

text \<open>
  Two threads push and stop: the worker goes to sleep, an item is queued, and the push has
  still to notify; then the moves that are left.
\<close>

definition sy_example :: "string sy_action list" where
  "sy_example = [Work, Work, Begin 0 (Push ''a''), Go 0, Go 0, Begin 1 Stop]"

definition sy_example_moves :: "string sy_action list" where
  "sy_example_moves = [Go 0, Go 0, Work, Work, Work, Work, Go 1, Go 1, Go 1, Work, Go 1, Go 1, Go 1,
     Work, Work, Work, Work, Work, Go 1, Go 1]"

lemmas sy_example_defs =
  sy_example_def sy_example_moves_def sy_run_def sy_new_def sy_defs numeral_2_eq_2

lemma sy_example_moves_length: "length sy_example_moves = 20"
  by (simp add: sy_example_moves_def)

section \<open>Properties\<close>

text \<open>
  C7. The locking of the serial queue is right: with any number of threads inside \<open>push\<close>,
  \<open>stop\<close> and \<open>stopped\<close>, at any of their lines, and with spurious wakeups, what the class does
  is a run of the queue whose calls and turns are atomic; a push has returned true only for
  items that run takes; the worker is never asleep over work or a stop without a thread that
  is about to wake it; and the thread is joined at most once, by one caller at a time.
\<close>

theorem serial_queue_locking_is_atomic:
  assumes "sy_step\<^sup>*\<^sup>* (sy_new n) s"
  shows "sq_step\<^sup>*\<^sup>* sq_new (sy_abs s) \<and>
    mset (map fst (filter snd (sy_pushed s))) \<subseteq># mset (sq_taken (sy_abs s)) \<and>
    (sy_worker s = WAsleep \<and> (sy_stop s \<or> sy_queue s \<noteq> []) \<longrightarrow> (\<exists>c \<in> set (sy_callers s). notifies c)) \<and>
    sy_joins s \<le> 1 \<and> length (filter caller_joins (sy_callers s)) \<le> 1"
proof -
  have inv: "sy_inv s" using sync.run_keeps assms by blast
  have "sq_step\<^sup>*\<^sup>* sq_new (sy_abs s)" using assms by (rule sy_run_abs)
  moreover have "mset (map fst (filter snd (sy_pushed s))) \<subseteq># mset (sq_taken (sy_abs s))"
    using inv by (simp add: sy_inv_def sy_books_def sy_abs_def mset_subset_eq_exists_conv) metis
  moreover have "sy_joins s \<le> 1" using inv by (auto simp: sy_inv_def sy_joined_once_def)
  moreover have "length (filter caller_joins (sy_callers s)) \<le> 1"
    by (rule filter_at_most_one) (use joining_alone inv in \<open>auto simp: sy_inv_def\<close>)
  ultimately show ?thesis using inv by (auto simp: sy_inv_def sy_wakes_def)
qed

theorem serial_queue_locking_is_atomic_witness:
  "sq_step\<^sup>*\<^sup>* sq_new (sy_abs (sy_run sy_example (sy_new 2))) \<and>
    sy_worker (sy_run sy_example (sy_new 2)) = WAsleep \<and>
    sy_queue (sy_run sy_example (sy_new 2)) = [''a''] \<and>
    (\<exists>c \<in> set (sy_callers (sy_run sy_example (sy_new 2))). notifies c)"
  using serial_queue_locking_is_atomic [OF sy_run_reachable, of sy_example 2] by (simp add: sy_example_defs)

text \<open>
  C3. Every call of the serial queue returns and no accepted item is left behind: from any
  state its threads reach, they make only boundedly many moves until the next call or
  spurious wakeup, whatever the scheduler does, and the only states in which none of them can
  move have every call returned, the worker gone if the queue was stopped and asleep over an
  empty queue otherwise, and a handler call for each push that returned true and no other.
\<close>

theorem serial_queue_calls_return:
  assumes "sy_step\<^sup>*\<^sup>* (sy_new n) s" "(sy_move ^^ m) s t"
  shows "m \<le> sy_left s \<and>
    (sy_blocked t \<longrightarrow> (\<forall>c \<in> set (sy_callers t). c = Outside) \<and>
       (if sy_stop t then sy_worker t = WDone else sy_worker t = WAsleep \<and> sy_queue t = []) \<and>
       mset (map event_item (sy_log t)) = mset (map fst (filter snd (sy_pushed t))))"
proof -
  have run: "sy_step\<^sup>*\<^sup>* (sy_new n) t" using assms(1) moves_are_steps [OF assms(2)] by (rule rtranclp_trans)
  have inv: "sy_inv t" using sync.run_keeps run by blast
  { assume "sy_blocked t"
    with sy_stuck [OF inv] have stuck: "\<forall>c \<in> set (sy_callers t). c = Outside"
      "if sy_stop t then sy_worker t = WDone else sy_worker t = WAsleep \<and> sy_queue t = []"
      by (simp_all add: sy_blocked_iff)
    have "sy_taken t = map event_item (sy_log t) @ sq_in_hand (sy_abs t) @ sy_queue t"
      using sq.run_accounts [OF refl sy_run_abs [OF run]] by (simp add: sy_abs_def sq_answered_def)
    moreover have "sq_in_hand (sy_abs t) = []" "sy_queue t = []"
      using stuck(2) inv by (auto simp: sy_abs_def sq_in_hand_def sy_inv_def sy_data_def split: if_splits)
    moreover have "sum_list (map unreturned (sy_callers t)) = {#}"
      using stuck(1) by (rule sum_list_unreturned)
    ultimately have "mset (map event_item (sy_log t)) = mset (map fst (filter snd (sy_pushed t)))"
      using inv by (simp add: sy_inv_def sy_books_def)
    with stuck have "(\<forall>c \<in> set (sy_callers t). c = Outside) \<and>
       (if sy_stop t then sy_worker t = WDone else sy_worker t = WAsleep \<and> sy_queue t = []) \<and>
       mset (map event_item (sy_log t)) = mset (map fst (filter snd (sy_pushed t)))" by simp }
  then show ?thesis using sync_moves.moves_bounded [OF assms(2) TrueI] by simp
qed

theorem serial_queue_calls_return_witness:
  "\<exists>t. (sy_move ^^ 20) (sy_run sy_example (sy_new 2)) t \<and> 20 \<le> sy_left (sy_run sy_example (sy_new 2)) \<and>
    sy_callers t = [Outside, Outside] \<and> sy_worker t = WDone \<and>
    mset (map event_item (sy_log t)) = mset (map fst (filter snd (sy_pushed t)))"
proof -
  obtain t where runs: "sy_moves sy_example_moves (sy_run sy_example (sy_new 2)) = Some t"
    and t: "sy_blocked t" "sy_callers t = [Outside, Outside]" "sy_worker t = WDone"
    by (simp add: sy_example_defs sy_blocked_def less_Suc_eq)
  have "(sy_move ^^ 20) (sy_run sy_example (sy_new 2)) t"
    using sy_moves_relpow [OF runs] unfolding sy_example_moves_length .
  from serial_queue_calls_return [OF sy_run_reachable this] t this show ?thesis by blast
qed

end
