(* ===== verification/Transaction_Bridge.thy ===== *)
theory Transaction_Bridge
  imports Reply_Stream Libflatpak Work_Queue Installations
begin

text \<open>
  native/src/transaction_bridge.cpp: the handle a batch of operations is collected in, the
  signal handlers that turn a running transaction into frames, and the worker thread of one
  installation with its queue and its current cancellable. libflatpak's transaction is a
  parameter: whether each operation can be added, and the signals and the result of a run.
\<close>

section \<open>Frames and signal handlers\<close>

definition tx_post_sentinel :: "port \<Rightarrow> post" where
  "tx_post_sentinel p = PostCopy p [0x01]"

datatype FlatpakTransactionOperationType =
    FLATPAK_TRANSACTION_OPERATION_INSTALL
  | FLATPAK_TRANSACTION_OPERATION_UPDATE
  | FLATPAK_TRANSACTION_OPERATION_INSTALL_BUNDLE
  | FLATPAK_TRANSACTION_OPERATION_UNINSTALL
  | FLATPAK_TRANSACTION_OPERATION_LAST_TYPE

fun op_kind_str :: "FlatpakTransactionOperationType \<Rightarrow> string" where
  "op_kind_str FLATPAK_TRANSACTION_OPERATION_INSTALL = ''install''"
| "op_kind_str FLATPAK_TRANSACTION_OPERATION_UPDATE = ''update''"
| "op_kind_str FLATPAK_TRANSACTION_OPERATION_INSTALL_BUNDLE = ''install''"
| "op_kind_str FLATPAK_TRANSACTION_OPERATION_UNINSTALL = ''uninstall''"
| "op_kind_str _ = ''unknown''"

record TxOperation =
  op_ref :: cstr
  op_type :: FlatpakTransactionOperationType

record ProgressCtx =
  cx_port :: port
  cx_ref :: string
  cx_op_kind :: string

text \<open>
  What a run emits: an operation begins, with the progress object it will report on; a
  progress object changes (progress, bytes, status); an operation is done.
\<close>

datatype tx_signal =
    NewOperation TxOperation nat
  | ProgressChanged nat i32 u64 cstr
  | OperationDone TxOperation

definition progress_frame :: "port \<Rightarrow> TransactionProgress \<Rightarrow> post" where
  "progress_frame p t = post_glaze p 0x10 (TransactionProgress_val t)"

definition on_new_operation :: "port \<Rightarrow> TxOperation \<Rightarrow> post \<times> ProgressCtx" where
  "on_new_operation p op =
     (progress_frame p
        \<lparr>t_op = op_kind_str (op_type op), t_ref = safe_str (op_ref op), t_progress = 0,
         t_bytesTransferred = 0, t_bytesTotal = 0, t_status = ''Starting''\<rparr>,
      \<lparr>cx_port = p, cx_ref = safe_str (op_ref op), cx_op_kind = op_kind_str (op_type op)\<rparr>)"

definition on_progress_changed :: "ProgressCtx \<Rightarrow> i32 \<Rightarrow> u64 \<Rightarrow> cstr \<Rightarrow> post" where
  "on_progress_changed ctx progress bytes status =
     progress_frame (cx_port ctx)
       \<lparr>t_op = cx_op_kind ctx, t_ref = cx_ref ctx, t_progress = progress,
        t_bytesTransferred = bytes, t_bytesTotal = 0, t_status = safe_str status\<rparr>"

definition on_operation_done :: "port \<Rightarrow> TxOperation \<Rightarrow> post" where
  "on_operation_done p op =
     progress_frame p
       \<lparr>t_op = op_kind_str (op_type op), t_ref = safe_str (op_ref op), t_progress = 100,
        t_bytesTransferred = 0, t_bytesTotal = 0, t_status = ''Done''\<rparr>"

text \<open>The handlers connected to each progress object, in connection order.\<close>

fun run_signals :: "port \<Rightarrow> (nat \<Rightarrow> ProgressCtx list) \<Rightarrow> tx_signal list \<Rightarrow> post list" where
  "run_signals p ctxs [] = []"
| "run_signals p ctxs (NewOperation op prog # sigs) =
     (case on_new_operation p op of
        (frame, ctx) \<Rightarrow> frame # run_signals p (ctxs(prog := ctxs prog @ [ctx])) sigs)"
| "run_signals p ctxs (ProgressChanged prog progress bytes status # sigs) =
     map (\<lambda>ctx. on_progress_changed ctx progress bytes status) (ctxs prog) @ run_signals p ctxs sigs"
| "run_signals p ctxs (OperationDone op # sigs) = on_operation_done p op # run_signals p ctxs sigs"

section \<open>The transaction library and a pending batch\<close>

datatype tx_op = AddInstall string string | AddUpdate string | AddUninstall string | AddInstallBundle string

text \<open>
  The answers of the two handlers that decide: go ahead, and the first remote for a runtime
  dependency.
\<close>

definition on_ready :: bool where "on_ready = True"

definition on_choose_remote_for_ref :: "string list \<Rightarrow> int" where
  "on_choose_remote_for_ref remotes = 0"

record tx_library =
  tl_new :: "unit gresult"
  tl_add :: "tx_op list \<Rightarrow> tx_op \<Rightarrow> unit gresult"
  tl_run :: "bool \<Rightarrow> (string list \<Rightarrow> int) \<Rightarrow> tx_op list \<Rightarrow> nat set \<Rightarrow> nat option \<Rightarrow>
    tx_signal list \<times> unit gresult"

text \<open>
  A transaction object is its number and the operations added to it, a cancellable its
  number; the pointers to them may be NULL.
\<close>

record PendingTx =
  px_tx :: nat
  px_ops :: "tx_op list"
  px_cancel :: "nat option"
  px_port :: port

text \<open>
  \<open>execute\<close>: the run sees the cancellables signalled so far and its own. A failed run that
  set no error is the undefined \<open>err->message\<close>.
\<close>

definition tx_execute :: "tx_library \<Rightarrow> nat set \<Rightarrow> PendingTx \<Rightarrow> post list option" where
  "tx_execute lib cancelled item =
     (case tl_run lib on_ready on_choose_remote_for_ref (px_ops item) cancelled (px_cancel item) of
        (sigs, result) \<Rightarrow>
          (let frames = run_signals (px_port item) (\<lambda>_. []) sigs
           in case result of
                Inr _ \<Rightarrow> Some (frames @ [tx_post_sentinel (px_port item)])
              | Inl None \<Rightarrow> None
              | Inl (Some e) \<Rightarrow> Some (frames @ [post_error (px_port item) (g_message e)])))"

section \<open>The worker\<close>

datatype tw_pc = TwWait | TwRun PendingTx | TwClear PendingTx | TwDone

record TransactionWorker =
  tw_queue :: "PendingTx list"
  tw_current_cancel :: "nat option"
  tw_stop :: bool
  tw_pc :: tw_pc
  tw_cancelled :: "nat set"
  tw_executed :: "PendingTx list"
  tw_taken :: "PendingTx list"

definition tw_new :: TransactionWorker where
  "tw_new = \<lparr>tw_queue = [], tw_current_cancel = None, tw_stop = False, tw_pc = TwWait,
             tw_cancelled = {}, tw_executed = [], tw_taken = []\<rparr>"

definition tw_enqueue :: "PendingTx \<Rightarrow> TransactionWorker \<Rightarrow> TransactionWorker" where
  "tw_enqueue item w = w\<lparr>tw_queue := tw_queue w @ [item], tw_taken := tw_taken w @ [item]\<rparr>"

definition tw_cancel_current :: "TransactionWorker \<Rightarrow> TransactionWorker" where
  "tw_cancel_current w =
     (case tw_current_cancel w of
        None \<Rightarrow> w
      | Some c \<Rightarrow> w\<lparr>tw_cancelled := insert c (tw_cancelled w)\<rparr>)"

definition tw_request_stop :: "TransactionWorker \<Rightarrow> TransactionWorker" where
  "tw_request_stop w = w\<lparr>tw_stop := True\<rparr>"

text \<open>The loop: take an item, execute it, clear the cancellable. It returns on stop.\<close>

definition tw_loop :: "TransactionWorker \<Rightarrow> TransactionWorker option" where
  "tw_loop w =
     (case tw_pc w of
        TwWait \<Rightarrow>
          (if tw_stop w then Some (w\<lparr>tw_pc := TwDone\<rparr>)
           else (case tw_queue w of
               [] \<Rightarrow> None
             | item # rest \<Rightarrow>
                 Some (w\<lparr>tw_queue := rest, tw_current_cancel := px_cancel item,
                         tw_pc := TwRun item\<rparr>)))
      | TwRun item \<Rightarrow> Some (w\<lparr>tw_executed := tw_executed w @ [item], tw_pc := TwClear item\<rparr>)
      | TwClear item \<Rightarrow> Some (w\<lparr>tw_current_cancel := None, tw_pc := TwWait\<rparr>)
      | TwDone \<Rightarrow> None)"

inductive tw_step :: "TransactionWorker \<Rightarrow> TransactionWorker \<Rightarrow> bool" where
  enqueue: "tw_step w (tw_enqueue item w)"
| cancel: "tw_step w (tw_cancel_current w)"
| request_stop: "tw_step w (tw_request_stop w)"
| work: "tw_loop w = Some w' \<Longrightarrow> tw_step w w'"

inductive_cases tw_stepE: "tw_step w w'"

section \<open>Handles\<close>

record TxHandle =
  h_tx :: "(nat \<times> tx_op list) option"
  h_cancel :: "nat option"
  h_port :: port

text \<open>\<open>fresh\<close> numbers the two objects created.\<close>

definition flatpak_tx_create :: "tx_library \<Rightarrow> nat \<Rightarrow> port \<Rightarrow> post list \<times> TxHandle option" where
  "flatpak_tx_create lib fresh p =
     (case tl_new lib of
        Inl err \<Rightarrow> ([post_error p (err_or err ''failed to create transaction'')], None)
      | Inr _ \<Rightarrow> ([], Some \<lparr>h_tx = Some (fresh, []), h_cancel = Some fresh, h_port = p\<rparr>))"

fun add_failed_text :: "tx_op \<Rightarrow> string" where
  "add_failed_text (AddInstall _ _) = ''add_install failed''"
| "add_failed_text (AddUpdate _) = ''add_update failed''"
| "add_failed_text (AddUninstall _) = ''add_uninstall failed''"
| "add_failed_text (AddInstallBundle _) = ''add_install_bundle failed''"

text \<open>The four \<open>flatpak_tx_add_*\<close>, which differ in the library call and the default text.\<close>

definition flatpak_tx_add :: "tx_library \<Rightarrow> tx_op \<Rightarrow> TxHandle \<Rightarrow> post list \<times> TxHandle" where
  "flatpak_tx_add lib op h =
     (case h_tx h of
        None \<Rightarrow> ([], h)
      | Some (tx, ops) \<Rightarrow>
          (case tl_add lib ops op of
             Inl err \<Rightarrow> ([post_error (h_port h) (err_or err (add_failed_text op))], h)
           | Inr _ \<Rightarrow> ([], h\<lparr>h_tx := Some (tx, ops @ [op])\<rparr>)))"

text \<open>Both pointers go to the worker.\<close>

definition flatpak_tx_submit :: "TxHandle \<Rightarrow> TransactionWorker \<Rightarrow> post list \<times> TxHandle \<times> TransactionWorker" where
  "flatpak_tx_submit h w =
     (case h_tx h of
        None \<Rightarrow> ([post_error (h_port h) ''No transaction created''], h, w)
      | Some (tx, ops) \<Rightarrow>
          ([], h\<lparr>h_tx := None, h_cancel := None\<rparr>,
           tw_enqueue \<lparr>px_tx = tx, px_ops = ops, px_cancel = h_cancel h, px_port = h_port h\<rparr> w))"

text \<open>A worker with its installation; the name may be that of any installation.\<close>

definition flatpak_worker_create :: "'i installations \<Rightarrow> cstr \<Rightarrow> ('i \<times> TransactionWorker) option" where
  "flatpak_worker_create fs installation =
     map_option (\<lambda>inst. (inst, tw_new)) (open_installation fs installation)"

section \<open>The worker's accounts\<close>

definition tw_in_hand :: "TransactionWorker \<Rightarrow> PendingTx list" where
  "tw_in_hand w = (case tw_pc w of TwRun item \<Rightarrow> [item] | _ \<Rightarrow> [])"

lemmas tw_defs = tw_enqueue_def tw_cancel_current_def tw_request_stop_def tw_loop_def tw_in_hand_def

lemma tw_step_accounts:
  assumes "tw_step w w'" "tw_taken w = tw_executed w @ tw_in_hand w @ tw_queue w"
  shows "tw_taken w' = tw_executed w' @ tw_in_hand w' @ tw_queue w'"
  using assms
  by (elim tw_stepE) (auto simp: tw_defs split: option.splits tw_pc.splits if_splits list.splits)

interpretation tx_worker: serial_worker "\<lambda>w. w = tw_new" tw_step tw_taken tw_executed tw_in_hand tw_queue
  by unfold_locales (auto simp: tw_new_def tw_in_hand_def tw_step_accounts)

text \<open>
  Until it is told to stop, the worker executes what it was given if it gets its turns: three
  per transaction, to take it, to run it and to clear the cancellable.
\<close>

definition tw_effort :: "TransactionWorker \<Rightarrow> nat" where
  "tw_effort w = 3 * length (tw_executed w) +
     (case tw_pc w of TwClear _ \<Rightarrow> 0 | TwWait \<Rightarrow> 1 | TwDone \<Rightarrow> 1 | TwRun _ \<Rightarrow> 2)"

definition tw_live :: "TransactionWorker \<Rightarrow> bool" where
  "tw_live w \<longleftrightarrow> \<not> tw_stop w \<and> tw_pc w \<noteq> TwDone"

interpretation tx_live: live_worker "\<lambda>w. w = tw_new" tw_step tw_taken tw_executed tw_in_hand tw_queue
    tw_loop tw_live tw_effort 3
proof unfold_locales
  fix s t :: TransactionWorker
  show "tw_loop s = Some t \<Longrightarrow> tw_step s t" by (rule tw_step.work)
  show "tw_live s \<Longrightarrow> tw_loop s = Some t \<Longrightarrow> tw_in_hand s @ tw_queue s \<noteq> [] \<Longrightarrow> tw_effort s < tw_effort t"
    by (auto simp: tw_effort_def tw_live_def tw_defs split: tw_pc.splits list.splits)
  show "tw_live s \<Longrightarrow> tw_loop s = None \<Longrightarrow> tw_in_hand s @ tw_queue s = []"
    by (auto simp: tw_live_def tw_defs split: tw_pc.splits list.splits)
  show "tw_step s t \<Longrightarrow> tw_effort s \<le> tw_effort t"
    by (elim tw_stepE)
      (auto simp: tw_effort_def tw_defs split: tw_pc.splits list.splits option.splits if_splits)
  show "tw_effort s < 3 * Suc (length (tw_executed s))"
    by (auto simp: tw_effort_def split: tw_pc.splits)
  show "tw_step s t \<Longrightarrow> \<exists>later. tw_taken t = tw_taken s @ later"
    by (elim tw_stepE) (auto simp: tw_defs split: tw_pc.splits list.splits option.splits if_splits)
  show "tw_step s t \<Longrightarrow> length (tw_executed s) \<le> length (tw_executed t)"
    by (elim tw_stepE) (auto simp: tw_defs split: tw_pc.splits list.splits option.splits if_splits)
qed

text \<open>The cancellable is the one of the transaction in hand, from before it runs until after.\<close>

definition tw_cancel_inv :: "TransactionWorker \<Rightarrow> bool" where
  "tw_cancel_inv w \<longleftrightarrow>
     tw_current_cancel w =
       (case tw_pc w of TwRun item \<Rightarrow> px_cancel item | TwClear item \<Rightarrow> px_cancel item | _ \<Rightarrow> None)"

lemma tw_step_cancel_inv: "tw_step w w' \<Longrightarrow> tw_cancel_inv w \<Longrightarrow> tw_cancel_inv w'"
  by (elim tw_stepE)
    (auto simp: tw_defs tw_cancel_inv_def split: option.splits tw_pc.splits if_splits list.splits)

lemma tw_run_cancel_inv: "tw_step\<^sup>*\<^sup>* tw_new w \<Longrightarrow> tw_cancel_inv w"
proof (induction rule: rtranclp_induct)
  case base
  show ?case by (simp add: tw_cancel_inv_def tw_new_def)
next
  case (step w w')
  then show ?case by (blast intro: tw_step_cancel_inv)
qed

section \<open>What a run posts\<close>

fun ctxs_after :: "port \<Rightarrow> (nat \<Rightarrow> ProgressCtx list) \<Rightarrow> tx_signal list \<Rightarrow> nat \<Rightarrow> ProgressCtx list" where
  "ctxs_after p ctxs [] = ctxs"
| "ctxs_after p ctxs (NewOperation op prog # sigs) =
     ctxs_after p (ctxs(prog := ctxs prog @ [snd (on_new_operation p op)])) sigs"
| "ctxs_after p ctxs (_ # sigs) = ctxs_after p ctxs sigs"

lemma run_signals_append:
  "run_signals p ctxs (xs @ ys) = run_signals p ctxs xs @ run_signals p (ctxs_after p ctxs xs) ys"
  by (induction p ctxs xs rule: ctxs_after.induct) (auto simp: case_prod_beta fun_upd_def)

text \<open>The operations announced with a progress object, in order.\<close>

fun announced :: "nat \<Rightarrow> tx_signal list \<Rightarrow> TxOperation list" where
  "announced prog [] = []"
| "announced prog (NewOperation op prog' # sigs) =
     (if prog' = prog then op # announced prog sigs else announced prog sigs)"
| "announced prog (_ # sigs) = announced prog sigs"

lemma ctxs_after_announced:
  "ctxs_after p ctxs sigs prog =
     ctxs prog @ map (\<lambda>op. snd (on_new_operation p op)) (announced prog sigs)"
  by (induction p ctxs sigs rule: ctxs_after.induct) (auto simp: fun_upd_def)

lemma run_signals_frames:
  "\<forall>prog. \<forall>ctx \<in> set (ctxs prog). cx_port ctx = p \<Longrightarrow> x \<in> set (run_signals p ctxs sigs) \<Longrightarrow>
     post_port x = p \<and> take 1 (post_bytes x) = [0x10]"
proof (induction p ctxs sigs rule: run_signals.induct)
  case (2 p ctxs op prog sigs)
  then show ?case
    by (auto simp: on_new_operation_def progress_frame_def post_glaze_def post_framed_def fun_upd_def
        split: if_splits)
next
  case (3 p ctxs prog progress bytes status sigs)
  then show ?case
    by (auto simp: on_progress_changed_def progress_frame_def post_glaze_def post_framed_def)
next
  case (4 p ctxs op sigs)
  then show ?case
    by (auto simp: on_operation_done_def progress_frame_def post_glaze_def post_framed_def)
qed simp

section \<open>Schedules\<close>

datatype tw_action = TwEnqueue PendingTx | TwCancel | TwStop | TwWork

fun tw_exec :: "tw_action \<Rightarrow> TransactionWorker \<Rightarrow> TransactionWorker" where
  "tw_exec (TwEnqueue item) w = tw_enqueue item w"
| "tw_exec TwCancel w = tw_cancel_current w"
| "tw_exec TwStop w = tw_request_stop w"
| "tw_exec TwWork w = (case tw_loop w of None \<Rightarrow> w | Some w' \<Rightarrow> w')"

definition tw_run :: "tw_action list \<Rightarrow> TransactionWorker \<Rightarrow> TransactionWorker" where
  "tw_run as w = fold tw_exec as w"

lemma tw_run_reachable: "tw_step\<^sup>*\<^sup>* w (tw_run as w)"
proof (induction as arbitrary: w)
  case (Cons a as)
  have "tw_step\<^sup>*\<^sup>* w (tw_exec a w)"
    by (cases a) (auto intro: tw_step.intros split: option.splits)
  with Cons show ?case by (simp add: tw_run_def rtranclp_trans)
qed (simp add: tw_run_def)

lemmas tw_run_defs = tw_run_def tw_new_def tw_defs

lemma tw_done_stays:
  "tw_step\<^sup>*\<^sup>* w w' \<Longrightarrow> tw_pc w = TwDone \<Longrightarrow>
     tw_pc w' = TwDone \<and> tw_executed w' = tw_executed w \<and> (\<exists>more. tw_queue w' = tw_queue w @ more)"
proof (induction rule: rtranclp_induct)
  case (step w' w'')
  then show ?case
    by (elim tw_stepE) (auto simp: tw_defs split: option.splits)
qed simp

lemma tw_exec_live: "tw_live w \<Longrightarrow> a \<noteq> TwStop \<Longrightarrow> tw_live (tw_exec a w)"
  by (cases a) (auto simp: tw_live_def tw_defs split: option.splits tw_pc.splits list.splits)

lemma tw_run_serves:
  "tw_live w \<Longrightarrow> TwStop \<notin> set as \<Longrightarrow>
     served tw_step tw_loop tw_live (length (filter (\<lambda>a. a = TwWork) as)) w (tw_run as w)"
proof (induction as rule: rev_induct)
  case Nil
  then show ?case by (simp add: tw_run_def served.start)
next
  case (snoc a as)
  let ?r = "tw_run as w" and ?n = "length (filter (\<lambda>a. a = TwWork) as)"
  have served: "served tw_step tw_loop tw_live ?n w ?r" and live: "tw_live (tw_exec a ?r)"
    using snoc tx_live.served_live tw_exec_live by (auto simp del: tw_exec.simps)
  have "served tw_step tw_loop tw_live ?n w (tw_exec a ?r)" if "a \<noteq> TwWork"
    using served live that snoc.prems(2) by (cases a) (auto intro: served.other tw_step.intros)
  moreover have "served tw_step tw_loop tw_live (Suc ?n) w (tw_exec TwWork ?r)" if "a = TwWork"
    using served live that by (cases "tw_loop ?r") (auto intro: served.turn served.waits)
  ultimately show ?case by (auto simp: tw_run_def)
qed

lemma tw_step_done_stopped: "tw_step w w' \<Longrightarrow> (tw_pc w = TwDone \<longrightarrow> tw_stop w) \<Longrightarrow> tw_pc w' = TwDone \<longrightarrow> tw_stop w'"
  by (elim tw_stepE) (auto simp: tw_defs split: option.splits tw_pc.splits if_splits list.splits)

lemma tw_done_stopped: "tw_step\<^sup>*\<^sup>* tw_new w \<Longrightarrow> tw_pc w = TwDone \<longrightarrow> tw_stop w"
proof (induction rule: rtranclp_induct)
  case (step w w')
  then show ?case by (blast dest: tw_step_done_stopped)
qed (simp add: tw_new_def)

section \<open>Properties\<close>

text \<open>
  C16. The frames of one executed transaction all go to its port: any number of 0x10 progress
  frames and then one end frame, 0x01 exactly when \<open>flatpak_transaction_run\<close> succeeded and
  0x02 with its message otherwise.
\<close>

theorem transaction_ends_once:
  assumes "tl_run lib on_ready on_choose_remote_for_ref (px_ops item) cancelled (px_cancel item) = (sigs, result)" "sets_error result"
  shows "\<exists>frames. tx_execute lib cancelled item =
      Some (frames @ [case result of
          Inr _ \<Rightarrow> PostCopy (px_port item) [0x01]
        | Inl err \<Rightarrow> post_error (px_port item) (g_message (the err))]) \<and>
    (\<forall>x \<in> set frames. post_port x = px_port item \<and> take 1 (post_bytes x) = [0x10])"
proof -
  have "\<forall>x \<in> set (run_signals (px_port item) (\<lambda>_. []) sigs).
      post_port x = px_port item \<and> take 1 (post_bytes x) = [0x10]"
    using run_signals_frames [of "\<lambda>_. []"] by auto
  moreover have "tx_execute lib cancelled item = Some (run_signals (px_port item) (\<lambda>_. []) sigs @
      [case result of Inr _ \<Rightarrow> PostCopy (px_port item) [0x01]
        | Inl err \<Rightarrow> post_error (px_port item) (g_message (the err))])"
    using assms
    by (auto simp: tx_execute_def sets_error_def tx_post_sentinel_def Let_def
        split: sum.splits option.splits)
  ultimately show ?thesis by blast
qed

definition example_op :: TxOperation where
  "example_op = \<lparr>op_ref = Some ''app/a.B/x86_64/stable'', op_type = FLATPAK_TRANSACTION_OPERATION_UPDATE\<rparr>"

definition example_tx_library :: tx_library where
  "example_tx_library =
     \<lparr>tl_new = Inr (),
      tl_add = (\<lambda>ops op. if op = AddUpdate '''' then Inl None else Inr ()),
      tl_run = (\<lambda>ready pick ops cancelled c.
        if set_option c \<inter> cancelled \<noteq> {} then ([], Inl (Some \<lparr>g_domain = 1, g_code = 19, g_message = ''cancelled''\<rparr>))
        else ([NewOperation example_op 1, ProgressChanged 1 40 1024 None, OperationDone example_op], Inr ()))\<rparr>"

definition example_tx :: "nat \<Rightarrow> PendingTx" where
  "example_tx c = \<lparr>px_tx = c, px_ops = [AddUpdate ''a.B''], px_cancel = Some c, px_port = 5\<rparr>"

theorem transaction_ends_once_witness:
  "\<exists>frames. tx_execute example_tx_library {2} (example_tx 2) =
      Some (frames @ [post_error 5 ''cancelled'']) \<and> (\<forall>x \<in> set frames. post_port x = 5)"
proof -
  have run: "tl_run example_tx_library on_ready on_choose_remote_for_ref (px_ops (example_tx 2)) {2}
      (px_cancel (example_tx 2)) =
      ([], Inl (Some \<lparr>g_domain = 1, g_code = 19, g_message = ''cancelled''\<rparr>))"
    by (simp add: example_tx_library_def example_tx_def)
  show ?thesis using transaction_ends_once [OF run] by (auto simp: example_tx_def)
qed

text \<open>
  A progress report is attributed to the operation that was announced with the progress
  object: when the object changes, one frame is posted for each operation announced with it
  before, with that operation's kind and ref and the object's figures.
\<close>

lemma progress_is_attributed:
  "\<exists>before after. run_signals p (\<lambda>_. []) (earlier @ ProgressChanged prog progress bytes status # later) =
     before @
     map (\<lambda>op. post_framed p 0x10 (write_binary (TransactionProgress_val
            \<lparr>t_op = op_kind_str (op_type op), t_ref = safe_str (op_ref op), t_progress = progress,
             t_bytesTransferred = bytes, t_bytesTotal = 0, t_status = safe_str status\<rparr>)))
       (announced prog earlier) @ after \<and>
     before = run_signals p (\<lambda>_. []) earlier"
  by (simp add: run_signals_append ctxs_after_announced comp_def on_progress_changed_def
      on_new_operation_def progress_frame_def post_glaze_def)

text \<open>
  The worker executes the transactions it was given one at a time and in the order they
  were enqueued: at any time those executed, the one in hand and those queued are, in this
  order, all that were enqueued.
\<close>

lemma transactions_run_in_order:
  assumes "tw_step\<^sup>*\<^sup>* tw_new w"
  shows "tw_taken w = tw_executed w @ (case tw_pc w of TwRun item \<Rightarrow> [item] | _ \<Rightarrow> []) @ tw_queue w"
  using tx_worker.run_accounts [OF refl assms] by (simp add: tw_in_hand_def)

lemma transactions_run_in_order_witness:
  "let w = tw_run [TwEnqueue (example_tx 1), TwEnqueue (example_tx 2), TwWork, TwWork, TwWork, TwWork] tw_new
   in tw_taken w = tw_executed w @ (case tw_pc w of TwRun item \<Rightarrow> [item] | _ \<Rightarrow> []) @ tw_queue w"
  using transactions_run_in_order [OF tw_run_reachable] by (simp only: Let_def)

text \<open>
  Every transaction enqueued is executed if only the worker gets its turns and is not told
  to stop: once it had three turns for each one not executed yet, these have all been executed,
  in the order they were enqueued, whatever was enqueued and cancelled meanwhile.
\<close>

lemma enqueued_transactions_are_executed:
  assumes "tw_step\<^sup>*\<^sup>* tw_new w" "\<not> tw_stop w" "TwStop \<notin> set as"
    "3 * (length (tw_taken w) - length (tw_executed w)) \<le> length (filter (\<lambda>a. a = TwWork) as)"
  shows "\<exists>later. tw_executed (tw_run as w) = tw_taken w @ later"
proof -
  have "tw_live w" using tw_done_stopped [OF assms(1)] assms(2) by (auto simp: tw_live_def)
  moreover have "3 * length (tw_taken w) \<le> tw_effort w + length (filter (\<lambda>a. a = TwWork) as)"
    using assms(4) by (simp add: tw_effort_def diff_mult_distrib2)
  ultimately show ?thesis
    using tx_live.served_answers [OF refl assms(1) _ tw_run_serves] assms(3) by blast
qed

lemma enqueued_transactions_are_executed_witness:
  "\<exists>later. tw_executed (tw_run [TwWork, TwCancel, TwWork, TwEnqueue (example_tx 3), TwWork, TwWork, TwWork, TwWork]
      (tw_run [TwEnqueue (example_tx 1), TwEnqueue (example_tx 2)] tw_new)) =
    [example_tx 1, example_tx 2] @ later"
proof -
  let ?w = "tw_run [TwEnqueue (example_tx 1), TwEnqueue (example_tx 2)] tw_new"
  let ?as = "[TwWork, TwCancel, TwWork, TwEnqueue (example_tx 3), TwWork, TwWork, TwWork, TwWork]"
  have w: "\<not> tw_stop ?w" "tw_taken ?w = [example_tx 1, example_tx 2]" "tw_executed ?w = []"
    by (simp_all add: tw_run_defs)
  have "TwStop \<notin> set ?as" "length (filter (\<lambda>a. a = TwWork) ?as) = 6" by simp_all
  with enqueued_transactions_are_executed [OF tw_run_reachable w(1), of ?as] show ?thesis
    by (simp only: w) simp
qed

text \<open>
  cancel_current signals the cancellable of the transaction in hand, and nothing when the
  worker is idle; the cancellables of queued transactions are never signalled, whichever
  handle asked.
\<close>

lemma cancel_hits_the_running_transaction:
  assumes "tw_step\<^sup>*\<^sup>* tw_new w"
  shows "tw_cancelled (tw_cancel_current w) = tw_cancelled w \<union>
      (case tw_pc w of TwRun item \<Rightarrow> set_option (px_cancel item) | TwClear item \<Rightarrow> set_option (px_cancel item) | _ \<Rightarrow> {}) \<and>
    tw_queue (tw_cancel_current w) = tw_queue w"
  using tw_run_cancel_inv [OF assms]
  by (auto simp: tw_cancel_inv_def tw_cancel_current_def split: option.splits tw_pc.splits)

lemma cancel_hits_the_running_transaction_witness:
  "let w = tw_run [TwEnqueue (example_tx 1), TwEnqueue (example_tx 2), TwWork] tw_new
   in tw_cancelled (tw_cancel_current w) = {1} \<and> tw_queue (tw_cancel_current w) = [example_tx 2]"
  using cancel_hits_the_running_transaction [OF tw_run_reachable,
      of "[TwEnqueue (example_tx 1), TwEnqueue (example_tx 2), TwWork]"]
  by (simp add: Let_def) (simp add: tw_run_defs example_tx_def)

text \<open>
  A failed add posts the error of the batch at once, but does not stop the batch: the
  operation is left out, and a later submit enqueues the others all the same, on the port
  whose future has already failed. A handle is submitted at most once; after that submit
  posts an error.
\<close>

lemma failed_add_does_not_stop_the_batch:
  assumes "h_tx h = Some (tx, ops)" "tl_add lib ops op = Inl err"
  shows "\<exists>msg h'. flatpak_tx_add lib op h = ([post_error (h_port h) msg], h) \<and>
    flatpak_tx_submit h w =
      ([], h', tw_enqueue \<lparr>px_tx = tx, px_ops = ops, px_cancel = h_cancel h, px_port = h_port h\<rparr> w) \<and>
    flatpak_tx_submit h' w = ([post_error (h_port h) ''No transaction created''], h', w)"
  using assms by (auto simp: flatpak_tx_add_def flatpak_tx_submit_def)

lemma failed_add_does_not_stop_the_batch_witness:
  "\<exists>msg. flatpak_tx_add example_tx_library (AddUpdate '''')
      \<lparr>h_tx = Some (2, [AddUninstall ''a.B'']), h_cancel = Some 2, h_port = 5\<rparr> =
    ([post_error 5 msg], \<lparr>h_tx = Some (2, [AddUninstall ''a.B'']), h_cancel = Some 2, h_port = 5\<rparr>)"
proof -
  let ?h = "\<lparr>h_tx = Some (2, [AddUninstall ''a.B'']), h_cancel = Some 2, h_port = 5\<rparr>"
  have "h_tx ?h = Some (2, [AddUninstall ''a.B''])"
    "tl_add example_tx_library [AddUninstall ''a.B''] (AddUpdate '''') = Inl None"
    by (simp_all add: example_tx_library_def)
  from failed_add_does_not_stop_the_batch [OF this] show ?thesis by auto
qed

end
