(* ===== verification/Transaction_Handles.thy ===== *)
theory Transaction_Handles
  imports Transaction_Bridge "HOL-Library.Multiset"
begin

text \<open>
  Who holds the GObjects of native/src/transaction_bridge.cpp. A handle creates a transaction
  object and a cancellable; submit hands both to the worker's queue, and the worker releases
  them after the run; destroying a handle releases what it still holds. The state is a worker
  with its live handles; the number of references dropped for each object is counted.
\<close>

section \<open>Releasing\<close>

datatype tx_object = TxObj nat | CancelObj nat

abbreviation cancel_objects :: "nat option \<Rightarrow> tx_object list" where
  "cancel_objects c \<equiv> (case c of None \<Rightarrow> [] | Some n \<Rightarrow> [CancelObj n])"

text \<open>What \<open>flatpak_tx_destroy\<close> releases, and what the worker does after an item.\<close>

definition flatpak_tx_destroy :: "TxHandle \<Rightarrow> tx_object list" where
  "flatpak_tx_destroy h =
     (case h_tx h of None \<Rightarrow> [] | Some (tx, _) \<Rightarrow> [TxObj tx]) @ cancel_objects (h_cancel h)"

definition release_item :: "PendingTx \<Rightarrow> tx_object list" where
  "release_item item = cancel_objects (px_cancel item) @ [TxObj (px_tx item)]"

section \<open>A worker and its handles\<close>

text \<open>
  \<open>ts_worker\<close> is \<open>None\<close> once the worker is destroyed; \<open>ts_lost\<close> are the objects in the queue that
  was destroyed with it, whose references nothing drops.
\<close>

record tx_system =
  ts_worker :: "TransactionWorker option"
  ts_handles :: "TxHandle list"
  ts_fresh :: nat
  ts_released :: "tx_object multiset"
  ts_lost :: "tx_object multiset"

definition tx_system_new :: tx_system where
  "tx_system_new = \<lparr>ts_worker = Some tw_new, ts_handles = [], ts_fresh = 0, ts_released = {#}, ts_lost = {#}\<rparr>"

definition sys_create :: "tx_library \<Rightarrow> port \<Rightarrow> tx_system \<Rightarrow> tx_system" where
  "sys_create lib p s =
     (case flatpak_tx_create lib (ts_fresh s) p of
        (_, None) \<Rightarrow> s
      | (_, Some h) \<Rightarrow> s\<lparr>ts_handles := ts_handles s @ [h], ts_fresh := Suc (ts_fresh s)\<rparr>)"

definition sys_add :: "tx_library \<Rightarrow> tx_op \<Rightarrow> nat \<Rightarrow> tx_system \<Rightarrow> tx_system option" where
  "sys_add lib op i s =
     (if i < length (ts_handles s)
      then Some (s\<lparr>ts_handles := (ts_handles s)[i := snd (flatpak_tx_add lib op (ts_handles s ! i))]\<rparr>)
      else None)"

definition sys_submit :: "nat \<Rightarrow> tx_system \<Rightarrow> tx_system option" where
  "sys_submit i s =
     (case ts_worker s of
        None \<Rightarrow> None
      | Some w \<Rightarrow>
          if i < length (ts_handles s)
          then (case flatpak_tx_submit (ts_handles s ! i) w of
                  (_, h, w') \<Rightarrow> Some (s\<lparr>ts_handles := (ts_handles s)[i := h], ts_worker := Some w'\<rparr>))
          else None)"

definition sys_destroy :: "nat \<Rightarrow> tx_system \<Rightarrow> tx_system option" where
  "sys_destroy i s =
     (if i < length (ts_handles s)
      then Some (s\<lparr>ts_handles := take i (ts_handles s) @ drop (Suc i) (ts_handles s),
                   ts_released := ts_released s + mset (flatpak_tx_destroy (ts_handles s ! i))\<rparr>)
      else None)"

definition sys_cancel :: "tx_system \<Rightarrow> tx_system option" where
  "sys_cancel s = map_option (\<lambda>w. s\<lparr>ts_worker := Some (tw_cancel_current w)\<rparr>) (ts_worker s)"

definition sys_work :: "tx_system \<Rightarrow> tx_system option" where
  "sys_work s =
     (case ts_worker s of
        None \<Rightarrow> None
      | Some w \<Rightarrow>
          map_option (\<lambda>w'. s\<lparr>ts_worker := Some w',
              ts_released := ts_released s +
                (case tw_pc w of TwClear item \<Rightarrow> mset (release_item item) | _ \<Rightarrow> {#})\<rparr>) (tw_loop w))"

text \<open>
  \<open>flatpak_worker_destroy\<close>: the flag, and after the join the end of the object with its queue.
\<close>

definition sys_stop :: "tx_system \<Rightarrow> tx_system option" where
  "sys_stop s = map_option (\<lambda>w. s\<lparr>ts_worker := Some (tw_request_stop w)\<rparr>) (ts_worker s)"

definition flatpak_worker_destroy :: "tx_system \<Rightarrow> tx_system option" where
  "flatpak_worker_destroy s =
     (case ts_worker s of
        None \<Rightarrow> None
      | Some w \<Rightarrow>
          if tw_pc w = TwDone
          then Some (s\<lparr>ts_worker := None,
                 ts_lost := ts_lost s + mset (concat (map release_item (tw_queue w)))\<rparr>)
          else None)"

inductive tx_system_step :: "tx_library \<Rightarrow> tx_system \<Rightarrow> tx_system \<Rightarrow> bool" for lib where
  create: "ts_worker s \<noteq> None \<Longrightarrow> tx_system_step lib s (sys_create lib p s)"
| add: "sys_add lib op i s = Some s' \<Longrightarrow> tx_system_step lib s s'"
| submit: "sys_submit i s = Some s' \<Longrightarrow> tx_system_step lib s s'"
| destroy: "sys_destroy i s = Some s' \<Longrightarrow> tx_system_step lib s s'"
| cancel: "sys_cancel s = Some s' \<Longrightarrow> tx_system_step lib s s'"
| work: "sys_work s = Some s' \<Longrightarrow> tx_system_step lib s s'"
| stop: "sys_stop s = Some s' \<Longrightarrow> tx_system_step lib s s'"
| worker_destroy: "flatpak_worker_destroy s = Some s' \<Longrightarrow> tx_system_step lib s s'"

inductive_cases tx_system_stepE: "tx_system_step lib s s'"

lemmas tx_system_ops = sys_create_def sys_add_def sys_submit_def sys_destroy_def sys_cancel_def
  sys_work_def sys_stop_def flatpak_worker_destroy_def

section \<open>Every object has one owner\<close>

definition created :: "nat \<Rightarrow> tx_object multiset" where
  "created n = mset (map TxObj [0..<n]) + mset (map CancelObj [0..<n])"

abbreviation handle_objects :: "TxHandle \<Rightarrow> tx_object multiset" where
  "handle_objects h \<equiv> mset (flatpak_tx_destroy h)"

abbreviation items_objects :: "PendingTx list \<Rightarrow> tx_object multiset" where
  "items_objects items \<equiv> mset (concat (map release_item items))"

definition worker_objects :: "TransactionWorker \<Rightarrow> tx_object multiset" where
  "worker_objects w = items_objects (tw_queue w) +
     (case tw_pc w of TwRun item \<Rightarrow> mset (release_item item) | TwClear item \<Rightarrow> mset (release_item item)
      | _ \<Rightarrow> {#})"

definition owned :: "tx_system \<Rightarrow> tx_object multiset" where
  "owned s = mset (concat (map flatpak_tx_destroy (ts_handles s))) +
     (case ts_worker s of None \<Rightarrow> {#} | Some w \<Rightarrow> worker_objects w)"

definition objects_inv :: "tx_system \<Rightarrow> bool" where
  "objects_inv s \<longleftrightarrow> created (ts_fresh s) = ts_released s + ts_lost s + owned s"

lemma created_Suc: "created (Suc n) = created n + {#TxObj n, CancelObj n#}"
  by (simp add: created_def)

lemma count_created: "count (created n) x \<le> 1"
proof -
  have "distinct (map TxObj [0..<n] @ map CancelObj [0..<n])"
    by (auto simp: distinct_map inj_on_def)
  then have "count (mset (map TxObj [0..<n] @ map CancelObj [0..<n])) x \<le> 1"
    by (simp only: distinct_count_atmost_1) auto
  then show ?thesis by (simp add: created_def)
qed

text \<open>Replacing a handle by one with other objects.\<close>

lemma concat_update:
  "i < length hs \<Longrightarrow> mset (concat (map f (hs[i := h]))) + mset (f (hs ! i)) =
     mset (concat (map f hs)) + mset (f h)"
  by (induction hs arbitrary: i) (auto split: nat.splits)

lemma concat_remove:
  assumes "i < length hs"
  shows "mset (concat (map f (take i hs @ drop (Suc i) hs))) + mset (f (hs ! i)) = mset (concat (map f hs))"
proof -
  have "mset (concat (map f hs)) = mset (concat (map f (take i hs @ hs ! i # drop (Suc i) hs)))"
    by (simp only: id_take_nth_drop [OF assms, symmetric])
  then show ?thesis by simp
qed

lemma add_keeps_objects: "flatpak_tx_destroy (snd (flatpak_tx_add lib op h)) = flatpak_tx_destroy h"
  by (auto simp: flatpak_tx_add_def flatpak_tx_destroy_def split: option.splits sum.splits)

lemma submit_moves_objects:
  "flatpak_tx_submit h w = (ps, h', w') \<Longrightarrow>
     handle_objects h + worker_objects w = handle_objects h' + worker_objects w'"
  by (auto simp: flatpak_tx_submit_def flatpak_tx_destroy_def worker_objects_def release_item_def
      tw_enqueue_def split: option.splits)

lemma work_releases_objects:
  "tw_loop w = Some w' \<Longrightarrow>
     worker_objects w = worker_objects w' +
       (case tw_pc w of TwClear item \<Rightarrow> mset (release_item item) | _ \<Rightarrow> {#})"
  by (auto simp: tw_loop_def worker_objects_def split: tw_pc.splits if_splits list.splits)

lemma calls_keep_objects [simp]:
  "worker_objects (tw_cancel_current w) = worker_objects w"
  "worker_objects (tw_request_stop w) = worker_objects w"
  by (auto simp: worker_objects_def tw_cancel_current_def tw_request_stop_def split: option.splits)

lemma create_objects:
  "objects_inv s \<Longrightarrow> objects_inv (sys_create lib p s)"
  by (auto simp: sys_create_def flatpak_tx_create_def objects_inv_def owned_def created_Suc
      flatpak_tx_destroy_def split: sum.splits option.splits)

lemma add_objects:
  assumes "sys_add lib op i s = Some s'" "objects_inv s"
  shows "objects_inv s'"
proof -
  have i: "i < length (ts_handles s)" and
    s': "s' = s\<lparr>ts_handles := (ts_handles s)[i := snd (flatpak_tx_add lib op (ts_handles s ! i))]\<rparr>"
    using assms(1) by (auto simp: sys_add_def split: if_splits)
  show ?thesis
    using assms(2) concat_update [OF i, of flatpak_tx_destroy "snd (flatpak_tx_add lib op (ts_handles s ! i))"]
    by (simp add: s' objects_inv_def owned_def add_keeps_objects)
qed

lemma submit_objects:
  assumes "sys_submit i s = Some s'" "objects_inv s"
  shows "objects_inv s'"
proof -
  obtain w ps h w' where i: "i < length (ts_handles s)" "ts_worker s = Some w"
    "flatpak_tx_submit (ts_handles s ! i) w = (ps, h, w')"
    "s' = s\<lparr>ts_handles := (ts_handles s)[i := h], ts_worker := Some w'\<rparr>"
    using assms(1) by (auto simp: sys_submit_def split: option.splits if_splits prod.splits)
  have "mset (concat (map flatpak_tx_destroy ((ts_handles s)[i := h]))) + worker_objects w' =
      mset (concat (map flatpak_tx_destroy (ts_handles s))) + worker_objects w"
  proof (rule multiset_eqI)
    fix x
    show "count (mset (concat (map flatpak_tx_destroy ((ts_handles s)[i := h]))) + worker_objects w') x =
        count (mset (concat (map flatpak_tx_destroy (ts_handles s))) + worker_objects w) x"
      using concat_update [OF i(1), of flatpak_tx_destroy h, THEN arg_cong [of _ _ "\<lambda>m. count m x"]]
        submit_moves_objects [OF i(3), THEN arg_cong [of _ _ "\<lambda>m. count m x"]]
      by simp
  qed
  with assms(2) show ?thesis by (simp add: i(2,4) objects_inv_def owned_def)
qed

lemma destroy_objects:
  assumes "sys_destroy i s = Some s'" "objects_inv s"
  shows "objects_inv s'"
proof -
  have i: "i < length (ts_handles s)" and
    s': "s' = s\<lparr>ts_handles := take i (ts_handles s) @ drop (Suc i) (ts_handles s),
                ts_released := ts_released s + mset (flatpak_tx_destroy (ts_handles s ! i))\<rparr>"
    using assms(1) by (auto simp: sys_destroy_def split: if_splits)
  show ?thesis
    using assms(2) concat_remove [OF i, of flatpak_tx_destroy, symmetric]
    by (simp add: s' objects_inv_def owned_def ac_simps)
qed

lemma sys_cancel_objects: "sys_cancel s = Some s' \<Longrightarrow> objects_inv s \<Longrightarrow> objects_inv s'"
  by (cases "ts_worker s") (auto simp: sys_cancel_def objects_inv_def owned_def)

lemma sys_stop_objects: "sys_stop s = Some s' \<Longrightarrow> objects_inv s \<Longrightarrow> objects_inv s'"
  by (auto simp: sys_stop_def objects_inv_def owned_def)

lemma sys_work_objects:
  assumes "sys_work s = Some s'" "objects_inv s"
  shows "objects_inv s'"
proof -
  let ?rel = "\<lambda>w. case tw_pc w of TwClear item \<Rightarrow> mset (release_item item) | _ \<Rightarrow> {#}"
  obtain w w' where w: "ts_worker s = Some w" "tw_loop w = Some w'"
    "s' = s\<lparr>ts_worker := Some w', ts_released := ts_released s + ?rel w\<rparr>"
    using assms(1) by (auto simp: sys_work_def split: option.splits)
  have "created (ts_fresh s) = ts_released s + ts_lost s +
      (mset (concat (map flatpak_tx_destroy (ts_handles s))) + (worker_objects w' + ?rel w))"
    using assms(2) work_releases_objects [OF w(2)] by (simp add: objects_inv_def owned_def w(1))
  then show ?thesis by (simp add: w(3) objects_inv_def owned_def ac_simps)
qed

lemma worker_destroy_objects: "flatpak_worker_destroy s = Some s' \<Longrightarrow> objects_inv s \<Longrightarrow> objects_inv s'"
  by (auto simp: flatpak_worker_destroy_def objects_inv_def owned_def worker_objects_def
      split: option.splits if_splits)

lemma tx_system_step_objects: "tx_system_step lib s s' \<Longrightarrow> objects_inv s \<Longrightarrow> objects_inv s'"
  by (elim tx_system_stepE)
    (blast intro: create_objects add_objects submit_objects destroy_objects sys_cancel_objects
      sys_stop_objects sys_work_objects worker_destroy_objects)+

lemma tx_system_objects: "(tx_system_step lib)\<^sup>*\<^sup>* tx_system_new s \<Longrightarrow> objects_inv s"
proof (induction rule: rtranclp_induct)
  case base
  show ?case
    by (simp add: objects_inv_def owned_def tx_system_new_def created_def worker_objects_def tw_new_def)
next
  case (step s s')
  then show ?case by (blast intro: tx_system_step_objects)
qed

text \<open>The worker of the system takes the steps of the worker.\<close>

lemmas tw_steps_intros = tw_step.intros [THEN r_into_rtranclp [of tw_step]]

lemma submit_is_step: "flatpak_tx_submit h w = (ps, h', w') \<Longrightarrow> tw_step\<^sup>*\<^sup>* w w'"
  by (auto simp: flatpak_tx_submit_def intro: tw_step.enqueue split: option.splits)

lemma tx_system_step_worker:
  assumes "tx_system_step lib s s'" "ts_worker s' = Some w'"
  shows "\<exists>w. ts_worker s = Some w \<and> tw_step\<^sup>*\<^sup>* w w' \<and> ts_lost s' = ts_lost s"
  using assms
  by (elim tx_system_stepE)
    (auto simp: tx_system_ops intro: submit_is_step tw_steps_intros
      split: option.splits prod.splits if_splits)

lemma tx_system_worker:
  "(tx_system_step lib)\<^sup>*\<^sup>* tx_system_new s \<Longrightarrow> ts_worker s = Some w \<Longrightarrow>
     tw_step\<^sup>*\<^sup>* tw_new w \<and> ts_lost s = {#}"
proof (induction arbitrary: w rule: rtranclp_induct)
  case base
  then show ?case by (simp add: tx_system_new_def)
next
  case (step s s')
  then show ?case using tx_system_step_worker [OF step.hyps(2) step.prems] by fastforce
qed

section \<open>Schedules\<close>

datatype sys_action =
    SysCreate port | SysAdd tx_op nat | SysSubmit nat | SysDestroy nat | SysCancel | SysWork | SysStop
  | SysDelete

fun sys_exec :: "tx_library \<Rightarrow> sys_action \<Rightarrow> tx_system \<Rightarrow> tx_system option" where
  "sys_exec lib (SysCreate p) s = (if ts_worker s = None then None else Some (sys_create lib p s))"
| "sys_exec lib (SysAdd op i) s = sys_add lib op i s"
| "sys_exec lib (SysSubmit i) s = sys_submit i s"
| "sys_exec lib (SysDestroy i) s = sys_destroy i s"
| "sys_exec lib SysCancel s = sys_cancel s"
| "sys_exec lib SysWork s = sys_work s"
| "sys_exec lib SysStop s = sys_stop s"
| "sys_exec lib SysDelete s = flatpak_worker_destroy s"

fun sys_run :: "tx_library \<Rightarrow> sys_action list \<Rightarrow> tx_system \<Rightarrow> tx_system" where
  "sys_run lib [] s = s"
| "sys_run lib (a # as) s = sys_run lib as (case sys_exec lib a s of None \<Rightarrow> s | Some s' \<Rightarrow> s')"

lemma sys_exec_step: "sys_exec lib a s = Some s' \<Longrightarrow> tx_system_step lib s s'"
  by (cases a) (auto intro: tx_system_step.intros split: if_splits)

lemma sys_run_reachable: "(tx_system_step lib)\<^sup>*\<^sup>* s (sys_run lib as s)"
  by (induction lib as s rule: sys_run.induct)
    (auto intro: converse_rtranclp_into_rtranclp sys_exec_step split: option.splits)

section \<open>Properties\<close>

text \<open>
  C17. Every transaction object and every cancellable created has exactly one owner: a handle,
  the worker's queue or its current run; or it has been released, or was lost with the queue
  of a destroyed worker. Whatever the order of creates, adds, submits, destroys, cancels and
  the worker's steps, none is released twice, and \<open>cancel_current\<close> never touches one that is
  released.
\<close>

theorem tx_objects_released_once:
  assumes "(tx_system_step lib)\<^sup>*\<^sup>* tx_system_new s"
  shows "created (ts_fresh s) = ts_released s + ts_lost s + owned s \<and>
    (\<forall>x. count (ts_released s) x \<le> 1) \<and>
    (case ts_worker s of None \<Rightarrow> True
     | Some w \<Rightarrow> ts_lost s = {#} \<and>
         (\<forall>c. tw_current_cancel w = Some c \<longrightarrow> CancelObj c \<notin># ts_released s))"
proof -
  have all: "created (ts_fresh s) = ts_released s + ts_lost s + owned s"
    using tx_system_objects [OF assms] by (simp add: objects_inv_def)
  have once: "count (ts_released s) x + count (owned s) x \<le> 1" for x
    using count_created [of "ts_fresh s" x] all by simp
  have "CancelObj c \<notin># ts_released s" if w: "ts_worker s = Some w" "tw_current_cancel w = Some c" for w c
  proof -
    have "tw_cancel_inv w" using tx_system_worker [OF assms w(1)] tw_run_cancel_inv by blast
    with w have "CancelObj c \<in># owned s"
      by (auto simp: owned_def worker_objects_def tw_cancel_inv_def release_item_def
          split: tw_pc.splits)
    with once [of "CancelObj c"] show ?thesis by (simp add: not_in_iff count_greater_zero_iff [symmetric] del: count_greater_zero_iff)
  qed
  moreover have "count (ts_released s) x \<le> 1" for x using once [of x] by simp
  ultimately show ?thesis
    using all tx_system_worker [OF assms] by (auto split: option.splits)
qed

theorem tx_objects_released_once_witness:
  "let s = sys_run example_tx_library
       [SysCreate 5, SysAdd (AddUpdate ''a.B'') 0, SysSubmit 0, SysWork, SysCancel, SysWork,
        SysDestroy 0, SysWork, SysCreate 6, SysDestroy 0] tx_system_new
   in ts_released s = created 2 \<and> ts_released s + owned s = created (ts_fresh s)"
proof -
  let ?as = "[SysCreate 5, SysAdd (AddUpdate ''a.B'') 0, SysSubmit 0, SysWork, SysCancel, SysWork,
        SysDestroy 0, SysWork, SysCreate 6, SysDestroy 0]"
  let ?s = "sys_run example_tx_library ?as tx_system_new"
  have "ts_released ?s = created 2" "ts_lost ?s = {#}"
    by (simp_all add: tx_system_new_def tx_system_ops flatpak_tx_create_def example_tx_library_def
        flatpak_tx_add_def flatpak_tx_submit_def flatpak_tx_destroy_def release_item_def tw_new_def
        tw_defs created_def eval_nat_numeral)
  with tx_objects_released_once [OF sys_run_reachable, of example_tx_library ?as] show ?thesis
    by (simp only: Let_def) simp
qed

end
