(* ===== verification/Worker_Sync.thy ===== *)
theory Worker_Sync
  imports Transaction_Handles Step_Simulation Thread_Places
begin

text \<open>
  \<open>TransactionWorker\<close> of native/src/transaction_bridge.cpp again, one step per lock, wait, wakeup,
  store and unlock. In \<open>Transaction_Bridge\<close> a call and a turn of the loop are one critical section
  each, and taking an item sets the current cancellable at once; here \<open>enqueue\<close>,
  \<open>cancel_current\<close> and the destructor are lines of any number of calling threads, and the
  worker pops an item, publishes its cancellable, runs, clears it and drops the two references
  one after the other. The lemmas show that this simulates the atomic worker, that no wakeup is
  lost, and that a cancellable is never signalled once its reference has been dropped, at
  whatever time the calls come (\<open>tv_any_step\<close>). That every call returns, the destructor
  included, is shown of the runs in which none is made beside or after the destructor
  (\<open>tv_step\<close>); a call after it is the use of a deleted object.
\<close>

section \<open>Threads and their places in the code\<close>

text \<open>
  The loop: before the first lock, testing the predicate of the wait, asleep, woken, past the
  wait, with an item popped, with its cancellable published, executing, at the second lock,
  clearing, cleared, dropping the reference to the cancellable and then to the transaction;
  leaving with the lock still held, and returned.
\<close>

datatype tv_worker =
    TLock | TTest | TAsleep | TWoken | TTake | TSet PendingTx | TPopped PendingTx | TExec PendingTx
  | TClearLock PendingTx | TClear PendingTx | TCleared PendingTx
  | TUnrefCancel PendingTx | TUnrefTx PendingTx | TLeave | TReturned

text \<open>
  A calling thread: in no call, or at a line of \<open>enqueue\<close>, \<open>cancel_current\<close> or the destructor.
\<close>

datatype tv_caller =
    NoCall
  | EnqLock PendingTx | EnqPush PendingTx | EnqUnlock | EnqNotify
  | CancelLock | CancelTest | CancelCall | CancelUnlock
  | DtorLock | DtorSet | DtorUnlock | DtorNotify | DtorJoin | DtorUnref

datatype tv_call = CallEnqueue PendingTx | CallCancel | CallDestroy

text \<open>
  The members of the class, whether the object is gone, the places of the threads, the number
  of the next objects \<open>flatpak_tx_create\<close> makes, and ghosts: the cancellables signalled, the
  items executed and taken, and the references dropped, in order.
\<close>

record worker_sync =
  tv_queue :: "PendingTx list"
  tv_current :: "nat option"
  tv_stop :: bool
  tv_mu :: "bridge_thread option"
  tv_gone :: bool
  tv_place :: tv_worker
  tv_callers :: "tv_caller list"
  tv_fresh :: nat
  tv_cancelled :: "nat set"
  tv_executed :: "PendingTx list"
  tv_taken :: "PendingTx list"
  tv_released :: "tx_object list"

definition tv_new :: "nat \<Rightarrow> worker_sync" where
  "tv_new n = \<lparr>tv_queue = [], tv_current = None, tv_stop = False, tv_mu = None, tv_gone = False,
     tv_place = TLock, tv_callers = replicate n NoCall, tv_fresh = 0, tv_cancelled = {},
     tv_executed = [], tv_taken = [], tv_released = []\<rparr>"

section \<open>The steps\<close>

text \<open>
  The loop. \<open>None\<close>: it waits for the mutex or for a notification, or has returned; also the
  undefined \<open>front\<close> of an empty queue, which is shown not to happen. \<open>execute\<close> is one step:
  \<open>flatpak_transaction_run\<close> returns, after seeing the cancellables signalled by then.
\<close>

definition tv_acquire :: "tv_worker \<Rightarrow> worker_sync \<Rightarrow> worker_sync option" where
  "tv_acquire place s =
     (if tv_mu s = None then Some (s\<lparr>tv_mu := Some Worker, tv_place := place\<rparr>) else None)"

definition tv_work :: "worker_sync \<Rightarrow> worker_sync option" where
  "tv_work s =
     (case tv_place s of
        TLock \<Rightarrow> tv_acquire TTest s
      | TTest \<Rightarrow>
          Some (if tv_stop s \<or> tv_queue s \<noteq> [] then s\<lparr>tv_place := TTake\<rparr>
                else s\<lparr>tv_mu := None, tv_place := TAsleep\<rparr>)
      | TAsleep \<Rightarrow> None
      | TWoken \<Rightarrow> tv_acquire TTest s
      | TTake \<Rightarrow>
          (if tv_stop s then Some (s\<lparr>tv_place := TLeave\<rparr>)
           else (case tv_queue s of
               item # rest \<Rightarrow> Some (s\<lparr>tv_queue := rest, tv_place := TSet item\<rparr>)
             | [] \<Rightarrow> None))
      | TSet item \<Rightarrow> Some (s\<lparr>tv_current := px_cancel item, tv_place := TPopped item\<rparr>)
      | TPopped item \<Rightarrow> Some (s\<lparr>tv_mu := None, tv_place := TExec item\<rparr>)
      | TExec item \<Rightarrow> Some (s\<lparr>tv_executed := tv_executed s @ [item], tv_place := TClearLock item\<rparr>)
      | TClearLock item \<Rightarrow> tv_acquire (TClear item) s
      | TClear item \<Rightarrow> Some (s\<lparr>tv_current := None, tv_place := TCleared item\<rparr>)
      | TCleared item \<Rightarrow> Some (s\<lparr>tv_mu := None, tv_place := TUnrefCancel item\<rparr>)
      | TUnrefCancel item \<Rightarrow>
          Some (s\<lparr>tv_released := tv_released s @ cancel_objects (px_cancel item), tv_place := TUnrefTx item\<rparr>)
      | TUnrefTx item \<Rightarrow>
          Some (s\<lparr>tv_released := tv_released s @ [TxObj (px_tx item)], tv_place := TLock\<rparr>)
      | TLeave \<Rightarrow> Some (s\<lparr>tv_mu := None, tv_place := TReturned\<rparr>)
      | TReturned \<Rightarrow> None)"

text \<open>\<open>notify_one\<close> wakes the worker if it is asleep and is forgotten otherwise.\<close>

definition tv_notify :: "worker_sync \<Rightarrow> worker_sync" where
  "tv_notify s = (if tv_place s = TAsleep then s\<lparr>tv_place := TWoken\<rparr> else s)"

definition tv_at :: "nat \<Rightarrow> tv_caller \<Rightarrow> worker_sync \<Rightarrow> worker_sync" where
  "tv_at i c s = s\<lparr>tv_callers := (tv_callers s)[i := c]\<rparr>"

definition tv_lock :: "nat \<Rightarrow> tv_caller \<Rightarrow> worker_sync \<Rightarrow> worker_sync option" where
  "tv_lock i c s = (if tv_mu s = None then Some (tv_at i c (s\<lparr>tv_mu := Some (Caller i)\<rparr>)) else None)"

definition tv_unlock :: "nat \<Rightarrow> tv_caller \<Rightarrow> worker_sync \<Rightarrow> worker_sync option" where
  "tv_unlock i c s = Some (tv_at i c (s\<lparr>tv_mu := None\<rparr>))"

text \<open>
  One line of a call. \<open>None\<close>: the thread is in no call or blocked, or the object is deleted, whose
  members and mutex no line may touch. \<open>g_cancellable_cancel\<close> is
  called with the mutex held, on what the member holds then; a NULL there is shown not to
  happen. The end of the destructor drops the installation and the members.
\<close>

definition tv_line :: "nat \<Rightarrow> tv_caller \<Rightarrow> worker_sync \<Rightarrow> worker_sync option" where
  "tv_line i c s =
     (case c of
        NoCall \<Rightarrow> None
      | EnqLock item \<Rightarrow> tv_lock i (EnqPush item) s
      | EnqPush item \<Rightarrow>
          Some (tv_at i EnqUnlock (s\<lparr>tv_queue := tv_queue s @ [item], tv_taken := tv_taken s @ [item]\<rparr>))
      | EnqUnlock \<Rightarrow> tv_unlock i EnqNotify s
      | EnqNotify \<Rightarrow> Some (tv_at i NoCall (tv_notify s))
      | CancelLock \<Rightarrow> tv_lock i CancelTest s
      | CancelTest \<Rightarrow> Some (tv_at i (if tv_current s = None then CancelUnlock else CancelCall) s)
      | CancelCall \<Rightarrow>
          (case tv_current s of
             None \<Rightarrow> None
           | Some n \<Rightarrow> Some (tv_at i CancelUnlock (s\<lparr>tv_cancelled := insert n (tv_cancelled s)\<rparr>)))
      | CancelUnlock \<Rightarrow> tv_unlock i NoCall s
      | DtorLock \<Rightarrow> tv_lock i DtorSet s
      | DtorSet \<Rightarrow> Some (tv_at i DtorUnlock (s\<lparr>tv_stop := True\<rparr>))
      | DtorUnlock \<Rightarrow> tv_unlock i DtorNotify s
      | DtorNotify \<Rightarrow> Some (tv_at i DtorJoin (tv_notify s))
      | DtorJoin \<Rightarrow> (if tv_place s = TReturned then Some (tv_at i DtorUnref s) else None)
      | DtorUnref \<Rightarrow> Some (tv_at i NoCall (s\<lparr>tv_gone := True\<rparr>)))"

definition tv_go :: "nat \<Rightarrow> worker_sync \<Rightarrow> worker_sync option" where
  "tv_go i s =
     (if i < length (tv_callers s) \<and> \<not> tv_gone s then tv_line i (tv_callers s ! i) s else None)"

fun tv_entry :: "tv_call \<Rightarrow> tv_caller" where
  "tv_entry (CallEnqueue item) = EnqLock item"
| "tv_entry CallCancel = CancelLock"
| "tv_entry CallDestroy = DtorLock"

fun in_dtor :: "tv_caller \<Rightarrow> bool" where
  "in_dtor DtorLock = True"
| "in_dtor DtorSet = True"
| "in_dtor DtorUnlock = True"
| "in_dtor DtorNotify = True"
| "in_dtor DtorJoin = True"
| "in_dtor DtorUnref = True"
| "in_dtor _ = False"

text \<open>
  A call begins in an idle thread, at any time, also beside the destructor and on a deleted
  object. A batch brings the two objects \<open>flatpak_tx_create\<close> made for it, and the object is
  deleted once.
\<close>

definition tv_possible :: "tv_call \<Rightarrow> worker_sync \<Rightarrow> bool" where
  "tv_possible call s \<longleftrightarrow>
     (case call of
        CallEnqueue item \<Rightarrow> px_tx item = tv_fresh s \<and> px_cancel item = Some (tv_fresh s)
      | CallCancel \<Rightarrow> True
      | CallDestroy \<Rightarrow> \<not> tv_gone s \<and> list_all (\<lambda>c. \<not> in_dtor c) (tv_callers s))"

definition tv_begin :: "nat \<Rightarrow> tv_call \<Rightarrow> worker_sync \<Rightarrow> worker_sync option" where
  "tv_begin i call s =
     (if i < length (tv_callers s) \<and> tv_callers s ! i = NoCall \<and> tv_possible call s
      then Some (tv_at i (tv_entry call)
        (case call of CallEnqueue item \<Rightarrow> s\<lparr>tv_fresh := Suc (tv_fresh s)\<rparr> | _ \<Rightarrow> s))
      else None)"

text \<open>
  What callers who mean to keep the object alive do: no call begins while the destructor is
  under way or after it, and the destructor begins when no other call is under way.
\<close>

definition tv_contract :: "tv_call \<Rightarrow> worker_sync \<Rightarrow> bool" where
  "tv_contract call s \<longleftrightarrow>
     \<not> tv_gone s \<and> list_all (\<lambda>c. \<not> in_dtor c) (tv_callers s) \<and>
     (call = CallDestroy \<longrightarrow> list_all (\<lambda>c. c = NoCall) (tv_callers s))"

text \<open>A wait may also end without a notification.\<close>

definition tv_spurious :: "worker_sync \<Rightarrow> worker_sync option" where
  "tv_spurious s = (if tv_place s = TAsleep then Some (s\<lparr>tv_place := TWoken\<rparr>) else None)"

text \<open>The moves of the threads inside the class, and with them the calls and spurious wakeups.\<close>

inductive tv_move :: "worker_sync \<Rightarrow> worker_sync \<Rightarrow> bool" where
  work: "tv_work s = Some t \<Longrightarrow> tv_move s t"
| go: "tv_go i s = Some t \<Longrightarrow> tv_move s t"

inductive tv_any_step :: "worker_sync \<Rightarrow> worker_sync \<Rightarrow> bool" where
  move: "tv_move s t \<Longrightarrow> tv_any_step s t"
| enter: "tv_begin i call s = Some t \<Longrightarrow> tv_any_step s t"
| spurious: "tv_spurious s = Some t \<Longrightarrow> tv_any_step s t"

text \<open>The steps with callers that keep to the contract.\<close>

inductive tv_step :: "worker_sync \<Rightarrow> worker_sync \<Rightarrow> bool" where
  kept_move: "tv_move s t \<Longrightarrow> tv_step s t"
| kept_enter: "tv_contract call s \<Longrightarrow> tv_begin i call s = Some t \<Longrightarrow> tv_step s t"
| kept_spurious: "tv_spurious s = Some t \<Longrightarrow> tv_step s t"

inductive_cases tv_moveE: "tv_move s t"
inductive_cases tv_any_stepE: "tv_any_step s t"
inductive_cases tv_stepE: "tv_step s t"

lemma tv_step_any: "tv_step s t \<Longrightarrow> tv_any_step s t"
  by (auto elim: tv_stepE intro: tv_any_step.intros)

lemma tv_steps_any: "tv_step\<^sup>*\<^sup>* s t \<Longrightarrow> tv_any_step\<^sup>*\<^sup>* s t"
  by (induction rule: rtranclp_induct) (auto intro: rtranclp.rtrancl_into_rtrancl tv_step_any)

text \<open>Schedules, in which a thread that cannot move stays where it is.\<close>

datatype tv_action = TvWork | TvGo nat | TvBegin nat tv_call | TvSpurious

fun tv_try :: "tv_action \<Rightarrow> worker_sync \<Rightarrow> worker_sync option" where
  "tv_try TvWork s = tv_work s"
| "tv_try (TvGo i) s = tv_go i s"
| "tv_try (TvBegin i call) s = (if tv_contract call s then tv_begin i call s else None)"
| "tv_try TvSpurious s = tv_spurious s"

definition tv_run :: "tv_action list \<Rightarrow> worker_sync \<Rightarrow> worker_sync" where
  "tv_run as s = fold (\<lambda>a s. case tv_try a s of None \<Rightarrow> s | Some t \<Rightarrow> t) as s"

lemma tv_try_step: "tv_try a s = Some t \<Longrightarrow> tv_step s t"
  by (cases a) (auto intro: tv_step.intros tv_move.intros split: if_splits)

lemma tv_run_reachable: "tv_step\<^sup>*\<^sup>* s (tv_run as s)"
proof (induction as rule: rev_induct)
  case (snoc a as)
  then show ?case
    by (auto simp: tv_run_def split: option.splits intro: rtranclp.rtrancl_into_rtrancl tv_try_step)
qed (simp add: tv_run_def)

lemmas tv_defs =
  tv_work_def tv_acquire_def tv_go_def tv_line_def tv_lock_def tv_unlock_def tv_at_def tv_notify_def

lemmas tv_line_splits = if_splits tv_caller.splits option.splits

section \<open>Who holds the mutex\<close>

fun tv_worker_holds :: "tv_worker \<Rightarrow> bool" where
  "tv_worker_holds TTest = True"
| "tv_worker_holds TTake = True"
| "tv_worker_holds (TSet _) = True"
| "tv_worker_holds (TPopped _) = True"
| "tv_worker_holds (TClear _) = True"
| "tv_worker_holds (TCleared _) = True"
| "tv_worker_holds TLeave = True"
| "tv_worker_holds _ = False"

fun tv_caller_holds :: "tv_caller \<Rightarrow> bool" where
  "tv_caller_holds (EnqPush _) = True"
| "tv_caller_holds EnqUnlock = True"
| "tv_caller_holds CancelTest = True"
| "tv_caller_holds CancelCall = True"
| "tv_caller_holds CancelUnlock = True"
| "tv_caller_holds DtorSet = True"
| "tv_caller_holds DtorUnlock = True"
| "tv_caller_holds _ = False"

definition tv_locks :: "worker_sync \<Rightarrow> bool" where
  "tv_locks s \<longleftrightarrow> lock_held (tv_mu s) (tv_worker_holds (tv_place s)) tv_caller_holds (tv_callers s)"

lemma tv_entry_facts [simp]:
  "\<not> tv_caller_holds (tv_entry call)" "tv_entry call \<noteq> CancelCall" "tv_entry call \<noteq> NoCall"
  by (cases call; simp)+

lemma tv_go_callers:
  "tv_go i s = Some t \<Longrightarrow> i < length (tv_callers s) \<and> tv_callers t = (tv_callers s)[i := tv_callers t ! i]"
  by (cases "tv_callers s ! i") (auto simp: tv_defs split: if_splits option.splits)

lemma tv_begin_state:
  "tv_begin i call s = Some t \<Longrightarrow>
     tv_possible call s \<and> t = s\<lparr>tv_callers := (tv_callers s)[i := tv_entry call],
       tv_fresh := (case call of CallEnqueue item \<Rightarrow> Suc (tv_fresh s) | _ \<Rightarrow> tv_fresh s)\<rparr>"
  by (auto simp: tv_begin_def tv_at_def split: if_splits tv_call.splits)

lemma tv_begin_same:
  assumes "tv_begin i call s = Some t"
  shows "tv_place t = tv_place s" "tv_queue t = tv_queue s" "tv_current t = tv_current s"
    "tv_stop t = tv_stop s" "tv_mu t = tv_mu s" "tv_gone t = tv_gone s" "tv_cancelled t = tv_cancelled s"
    "tv_executed t = tv_executed s" "tv_taken t = tv_taken s" "tv_released t = tv_released s"
  using tv_begin_state [OF assms] by simp_all

interpretation tv: calling_threads tv_callers tv_go tv_begin tv_entry NoCall
  by unfold_locales
    (rule tv_go_callers, auto simp: tv_begin_def tv_at_def split: if_splits tv_call.splits)

lemma tv_work_callers: "tv_work s = Some t \<Longrightarrow> tv_callers t = tv_callers s"
  by (cases "tv_place s") (auto simp: tv_work_def tv_acquire_def split: if_splits list.splits)

lemma tv_spurious_state: "tv_spurious s = Some t \<Longrightarrow> tv_place s = TAsleep \<and> t = s\<lparr>tv_place := TWoken\<rparr>"
  by (auto simp: tv_spurious_def split: if_splits)

lemma tv_work_locks: "tv_work s = Some t \<Longrightarrow> tv_locks s \<Longrightarrow> tv_locks t"
proof -
  assume work: "tv_work s = Some t" and inv: "tv_locks s"
  show "tv_locks t"
    unfolding tv_locks_def tv_work_callers [OF work]
    by (rule lock_held_worker [OF inv [unfolded tv_locks_def]])
      (use work in \<open>cases "tv_place s"; auto simp: tv_work_def tv_acquire_def split: if_splits list.splits\<close>)
qed

lemma tv_go_locks:
  assumes go: "tv_go i s = Some t" and inv: "tv_locks s"
  shows "tv_locks t"
proof -
  have i: "i < length (tv_callers s)" and t: "tv_callers t = (tv_callers s)[i := tv_callers t ! i]"
    using tv_go_callers [OF go] by blast+
  have "tv_worker_holds (tv_place t) = tv_worker_holds (tv_place s)"
    using go by (cases "tv_callers s ! i") (auto simp: tv_defs split: if_splits option.splits)
  moreover have "lock_held (tv_mu t) (tv_worker_holds (tv_place s)) tv_caller_holds ((tv_callers s)[i := tv_callers t ! i])"
    by (rule lock_held_caller [OF inv [unfolded tv_locks_def] i])
      (use go in \<open>cases "tv_callers s ! i"; force simp: tv_defs split: if_splits option.splits\<close>)
  ultimately show ?thesis unfolding tv_locks_def by (simp flip: t)
qed

lemma tv_step_locks: "tv_any_step s t \<Longrightarrow> tv_locks s \<Longrightarrow> tv_locks t"
proof (elim tv_any_stepE tv_moveE)
  fix i call
  assume inv: "tv_locks s"
  { assume enter: "tv_begin i call s = Some t"
    then have "i < length (tv_callers s)" "tv_callers s ! i = NoCall" using tv.enter_callers by blast+
    with inv tv_begin_state [OF enter] show "tv_locks t"
      by (auto simp: tv_locks_def intro: lock_held_caller) }
  { assume "tv_spurious s = Some t"
    with inv show "tv_locks t"
      by (auto simp: tv_locks_def dest!: tv_spurious_state intro: lock_held_worker) }
qed (blast intro: tv_work_locks tv_go_locks)+

section \<open>The current cancellable\<close>

text \<open>
  The member points to the cancellable of the item in hand between the two stores, and a
  caller that found it set still finds it set.
\<close>

fun tv_published :: "tv_worker \<Rightarrow> nat option" where
  "tv_published (TPopped item) = px_cancel item"
| "tv_published (TExec item) = px_cancel item"
| "tv_published (TClearLock item) = px_cancel item"
| "tv_published (TClear item) = px_cancel item"
| "tv_published _ = None"

definition tv_current_ok :: "worker_sync \<Rightarrow> bool" where
  "tv_current_ok s \<longleftrightarrow>
     tv_current s = tv_published (tv_place s) \<and>
     (CancelCall \<in> set (tv_callers s) \<longrightarrow> tv_current s \<noteq> None)"

lemma tv_locks_exclude: "tv_locks s \<Longrightarrow> c \<in> set (tv_callers s) \<Longrightarrow> tv_caller_holds c \<Longrightarrow> \<not> tv_worker_holds (tv_place s)"
  using lock_held_alone(1) by (fastforce simp: tv_locks_def in_set_conv_nth)

lemma tv_go_current:
  assumes go: "tv_go i s = Some t"
  shows "tv_current t = tv_current s" "tv_callers t ! i = CancelCall \<Longrightarrow> tv_current s \<noteq> None"
    "tv_place t = tv_place s \<or> tv_place s = TAsleep \<and> tv_place t = TWoken"
  using go by (cases "tv_callers s ! i"; force simp: tv_defs split: if_splits option.splits)+

lemma tv_step_current:
  assumes "tv_any_step s t" "tv_locks s" "tv_current_ok s"
  shows "tv_current_ok t"
  using assms(1)
proof (elim tv_any_stepE tv_moveE)
  { assume work: "tv_work s = Some t"
    have "\<not> tv_worker_holds (tv_place s) \<or> CancelCall \<notin> set (tv_callers s)"
      using tv_locks_exclude [OF assms(2), of CancelCall] by auto
    moreover have "tv_worker_holds (tv_place s) \<or> tv_current t = tv_current s"
      using work by (cases "tv_place s") (auto simp: tv_work_def tv_acquire_def split: if_splits)
    moreover have "tv_current t = tv_published (tv_place t)"
      using work assms(3)
      by (cases "tv_place s") (auto simp: tv_work_def tv_acquire_def tv_current_ok_def split: if_splits list.splits)
    ultimately show ?thesis using assms(3) unfolding tv_current_ok_def tv_work_callers [OF work] by metis }
  { fix i assume go: "tv_go i s = Some t"
    have "CancelCall \<in> set (tv_callers t) \<longrightarrow> CancelCall = tv_callers t ! i \<or> CancelCall \<in> set (tv_callers s)"
      using tv.go_new [OF go] by simp
    moreover have pub: "tv_published (tv_place t) = tv_published (tv_place s)"
      using tv_go_current(3) [OF go] by auto
    ultimately show ?thesis
      using tv_go_current(2) [OF go] assms(3)
      unfolding tv_current_ok_def tv_go_current(1) [OF go] pub by metis }
  { fix i call assume enter: "tv_begin i call s = Some t"
    have "CancelCall \<in> set (tv_callers t) \<longrightarrow> CancelCall \<in> set (tv_callers s)"
      using tv.enter_new [OF enter, of CancelCall] tv_entry_facts(2) [of call] by metis
    with assms(3) show ?thesis unfolding tv_current_ok_def tv_begin_same [OF enter] by metis }
  { assume "tv_spurious s = Some t"
    with assms(3) show ?thesis by (auto simp: tv_current_ok_def dest!: tv_spurious_state) }
qed

section \<open>The flag, the queue and the wakeups\<close>

fun tv_notifies :: "tv_caller \<Rightarrow> bool" where
  "tv_notifies EnqUnlock = True"
| "tv_notifies EnqNotify = True"
| "tv_notifies DtorUnlock = True"
| "tv_notifies DtorNotify = True"
| "tv_notifies _ = False"

text \<open>No wakeup is lost: a worker asleep with something to do has a notification coming.\<close>

definition tv_wakes :: "worker_sync \<Rightarrow> bool" where
  "tv_wakes s \<longleftrightarrow>
     (tv_place s = TAsleep \<and> (tv_stop s \<or> tv_queue s \<noteq> []) \<longrightarrow>
      (\<exists>c \<in> set (tv_callers s). tv_notifies c))"

text \<open>What the worker found out under the lock is so, and it returned only when told to.\<close>

fun tv_finds :: "tv_worker \<Rightarrow> bool \<Rightarrow> bool \<Rightarrow> bool" where
  "tv_finds TTake stop busy \<longleftrightarrow> stop \<or> busy"
| "tv_finds TLeave stop busy \<longleftrightarrow> stop"
| "tv_finds TReturned stop busy \<longleftrightarrow> stop"
| "tv_finds _ stop busy \<longleftrightarrow> True"

definition tv_found :: "worker_sync \<Rightarrow> bool" where
  "tv_found s \<longleftrightarrow> tv_finds (tv_place s) (tv_stop s) (tv_queue s \<noteq> [])"

lemma tv_go_found:
  assumes "tv_go i s = Some t" "tv_found s"
  shows "tv_found t"
  using assms
  by (cases "tv_callers s ! i"; cases "tv_place s")
    (auto simp: tv_defs tv_found_def split: if_splits option.splits)

lemma tv_step_found: "tv_any_step s t \<Longrightarrow> tv_found s \<Longrightarrow> tv_found t"
proof (elim tv_any_stepE tv_moveE)
  assume inv: "tv_found s"
  { assume "tv_work s = Some t"
    with inv show "tv_found t"
      by (cases "tv_place s") (auto simp: tv_work_def tv_acquire_def tv_found_def split: if_splits list.splits) }
  { fix i call assume enter: "tv_begin i call s = Some t"
    with inv show "tv_found t" by (simp add: tv_found_def tv_begin_same [OF enter]) }
  { assume "tv_spurious s = Some t"
    with inv show "tv_found t" by (auto simp: tv_found_def dest!: tv_spurious_state) }
qed (rule tv_go_found)

lemma tv_go_wakes:
  assumes go: "tv_go i s = Some t" and inv: "tv_wakes s"
  shows "tv_wakes t"
proof -
  have "tv_notifies (tv_callers t ! i) \<or> tv_place t = tv_place s \<and> tv_stop t = tv_stop s \<and>
      tv_queue t = tv_queue s \<and> \<not> tv_notifies (tv_callers s ! i) \<or> tv_place t \<noteq> TAsleep"
    using go by (cases "tv_callers s ! i") (auto simp: tv_defs split: if_splits option.splits)
  then show ?thesis
    using inv tv.go_others [OF go] tv.go_places(2) [OF go]
    unfolding tv_wakes_def by (elim disjE) metis+
qed

lemma tv_step_wakes: "tv_any_step s t \<Longrightarrow> tv_wakes s \<Longrightarrow> tv_wakes t"
proof (elim tv_any_stepE tv_moveE)
  assume inv: "tv_wakes s"
  { assume work: "tv_work s = Some t"
    then have "tv_place t = TAsleep \<longrightarrow> \<not> tv_stop t \<and> tv_queue t = []"
      by (cases "tv_place s") (auto simp: tv_work_def tv_acquire_def split: if_splits list.splits)
    then show "tv_wakes t" by (auto simp: tv_wakes_def) }
  { fix i call assume enter: "tv_begin i call s = Some t"
    have "c \<in> set (tv_callers t)" if "c \<in> set (tv_callers s)" "tv_notifies c" for c
      using tv.enter_others [OF enter that(1)] that(2) by (cases c) auto
    with inv show "tv_wakes t" unfolding tv_wakes_def tv_begin_same [OF enter] by blast }
  { assume "tv_spurious s = Some t"
    then show "tv_wakes t" by (auto simp: tv_wakes_def dest!: tv_spurious_state) }
qed (rule tv_go_wakes)

section \<open>The destructor\<close>

text \<open>
  It runs alone; past its first line the flag is set, past the join the worker has returned;
  and the flag is set by nothing else.
\<close>

fun dtor_past_set :: "tv_caller \<Rightarrow> bool" where
  "dtor_past_set DtorUnlock = True"
| "dtor_past_set DtorNotify = True"
| "dtor_past_set DtorJoin = True"
| "dtor_past_set DtorUnref = True"
| "dtor_past_set _ = False"

definition dtor_alone :: "tv_caller list \<Rightarrow> bool" where
  "dtor_alone cs \<longleftrightarrow>
     (\<forall>i < length cs. in_dtor (cs ! i) \<longrightarrow> (\<forall>j < length cs. j \<noteq> i \<longrightarrow> cs ! j = NoCall))"

definition tv_dtor :: "worker_sync \<Rightarrow> bool" where
  "tv_dtor s \<longleftrightarrow>
     dtor_alone (tv_callers s) \<and>
     (DtorUnref \<in> set (tv_callers s) \<longrightarrow> tv_place s = TReturned) \<and>
     (tv_gone s \<longrightarrow> tv_place s = TReturned \<and> (\<forall>c \<in> set (tv_callers s). c = NoCall)) \<and>
     (tv_stop s \<longleftrightarrow> tv_gone s \<or> (\<exists>c \<in> set (tv_callers s). dtor_past_set c))"

lemma past_set_in_dtor: "dtor_past_set c \<Longrightarrow> in_dtor c"
  by (cases c) auto

lemma dtor_alone_update:
  assumes "\<And>j. j < length cs \<Longrightarrow> j \<noteq> i \<Longrightarrow> cs ! j = NoCall"
  shows "dtor_alone (cs[i := c])"
  unfolding dtor_alone_def
proof (intro allI impI)
  fix j k assume "j < length (cs[i := c])" "in_dtor (cs[i := c] ! j)" "k < length (cs[i := c])" "k \<noteq> j"
  with assms [of j] assms [of k] show "cs[i := c] ! k = NoCall"
    by (cases "j = i"; cases "k = i") simp_all
qed

lemma dtor_alone_set:
  assumes "dtor_alone cs" "i < length cs" "in_dtor (cs ! i)"
  shows "set cs \<subseteq> {NoCall, cs ! i}" "set (cs[i := c]) \<subseteq> {NoCall, c}" "dtor_alone (cs[i := c])"
proof -
  have others: "j < length cs \<Longrightarrow> j \<noteq> i \<Longrightarrow> cs ! j = NoCall" for j
    using assms unfolding dtor_alone_def by blast
  show "set cs \<subseteq> {NoCall, cs ! i}"
  proof
    fix d assume "d \<in> set cs"
    then obtain j where "j < length cs" "cs ! j = d" by (auto simp: in_set_conv_nth)
    with others [of j] show "d \<in> {NoCall, cs ! i}" by (cases "j = i") auto
  qed
  show "set (cs[i := c]) \<subseteq> {NoCall, c}"
  proof
    fix d assume "d \<in> set (cs[i := c])"
    then obtain j where "j < length cs" "cs[i := c] ! j = d" by (auto simp: in_set_conv_nth)
    with others [of j] show "d \<in> {NoCall, c}" by (cases "j = i") auto
  qed
  show "dtor_alone (cs[i := c])" using others by (rule dtor_alone_update)
qed

lemma no_dtor_alone: "\<forall>c \<in> set cs. \<not> in_dtor c \<Longrightarrow> dtor_alone cs"
  by (auto simp: dtor_alone_def)

lemma dtor_not_beside:
  assumes "dtor_alone cs" "i < length cs" "cs ! i \<noteq> NoCall" "\<not> in_dtor (cs ! i)"
  shows "\<forall>c \<in> set cs. \<not> in_dtor c"
proof
  fix c assume "c \<in> set cs"
  then obtain j where "j < length cs" "cs ! j = c" by (auto simp: in_set_conv_nth)
  with assms show "\<not> in_dtor c" unfolding dtor_alone_def by metis
qed

lemma tv_go_busy: "tv_go i s = Some t \<Longrightarrow> tv_callers s ! i \<noteq> NoCall"
  by (auto simp: tv_go_def tv_line_def split: if_splits)

lemma tv_go_dtor:
  assumes go: "tv_go i s = Some t" and inv: "tv_dtor s"
  shows "tv_dtor t"
proof (cases "in_dtor (tv_callers s ! i)")
  case True
  let ?c = "tv_callers t ! i"
  have alone: "dtor_alone (tv_callers s)" using inv by (simp add: tv_dtor_def)
  have i: "i < length (tv_callers s)" and t: "tv_callers t = (tv_callers s)[i := ?c]"
    using tv_go_callers [OF go] by blast+
  have "set (tv_callers s) \<subseteq> {NoCall, tv_callers s ! i}" "tv_callers s ! i \<in> set (tv_callers s)"
    using dtor_alone_set(1) [OF alone i True] i by auto
  then have s: "tv_stop s \<longleftrightarrow> tv_gone s \<or> dtor_past_set (tv_callers s ! i)"
    "tv_callers s ! i = DtorUnref \<longrightarrow> tv_place s = TReturned" "\<not> tv_gone s"
    using inv True tv_go_busy [OF go] unfolding tv_dtor_def by fastforce+
  have "set (tv_callers t) \<subseteq> {NoCall, ?c}" "?c \<in> set (tv_callers t)"
    using dtor_alone_set(2) [OF alone i True, of ?c] tv.go_places(2) [OF go] t by simp_all
  moreover have "dtor_alone (tv_callers t)" using dtor_alone_set(3) [OF alone i True, of ?c] t by simp
  moreover have "(?c = DtorUnref \<longrightarrow> tv_place t = TReturned) \<and>
      (tv_gone t \<longrightarrow> tv_place t = TReturned \<and> ?c = NoCall) \<and>
      (tv_stop t \<longleftrightarrow> tv_gone t \<or> dtor_past_set ?c)"
    using go s True i by (cases "tv_callers s ! i") (auto simp: tv_defs split: if_splits)
  ultimately show ?thesis by (auto simp: tv_dtor_def)
next
  case False
  have none: "\<forall>c \<in> set (tv_callers s). \<not> in_dtor c"
    using dtor_not_beside [of "tv_callers s" i] inv False tv_go_busy [OF go] tv_go_callers [OF go]
    by (auto simp: tv_dtor_def)
  have "\<not> tv_gone s" using inv tv_go_busy [OF go] tv.go_places(1) [OF go] unfolding tv_dtor_def by blast
  moreover have "\<not> tv_stop s"
    using inv none past_set_in_dtor \<open>\<not> tv_gone s\<close> unfolding tv_dtor_def by blast
  moreover have "\<not> in_dtor (tv_callers t ! i)" "tv_stop t = tv_stop s" "tv_gone t = tv_gone s"
    using go False by (cases "tv_callers s ! i"; force simp: tv_defs split: if_splits option.splits)+
  moreover from this(1) have "\<forall>c \<in> set (tv_callers t). \<not> in_dtor c"
    using tv.go_new [OF go] none by blast
  ultimately show ?thesis
    using no_dtor_alone past_set_in_dtor unfolding tv_dtor_def by (metis in_dtor.simps(6))
qed

lemma tv_step_dtor: "tv_step s t \<Longrightarrow> tv_dtor s \<Longrightarrow> tv_dtor t"
proof (elim tv_stepE tv_moveE)
  assume inv: "tv_dtor s"
  { assume work: "tv_work s = Some t"
    then have "tv_stop t = tv_stop s" "tv_gone t = tv_gone s" "tv_place s \<noteq> TReturned"
      by (cases "tv_place s"; auto simp: tv_work_def tv_acquire_def split: if_splits list.splits)+
    with inv show "tv_dtor t" by (simp add: tv_dtor_def tv_work_callers [OF work]) }
  { fix i call assume contract: "tv_contract call s" and enter: "tv_begin i call s = Some t"
    from contract tv_begin_state [OF enter] have owed: "\<not> tv_gone s" "\<forall>c \<in> set (tv_callers s). \<not> in_dtor c"
      "call = CallDestroy \<longrightarrow> (\<forall>c \<in> set (tv_callers s). c = NoCall)"
      "tv_callers t = (tv_callers s)[i := tv_entry call]"
      by (auto simp: tv_contract_def list_all_iff)
    have "dtor_alone (tv_callers t)"
    proof (cases "call = CallDestroy")
      case True
      then show ?thesis unfolding owed(4) by (intro dtor_alone_update) (use owed(3) in simp)
    next
      case False
      then have "\<not> in_dtor (tv_entry call)" by (cases call) auto
      with owed(2) tv.enter_new [OF enter] show ?thesis by (blast intro: no_dtor_alone)
    qed
    moreover have "\<not> dtor_past_set (tv_entry call)" "tv_entry call \<noteq> DtorUnref" by (cases call; simp)+
    then have "\<forall>c \<in> set (tv_callers t). \<not> dtor_past_set c \<and> c \<noteq> DtorUnref"
      using owed(2) tv.enter_new [OF enter] past_set_in_dtor by (metis in_dtor.simps(6))
    moreover have "\<not> tv_stop s" using inv owed(1,2) past_set_in_dtor unfolding tv_dtor_def by blast
    ultimately show "tv_dtor t" using owed(1) by (auto simp: tv_dtor_def tv_begin_same [OF enter]) }
  { assume "tv_spurious s = Some t"
    with inv show "tv_dtor t" by (auto simp: tv_dtor_def dest!: tv_spurious_state) }
qed (rule tv_go_dtor)

text \<open>Whatever the callers do, the object is deleted only after its thread has returned.\<close>

definition tv_joined :: "worker_sync \<Rightarrow> bool" where
  "tv_joined s \<longleftrightarrow> (tv_gone s \<or> DtorUnref \<in> set (tv_callers s) \<longrightarrow> tv_place s = TReturned)"

lemma tv_go_joined:
  assumes go: "tv_go i s = Some t" and inv: "tv_joined s"
  shows "tv_joined t"
proof -
  have "tv_place s = TReturned \<longrightarrow> tv_place t = TReturned" "\<not> tv_gone s"
    "tv_callers t ! i = DtorUnref \<longrightarrow> tv_place s = TReturned"
    "tv_gone t \<longrightarrow> tv_gone s \<or> tv_callers s ! i = DtorUnref"
    using go tv_go_callers [OF go] by (cases "tv_callers s ! i"; auto simp: tv_defs split: if_splits option.splits)+
  with inv tv.go_new [OF go] tv.go_places(1) [OF go] show ?thesis unfolding tv_joined_def by metis
qed

lemma tv_step_joined: "tv_any_step s t \<Longrightarrow> tv_joined s \<Longrightarrow> tv_joined t"
proof (elim tv_any_stepE tv_moveE)
  assume inv: "tv_joined s"
  { assume work: "tv_work s = Some t"
    then have "tv_gone t = tv_gone s" "tv_place s \<noteq> TReturned"
      by (cases "tv_place s"; auto simp: tv_work_def tv_acquire_def split: if_splits list.splits)+
    with inv show "tv_joined t" by (simp add: tv_joined_def tv_work_callers [OF work]) }
  { fix i call assume enter: "tv_begin i call s = Some t"
    have "tv_entry call \<noteq> DtorUnref" by (cases call) simp_all
    with inv tv.enter_new [OF enter, of DtorUnref] show "tv_joined t"
      unfolding tv_joined_def tv_begin_same [OF enter] by metis }
  { assume "tv_spurious s = Some t"
    with inv show "tv_joined t" by (auto simp: tv_joined_def dest!: tv_spurious_state) }
qed (rule tv_go_joined)

section \<open>The simulation\<close>

fun tv_abs_pc :: "tv_worker \<Rightarrow> tw_pc" where
  "tv_abs_pc (TSet item) = TwRun item"
| "tv_abs_pc (TPopped item) = TwRun item"
| "tv_abs_pc (TExec item) = TwRun item"
| "tv_abs_pc (TClearLock item) = TwClear item"
| "tv_abs_pc (TClear item) = TwClear item"
| "tv_abs_pc TLeave = TwDone"
| "tv_abs_pc TReturned = TwDone"
| "tv_abs_pc _ = TwWait"

text \<open>Between the pop and the store, with the lock held, the cancellable counts as published.\<close>

fun tv_abs_current :: "tv_worker \<Rightarrow> nat option \<Rightarrow> nat option" where
  "tv_abs_current (TSet item) current = px_cancel item"
| "tv_abs_current _ current = current"

definition tv_abs :: "worker_sync \<Rightarrow> TransactionWorker" where
  "tv_abs s =
     \<lparr>tw_queue = tv_queue s,
      tw_current_cancel = tv_abs_current (tv_place s) (tv_current s),
      tw_stop = tv_stop s, tw_pc = tv_abs_pc (tv_place s), tw_cancelled = tv_cancelled s,
      tw_executed = tv_executed s, tw_taken = tv_taken s\<rparr>"

lemma tv_work_abs:
  assumes work: "tv_work s = Some t" and current: "tv_current_ok s"
  shows "tw_step\<^sup>*\<^sup>* (tv_abs s) (tv_abs t)"
proof -
  have "tw_loop (tv_abs s) = Some (tv_abs t)"
    if "tv_place s = TTake \<or> (\<exists>item. tv_place s = TExec item \<or> tv_place s = TClear item)"
    using work that current
    by (cases "tv_queue s")
      (auto simp: tv_work_def tv_abs_def tw_loop_def tv_current_ok_def split: if_splits)
  moreover have "tv_abs t = tv_abs s"
    if "\<not> (tv_place s = TTake \<or> (\<exists>item. tv_place s = TExec item \<or> tv_place s = TClear item))"
    using work that
    by (cases "tv_place s") (auto simp: tv_work_def tv_acquire_def tv_abs_def split: if_splits)
  ultimately show ?thesis using tw_step.work r_into_rtranclp rtranclp.rtrancl_refl by metis
qed

lemma tv_notify_abs [simp]: "tv_abs (tv_notify s) = tv_abs s"
  by (simp add: tv_notify_def tv_abs_def)

lemma tv_go_abs:
  assumes go: "tv_go i s = Some t" and locks: "tv_locks s"
  shows "tw_step\<^sup>*\<^sup>* (tv_abs s) (tv_abs t)"
proof (cases "tv_callers s ! i")
  case (EnqPush item)
  with go have "tv_abs t = tw_enqueue item (tv_abs s)"
    by (auto simp: tv_defs tv_abs_def tw_enqueue_def split: if_splits)
  then show ?thesis by (auto intro: tw_step.enqueue)
next
  case CancelCall
  with tv.go_places(1) [OF go] locks have "\<not> tv_worker_holds (tv_place s)"
    by (intro tv_locks_exclude [of s CancelCall]) simp_all
  with CancelCall go have "tv_abs t = tw_cancel_current (tv_abs s)"
    by (cases "tv_place s")
      (auto simp: tv_defs tv_abs_def tw_cancel_current_def split: if_splits option.splits)
  then show ?thesis by (auto intro: tw_step.cancel)
next
  case DtorSet
  with go have "tv_abs t = tw_request_stop (tv_abs s)"
    by (auto simp: tv_defs tv_abs_def tw_request_stop_def split: if_splits)
  then show ?thesis by (auto intro: tw_step.request_stop)
qed (use go in \<open>auto simp: tv_go_def tv_line_def tv_lock_def tv_unlock_def tv_at_def tv_abs_def tv_notify_def split: if_splits\<close>)

text \<open>
  The order of the batches: numbers are given out once, so no two batches taken, or on their
  way in, share an object.
\<close>

fun tv_bringing :: "tv_caller \<Rightarrow> nat multiset" where
  "tv_bringing (EnqLock item) = {#px_tx item#}"
| "tv_bringing (EnqPush item) = {#px_tx item#}"
| "tv_bringing _ = {#}"

fun tv_brings :: "tv_caller \<Rightarrow> PendingTx option" where
  "tv_brings (EnqLock item) = Some item"
| "tv_brings (EnqPush item) = Some item"
| "tv_brings _ = None"

definition tv_numbers :: "worker_sync \<Rightarrow> bool" where
  "tv_numbers s \<longleftrightarrow>
     mset (map px_tx (tv_taken s)) + sum_list (map tv_bringing (tv_callers s)) = mset [0..<tv_fresh s] \<and>
     (\<forall>item \<in> set (tv_taken s). px_cancel item = Some (px_tx item)) \<and>
     (\<forall>c \<in> set (tv_callers s). \<forall>item. tv_brings c = Some item \<longrightarrow> px_cancel item = Some (px_tx item))"

text \<open>What the worker has still to release of the batches it executed.\<close>

fun tv_owed :: "tv_worker \<Rightarrow> tx_object list" where
  "tv_owed (TClearLock item) = release_item item"
| "tv_owed (TClear item) = release_item item"
| "tv_owed (TCleared item) = release_item item"
| "tv_owed (TUnrefCancel item) = release_item item"
| "tv_owed (TUnrefTx item) = [TxObj (px_tx item)]"
| "tv_owed _ = []"

definition tv_releases :: "worker_sync \<Rightarrow> bool" where
  "tv_releases s \<longleftrightarrow> tv_released s @ tv_owed (tv_place s) = concat (map release_item (tv_executed s))"

lemma tv_go_releases: "tv_go i s = Some t \<Longrightarrow> tv_releases s \<Longrightarrow> tv_releases t"
  by (cases "tv_callers s ! i"; cases "tv_place s")
    (auto simp: tv_defs tv_releases_def split: if_splits option.splits)

lemma tv_step_releases: "tv_any_step s t \<Longrightarrow> tv_releases s \<Longrightarrow> tv_releases t"
proof (elim tv_any_stepE tv_moveE)
  assume inv: "tv_releases s"
  { assume "tv_work s = Some t"
    with inv show "tv_releases t"
      by (cases "tv_place s")
        (auto simp: tv_work_def tv_acquire_def tv_releases_def release_item_def split: if_splits list.splits) }
  { fix i call assume enter: "tv_begin i call s = Some t"
    with inv show "tv_releases t" by (simp add: tv_releases_def tv_begin_same [OF enter]) }
  { assume "tv_spurious s = Some t"
    with inv show "tv_releases t" by (auto simp: tv_releases_def dest!: tv_spurious_state) }
qed (rule tv_go_releases)

lemma tv_work_same: "tv_work s = Some t \<Longrightarrow> tv_taken t = tv_taken s \<and> tv_fresh t = tv_fresh s"
  by (cases "tv_place s") (auto simp: tv_work_def tv_acquire_def split: if_splits list.splits)

text \<open>A caller that moves keeps its batch, or hands it to the queue.\<close>

lemma tv_go_batch:
  assumes "tv_go i s = Some t"
  shows "tv_fresh t = tv_fresh s"
    "mset (map px_tx (tv_taken t)) + tv_bringing (tv_callers t ! i) =
       mset (map px_tx (tv_taken s)) + tv_bringing (tv_callers s ! i)"
    "set (tv_taken t) \<subseteq> set (tv_taken s) \<union> set_option (tv_brings (tv_callers s ! i))"
    "tv_brings (tv_callers t ! i) = None \<or> tv_brings (tv_callers t ! i) = tv_brings (tv_callers s ! i)"
  using assms tv_go_callers [OF assms]
  by (cases "tv_callers s ! i"; auto simp: tv_defs split: if_splits option.splits)+

lemma tv_go_numbers:
  assumes go: "tv_go i s = Some t" and inv: "tv_numbers s"
  shows "tv_numbers t"
proof -
  let ?sum = "\<lambda>s. mset (map px_tx (tv_taken s)) + sum_list (map tv_bringing (tv_callers s))"
  have "?sum t = ?sum s"
  proof (rule multiset_eqI)
    fix x
    show "count (?sum t) x = count (?sum s) x"
      using tv.go_sum [OF go, of tv_bringing, THEN arg_cong [of _ _ "\<lambda>m. count m x"]]
        tv_go_batch(2) [OF go, THEN arg_cong [of _ _ "\<lambda>m. count m x"]]
      by simp
  qed
  moreover have old: "px_cancel item = Some (px_tx item)"
    if "tv_brings (tv_callers s ! i) = Some item \<or> item \<in> set (tv_taken s)" for item
    using that inv tv.go_places(1) [OF go] unfolding tv_numbers_def by blast
  then have "\<forall>item \<in> set (tv_taken t). px_cancel item = Some (px_tx item)"
    using tv_go_batch(3) [OF go] by (fastforce simp: elem_set)
  moreover have "px_cancel item = Some (px_tx item)"
    if "c \<in> set (tv_callers t)" "tv_brings c = Some item" for c item
    using tv.go_new [OF go that(1)] tv_go_batch(4) [OF go] that(2) old inv
    unfolding tv_numbers_def by (metis option.distinct(1))
  ultimately show ?thesis using inv tv_go_batch(1) [OF go] unfolding tv_numbers_def by metis
qed

lemma tv_step_numbers: "tv_any_step s t \<Longrightarrow> tv_numbers s \<Longrightarrow> tv_numbers t"
proof (elim tv_any_stepE tv_moveE)
  assume inv: "tv_numbers s"
  { assume work: "tv_work s = Some t"
    with inv show "tv_numbers t" by (simp add: tv_numbers_def tv_work_callers tv_work_same) }
  { fix i call assume enter: "tv_begin i call s = Some t"
    have fresh: "tv_possible call s" "tv_fresh t = (case call of CallEnqueue item \<Rightarrow> Suc (tv_fresh s) | _ \<Rightarrow> tv_fresh s)"
      using tv_begin_state [OF enter] by simp_all
    have "mset (map px_tx (tv_taken t)) + sum_list (map tv_bringing (tv_callers t)) = mset [0..<tv_fresh t]"
      using inv tv.enter_sum [OF enter, of tv_bringing] fresh
      by (cases call) (auto simp: tv_numbers_def tv_begin_same [OF enter] tv_possible_def)
    moreover have "tv_brings (tv_entry call) = Some item \<longrightarrow> px_cancel item = Some (px_tx item)" for item
      using fresh(1) by (cases call) (auto simp: tv_possible_def)
    then have "\<forall>c \<in> set (tv_callers t). \<forall>item. tv_brings c = Some item \<longrightarrow> px_cancel item = Some (px_tx item)"
      using inv tv.enter_new [OF enter] unfolding tv_numbers_def by blast
    ultimately show "tv_numbers t" using inv by (simp add: tv_numbers_def tv_begin_same [OF enter]) }
  { assume "tv_spurious s = Some t"
    with inv show "tv_numbers t" by (auto simp: tv_numbers_def dest!: tv_spurious_state) }
qed (rule tv_go_numbers)

definition tv_any_inv :: "worker_sync \<Rightarrow> bool" where
  "tv_any_inv s \<longleftrightarrow>
     tv_locks s \<and> tv_current_ok s \<and> tv_found s \<and> tv_wakes s \<and> tv_joined s \<and> tv_numbers s \<and> tv_releases s"

lemma tv_step_any_inv: "tv_any_step s t \<Longrightarrow> tv_any_inv s \<Longrightarrow> tv_any_inv t"
  unfolding tv_any_inv_def
  using tv_step_locks tv_step_current tv_step_found tv_step_wakes tv_step_joined tv_step_numbers
    tv_step_releases by metis

lemma sum_list_bringing: "\<forall>c \<in> set cs. c = NoCall \<Longrightarrow> sum_list (map tv_bringing cs) = {#}"
  by (induction cs) simp_all

lemma tv_new_inv: "tv_any_inv (tv_new n)" "tv_dtor (tv_new n)"
  by (auto simp: tv_any_inv_def tv_new_def tv_locks_def lock_held_def tv_current_ok_def tv_found_def
      tv_wakes_def tv_joined_def tv_dtor_def no_dtor_alone tv_numbers_def tv_releases_def sum_list_bringing
      simp del: sum_list_replicate map_replicate)

lemma tv_step_abs:
  assumes "tv_any_step s t" "tv_any_inv s"
  shows "tw_step\<^sup>*\<^sup>* (tv_abs s) (tv_abs t)"
  using assms
proof (elim tv_any_stepE tv_moveE)
  assume inv: "tv_any_inv s"
  { assume "tv_work s = Some t"
    then show ?thesis using inv tv_work_abs unfolding tv_any_inv_def by blast }
  { fix i assume "tv_go i s = Some t"
    then show ?thesis using inv tv_go_abs unfolding tv_any_inv_def by blast }
  { fix i call assume "tv_begin i call s = Some t"
    then show ?thesis by (simp add: tv_abs_def tv_begin_same) }
  { assume "tv_spurious s = Some t"
    then have "tv_abs t = tv_abs s" by (auto simp: tv_abs_def dest!: tv_spurious_state)
    then show ?thesis by simp }
qed

interpretation tv_worker: simulation "\<lambda>s. \<exists>n. s = tv_new n" tv_any_step "\<lambda>w. w = tw_new" tw_step tv_abs tv_any_inv
proof unfold_locales
  fix s t
  show "\<exists>n. s = tv_new n \<Longrightarrow> tv_abs s = tw_new" by (auto simp: tv_new_def tv_abs_def tw_new_def)
  show "\<exists>n. s = tv_new n \<Longrightarrow> tv_any_inv s" by (auto intro: tv_new_inv)
  show "tv_any_step s t \<Longrightarrow> tv_any_inv s \<Longrightarrow> tv_any_inv t" by (rule tv_step_any_inv)
  show "tv_any_step s t \<Longrightarrow> tv_any_inv s \<Longrightarrow> tw_step\<^sup>*\<^sup>* (tv_abs s) (tv_abs t)" by (rule tv_step_abs)
qed

lemma tv_run_any_inv: "tv_any_step\<^sup>*\<^sup>* (tv_new n) s \<Longrightarrow> tv_any_inv s"
  using tv_worker.run_keeps by blast

lemma tv_run_dtor: "tv_step\<^sup>*\<^sup>* (tv_new n) s \<Longrightarrow> tv_dtor s"
  by (induction rule: rtranclp_induct) (auto intro: tv_new_inv tv_step_dtor)

lemma tv_run_abs: "tv_any_step\<^sup>*\<^sup>* (tv_new n) s \<Longrightarrow> tw_step\<^sup>*\<^sup>* tw_new (tv_abs s)"
  using tv_worker.run_abs [of "tv_new n" s] by fastforce

lemma tv_run_accounts:
  "tv_any_step\<^sup>*\<^sup>* (tv_new n) s \<Longrightarrow> tv_taken s = tv_executed s @ tw_in_hand (tv_abs s) @ tv_queue s"
  using tx_worker.run_accounts [OF refl tv_run_abs] by (simp add: tv_abs_def)

section \<open>Objects\<close>

text \<open>The objects of different batches are different.\<close>

lemma distinct_released:
  assumes "distinct (map px_tx items)" "\<forall>item \<in> set items. px_cancel item = Some (px_tx item)"
  shows "distinct (concat (map release_item items))"
  using assms by (induction items) (auto simp: release_item_def)

lemma tv_taken_distinct:
  assumes "tv_numbers s"
  shows "distinct (concat (map release_item (tv_taken s)))"
proof (rule distinct_released)
  obtain ns where "mset ns = sum_list (map tv_bringing (tv_callers s))" using ex_mset by blast
  then have "mset (map px_tx (tv_taken s) @ ns) = mset [0..<tv_fresh s]"
    using assms by (simp add: tv_numbers_def)
  then have "distinct (map px_tx (tv_taken s) @ ns)"
    using distinct_upt mset_eq_imp_distinct_iff by blast
  then show "distinct (map px_tx (tv_taken s))" by simp
  show "\<forall>item \<in> set (tv_taken s). px_cancel item = Some (px_tx item)"
    using assms by (simp add: tv_numbers_def)
qed

text \<open>
  An object the worker still needs has its reference: while a batch is in hand, or its release
  is still owed, its objects are not among those released.
\<close>

lemma tv_in_use:
  assumes run: "tv_any_step\<^sup>*\<^sup>* (tv_new n) s"
  shows "distinct (tv_released s)"
    "x \<in> set (concat (map release_item (tw_in_hand (tv_abs s) @ tv_queue s))) \<union> set (tv_owed (tv_place s)) \<Longrightarrow>
       x \<notin> set (tv_released s)"
proof -
  have inv: "tv_any_inv s" using run by (rule tv_run_any_inv)
  then have "distinct (concat (map release_item (tv_taken s)))"
    using tv_taken_distinct by (simp add: tv_any_inv_def)
  moreover have "tv_released s @ tv_owed (tv_place s) = concat (map release_item (tv_executed s))"
    using inv by (simp add: tv_any_inv_def tv_releases_def)
  ultimately have "distinct ((tv_released s @ tv_owed (tv_place s)) @
      concat (map release_item (tw_in_hand (tv_abs s) @ tv_queue s)))"
    by (simp only: tv_run_accounts [OF run] map_append concat_append)
  then show "distinct (tv_released s)"
    "x \<in> set (concat (map release_item (tw_in_hand (tv_abs s) @ tv_queue s))) \<union> set (tv_owed (tv_place s)) \<Longrightarrow>
       x \<notin> set (tv_released s)"
    by auto
qed

lemma tv_published_in_use:
  assumes "tv_published (tv_place s) = Some c"
  shows "CancelObj c \<in> set (concat (map release_item (tw_in_hand (tv_abs s) @ tv_queue s))) \<union> set (tv_owed (tv_place s))"
  using assms by (cases "tv_place s") (auto simp: tw_in_hand_def tv_abs_def release_item_def)

text \<open>Only \<open>cancel_current\<close> signals, and what the member holds.\<close>

lemma tv_signals:
  "tv_work s = Some t \<Longrightarrow> c \<in> tv_cancelled t - tv_cancelled s \<Longrightarrow> tv_current s = Some c"
  "tv_go i s = Some t \<Longrightarrow> c \<in> tv_cancelled t - tv_cancelled s \<Longrightarrow> tv_current s = Some c"
  "tv_begin i call s = Some t \<Longrightarrow> c \<in> tv_cancelled t - tv_cancelled s \<Longrightarrow> tv_current s = Some c"
  "tv_spurious s = Some t \<Longrightarrow> c \<in> tv_cancelled t - tv_cancelled s \<Longrightarrow> tv_current s = Some c"
proof -
  show "tv_work s = Some t \<Longrightarrow> c \<in> tv_cancelled t - tv_cancelled s \<Longrightarrow> tv_current s = Some c"
    by (cases "tv_place s") (auto simp: tv_work_def tv_acquire_def split: if_splits list.splits)
  show "tv_go i s = Some t \<Longrightarrow> c \<in> tv_cancelled t - tv_cancelled s \<Longrightarrow> tv_current s = Some c"
    by (cases "tv_callers s ! i") (auto simp: tv_defs split: if_splits option.splits)
qed (auto simp: tv_begin_same dest!: tv_spurious_state)

section \<open>Every call returns\<close>

text \<open>
  What is left to do inside the class. A notification may cost the worker a round through the
  wait, a batch a round of the loop.
\<close>

fun tv_worker_left :: "tv_worker \<Rightarrow> nat" where
  "tv_worker_left TAsleep = 0"
| "tv_worker_left TReturned = 0"
| "tv_worker_left TLeave = 1"
| "tv_worker_left TTake = 2"
| "tv_worker_left TTest = 3"
| "tv_worker_left TLock = 4"
| "tv_worker_left TWoken = 4"
| "tv_worker_left (TUnrefTx _) = 5"
| "tv_worker_left (TUnrefCancel _) = 6"
| "tv_worker_left (TCleared _) = 7"
| "tv_worker_left (TClear _) = 8"
| "tv_worker_left (TClearLock _) = 9"
| "tv_worker_left (TExec _) = 10"
| "tv_worker_left (TPopped _) = 11"
| "tv_worker_left (TSet _) = 12"

fun tv_caller_left :: "tv_caller \<Rightarrow> nat" where
  "tv_caller_left NoCall = 0"
| "tv_caller_left (EnqLock _) = 19"
| "tv_caller_left (EnqPush _) = 18"
| "tv_caller_left EnqUnlock = 6"
| "tv_caller_left EnqNotify = 5"
| "tv_caller_left CancelLock = 4"
| "tv_caller_left CancelTest = 3"
| "tv_caller_left CancelCall = 2"
| "tv_caller_left CancelUnlock = 1"
| "tv_caller_left DtorLock = 10"
| "tv_caller_left DtorSet = 9"
| "tv_caller_left DtorUnlock = 8"
| "tv_caller_left DtorNotify = 7"
| "tv_caller_left DtorJoin = 2"
| "tv_caller_left DtorUnref = 1"

definition tv_left :: "worker_sync \<Rightarrow> nat" where
  "tv_left s =
     tv_worker_left (tv_place s) + 11 * length (tv_queue s) + sum_list (map tv_caller_left (tv_callers s))"

lemma tv_move_left:
  assumes "tv_move s t"
  shows "tv_left t < tv_left s"
  using assms
proof (elim tv_moveE)
  assume "tv_work s = Some t"
  then show ?thesis
    by (cases "tv_place s") (auto simp: tv_work_def tv_acquire_def tv_left_def split: if_splits list.splits)
next
  fix i assume go: "tv_go i s = Some t"
  then have i: "i < length (tv_callers s)" using tv_go_callers by blast
  have "tv_worker_left (tv_place t) + 11 * length (tv_queue t) + tv_caller_left (tv_callers t ! i) <
      tv_worker_left (tv_place s) + 11 * length (tv_queue s) + tv_caller_left (tv_callers s ! i)"
    using go i by (cases "tv_callers s ! i") (auto simp: tv_defs split: if_splits option.splits)
  with tv.go_sum [OF go, of tv_caller_left] show ?thesis by (simp add: tv_left_def)
qed

interpretation tv_moves: measured tv_move tv_left "\<lambda>_. True"
  by unfold_locales (simp_all add: tv_move_left)

text \<open>Whoever holds the mutex can move; with the mutex free only the wait and the join block.\<close>

lemma tv_worker_moves:
  assumes "tv_found s" "tv_worker_holds (tv_place s) \<or> tv_mu s = None \<and> tv_place s \<notin> {TAsleep, TReturned}"
  shows "\<exists>t. tv_move s t"
proof -
  have "tv_work s \<noteq> None"
    using assms by (cases "tv_place s"; cases "tv_queue s") (auto simp: tv_work_def tv_acquire_def tv_found_def)
  then show ?thesis by (auto intro: tv_move.work)
qed

lemma tv_caller_moves:
  assumes "tv_current_ok s" "\<not> tv_gone s" "c \<in> set (tv_callers s)" "c \<noteq> NoCall"
    "tv_caller_holds c \<or> tv_mu s = None" "c = DtorJoin \<longrightarrow> tv_place s = TReturned"
  shows "\<exists>t. tv_move s t"
proof -
  obtain i where i: "i < length (tv_callers s)" "tv_callers s ! i = c"
    using assms(3) by (auto simp: in_set_conv_nth)
  have "c = CancelCall \<longrightarrow> tv_current s \<noteq> None"
    using assms(1,3) unfolding tv_current_ok_def by metis
  then have "\<exists>t. tv_line i c s = Some t"
    using assms(4-) by (cases c) (auto simp: tv_line_def tv_lock_def tv_unlock_def split: option.splits)
  with i assms(2) have "\<exists>t. tv_go i s = Some t" by (simp add: tv_go_def)
  then show ?thesis by (auto intro: tv_move.go)
qed

lemma tv_stuck:
  assumes inv: "tv_any_inv s" "tv_dtor s" and stuck: "\<nexists>t. tv_move s t"
  shows "(\<forall>c \<in> set (tv_callers s). c = NoCall) \<and>
    (if tv_stop s then tv_place s = TReturned \<and> tv_gone s else tv_place s = TAsleep \<and> tv_queue s = [])"
proof -
  have parts: "tv_locks s" "tv_current_ok s" "tv_found s" "tv_wakes s" "tv_dtor s"
    using inv by (auto simp: tv_any_inv_def)
  have caller: "\<exists>t. tv_move s t" if "c \<in> set (tv_callers s)" "c \<noteq> NoCall" "tv_caller_holds c \<or> tv_mu s = None"
    "c = DtorJoin \<longrightarrow> tv_place s = TReturned" for c
  proof (rule tv_caller_moves [OF parts(2) _ that])
    show "\<not> tv_gone s" using that(1,2) parts(5) unfolding tv_dtor_def by blast
  qed
  have holds: "\<not> tv_worker_holds (tv_place s)" "\<And>c. c \<in> set (tv_callers s) \<Longrightarrow> \<not> tv_caller_holds c"
    using tv_worker_moves [OF parts(3)] caller stuck by fastforce+
  have mu: "tv_mu s = None"
  proof (rule ccontr)
    assume "tv_mu s \<noteq> None"
    then obtain th where th: "tv_mu s = Some th" by blast
    with parts(1) holds(1) have "th \<noteq> Worker" unfolding tv_locks_def lock_held_def by blast
    with th obtain i where "tv_mu s = Some (Caller i)" by (cases th) auto
    then have "i < length (tv_callers s)" "tv_caller_holds (tv_callers s ! i)"
      using parts(1) unfolding tv_locks_def lock_held_def by blast+
    with holds(2) nth_mem show False by blast
  qed
  then have place: "tv_place s \<in> {TAsleep, TReturned}" using tv_worker_moves [OF parts(3)] stuck by blast
  have idle: "c = NoCall \<or> c = DtorJoin \<and> tv_place s \<noteq> TReturned" if "c \<in> set (tv_callers s)" for c
    using caller [OF that] mu stuck by blast
  then have "\<forall>c \<in> set (tv_callers s). \<not> tv_notifies c" by fastforce
  then have asleep: "\<not> tv_stop s \<and> tv_queue s = []" if "tv_place s = TAsleep"
    using parts(4) that unfolding tv_wakes_def by blast
  have "DtorJoin \<notin> set (tv_callers s)"
  proof
    assume join: "DtorJoin \<in> set (tv_callers s)"
    then have "tv_stop s" using parts(5) unfolding tv_dtor_def by (metis dtor_past_set.simps(3))
    with asleep place idle [OF join] show False by auto
  qed
  with idle have calls: "\<forall>c \<in> set (tv_callers s). c = NoCall" by blast
  then have "tv_stop s \<longleftrightarrow> tv_gone s" using parts(5) unfolding tv_dtor_def by fastforce
  with calls asleep place parts(3) show ?thesis by (auto simp: tv_found_def)
qed

definition tv_blocked :: "worker_sync \<Rightarrow> bool" where
  "tv_blocked s \<longleftrightarrow> tv_work s = None \<and> (\<forall>i < length (tv_callers s). tv_go i s = None)"

lemma tv_blocked_iff: "tv_blocked s \<longleftrightarrow> (\<nexists>t. tv_move s t)"
proof
  assume blocked: "tv_blocked s"
  have "tv_go i s = None" for i
    using blocked by (cases "i < length (tv_callers s)") (auto simp: tv_blocked_def tv_go_def)
  with blocked show "\<nexists>t. tv_move s t" by (auto simp: tv_blocked_def elim: tv_moveE)
next
  assume "\<nexists>t. tv_move s t"
  then show "tv_blocked s" unfolding tv_blocked_def by (metis not_None_eq tv_move.intros)
qed

lemma tv_moves_steps: "(tv_move ^^ m) s t \<Longrightarrow> tv_step\<^sup>*\<^sup>* s t"
  by (induction m arbitrary: t) (auto intro: rtranclp.rtrancl_into_rtrancl tv_step.kept_move)

text \<open>Runs in which each action moves a thread.\<close>

fun tv_moves_run :: "tv_action list \<Rightarrow> worker_sync \<Rightarrow> worker_sync option" where
  "tv_moves_run [] s = Some s"
| "tv_moves_run (TvWork # as) s = Option.bind (tv_work s) (tv_moves_run as)"
| "tv_moves_run (TvGo i # as) s = Option.bind (tv_go i s) (tv_moves_run as)"
| "tv_moves_run (_ # as) s = None"

lemma tv_moves_relpow: "tv_moves_run as s = Some t \<Longrightarrow> (tv_move ^^ length as) s t"
proof (induction as s rule: tv_moves_run.induct)
  case (2 as s)
  then obtain u where "tv_work s = Some u" "tv_moves_run as u = Some t"
    by (auto simp: bind_eq_Some_conv)
  with 2 show ?case by (auto intro: relpowp_Suc_I2 tv_move.work simp del: relpowp.simps)
next
  case (3 i as s)
  then obtain u where "tv_go i s = Some u" "tv_moves_run as u = Some t"
    by (auto simp: bind_eq_Some_conv)
  with 3 show ?case by (auto intro: relpowp_Suc_I2 tv_move.go simp del: relpowp.simps)
qed simp_all

text \<open>
  Three runs of two threads: a batch queued while the worker sleeps, with the notification
  still to come; a cancel between its test and its call while the batch runs; and a destructor
  begun while a batch is queued, with the moves that are then left.
\<close>

definition tv_example_queued :: "tv_action list" where
  "tv_example_queued =
     [TvWork, TvWork, TvBegin 0 (CallEnqueue (example_tx 0)), TvGo 0, TvGo 0, TvBegin 1 CallCancel]"

definition tv_example_cancel :: "tv_action list" where
  "tv_example_cancel =
     tv_example_queued @ [TvGo 0, TvGo 0, TvWork, TvWork, TvWork, TvWork, TvWork, TvGo 1, TvGo 1]"

definition tv_example_destroy :: "tv_action list" where
  "tv_example_destroy =
     [TvBegin 0 (CallEnqueue (example_tx 0)), TvGo 0, TvGo 0, TvGo 0, TvGo 0, TvBegin 1 CallDestroy]"

definition tv_example_moves :: "tv_action list" where
  "tv_example_moves =
     replicate 5 TvWork @ replicate 4 (TvGo 1) @ replicate 10 TvWork @ replicate 2 (TvGo 1)"

lemmas tv_example_defs =
  tv_example_queued_def tv_example_cancel_def tv_example_destroy_def tv_example_moves_def
  tv_run_def tv_new_def tv_begin_def tv_possible_def tv_contract_def example_tx_def tv_defs
  numeral_2_eq_2 eval_nat_numeral

lemma tv_example_moves_length: "length tv_example_moves = 21"
  by (simp add: tv_example_moves_def)

section \<open>Properties\<close>

text \<open>
  C9. The locking of the transaction worker is right: with any number of threads inside
  \<open>enqueue\<close>, \<open>cancel_current\<close> and one in the destructor, at any of their lines and beside one
  another, and with spurious wakeups, what the class does is a run of the worker whose calls and turns are atomic; at most
  one thread is between a lock and its unlock; and the worker is never asleep over a batch or a
  stop without a thread that is about to wake it.
\<close>

theorem worker_locking_is_atomic:
  assumes "tv_any_step\<^sup>*\<^sup>* (tv_new n) s"
  shows "tw_step\<^sup>*\<^sup>* tw_new (tv_abs s) \<and>
    length (filter tv_caller_holds (tv_callers s)) + (if tv_worker_holds (tv_place s) then 1 else 0) \<le> 1 \<and>
    (tv_place s = TAsleep \<and> (tv_stop s \<or> tv_queue s \<noteq> []) \<longrightarrow> (\<exists>c \<in> set (tv_callers s). tv_notifies c))"
proof -
  have locks: "tv_locks s" and wakes: "tv_wakes s"
    using tv_run_any_inv [OF assms] by (simp_all add: tv_any_inv_def)
  have "length (filter tv_caller_holds (tv_callers s)) \<le> 1"
    by (rule filter_at_most_one) (use locks lock_held_alone(2) in \<open>metis tv_locks_def\<close>)
  moreover have "filter tv_caller_holds (tv_callers s) = []" if "tv_worker_holds (tv_place s)"
    using tv_locks_exclude [OF locks] that by (auto simp: filter_empty_conv)
  ultimately show ?thesis using tv_run_abs [OF assms] wakes by (auto simp: tv_wakes_def)
qed

theorem worker_locking_is_atomic_witness:
  "tw_step\<^sup>*\<^sup>* tw_new (tv_abs (tv_run tv_example_queued (tv_new 2))) \<and>
    tv_place (tv_run tv_example_queued (tv_new 2)) = TAsleep \<and>
    tv_queue (tv_run tv_example_queued (tv_new 2)) = [example_tx 0] \<and>
    (\<exists>c \<in> set (tv_callers (tv_run tv_example_queued (tv_new 2))). tv_notifies c)"
  using worker_locking_is_atomic [OF tv_steps_any [OF tv_run_reachable], of tv_example_queued 2] by (simp add: tv_example_defs)

text \<open>
  C8. No object is used after its reference has been dropped, however the threads interleave and
  whenever the calls come: \<open>cancel_current\<close> signals only cancellables that are not released yet,
  also when it has tested the member just before the worker finished; a batch that runs still
  has both its objects; no reference is dropped twice; and the worker is deleted only after its
  thread has returned. That no calling thread is in a deleted worker holds of the runs whose
  callers keep to the contract: no call beside or after the destructor. The Dart client
  does not, see \<open>cancel_after_close_uses_a_deleted_worker\<close>.
\<close>

theorem cancellables_outlive_their_cancels:
  assumes "tv_any_step\<^sup>*\<^sup>* (tv_new n) s"
  shows "(\<forall>c t. tv_any_step s t \<and> c \<in> tv_cancelled t - tv_cancelled s \<longrightarrow> CancelObj c \<notin> set (tv_released s)) \<and>
    (\<forall>item. tv_place s = TExec item \<longrightarrow> set (release_item item) \<inter> set (tv_released s) = {}) \<and>
    distinct (tv_released s) \<and>
    (tv_gone s \<longrightarrow> tv_place s = TReturned \<and>
       (tv_step\<^sup>*\<^sup>* (tv_new n) s \<longrightarrow> (\<forall>c \<in> set (tv_callers s). c = NoCall)))"
proof -
  have inv: "tv_any_inv s" using assms by (rule tv_run_any_inv)
  have signalled: "tv_current s = Some c" if "tv_any_step s t" "c \<in> tv_cancelled t - tv_cancelled s" for c t
    using that by (elim tv_any_stepE tv_moveE) (blast dest: tv_signals)+
  have "CancelObj c \<notin> set (tv_released s)" if "tv_current s = Some c" for c
    using that inv tv_in_use(2) [OF assms tv_published_in_use] by (simp add: tv_any_inv_def tv_current_ok_def)
  with signalled have "\<forall>c t. tv_any_step s t \<and> c \<in> tv_cancelled t - tv_cancelled s \<longrightarrow>
      CancelObj c \<notin> set (tv_released s)"
    by blast
  moreover have "set (release_item item) \<inter> set (tv_released s) = {}" if "tv_place s = TExec item" for item
    using tv_in_use(2) [OF assms] that by (fastforce simp: tw_in_hand_def tv_abs_def)
  moreover have "distinct (tv_released s)" using tv_in_use(1) [OF assms] .
  moreover have "tv_joined s" using inv by (simp add: tv_any_inv_def)
  ultimately show ?thesis using tv_run_dtor [of n s] unfolding tv_dtor_def tv_joined_def by blast
qed

text \<open>
  The run of the witness: a cancel between its test and its call while the batch runs, and a
  destructor that has begun beside it.
\<close>

theorem cancellables_outlive_their_cancels_witness:
  "\<exists>s t. tv_begin 0 CallDestroy (tv_run tv_example_cancel (tv_new 2)) = Some s \<and>
     tv_callers s = [DtorLock, CancelCall] \<and> tv_go 1 s = Some t \<and> tv_cancelled t = {0} \<and>
     tv_place s = TExec (example_tx 0) \<and> CancelObj 0 \<notin> set (tv_released s)"
proof -
  let ?r = "tv_run tv_example_cancel (tv_new 2)"
  obtain s t where s: "tv_begin 0 CallDestroy ?r = Some s" "tv_callers s = [DtorLock, CancelCall]"
    "tv_place s = TExec (example_tx 0)" "tv_cancelled s = {}" "tv_go 1 s = Some t" "tv_cancelled t = {0}"
    by (simp add: tv_example_defs)
  have run: "tv_any_step\<^sup>*\<^sup>* (tv_new 2) s"
    using tv_steps_any [OF tv_run_reachable] tv_any_step.enter [OF s(1)] by (rule rtranclp.rtrancl_into_rtrancl)
  have "tv_any_step s t" using s(5) by (blast intro: tv_any_step.move tv_move.go)
  with cancellables_outlive_their_cancels [OF run] s(4,6) have "CancelObj 0 \<notin> set (tv_released s)" by blast
  with s show ?thesis by blast
qed

text \<open>
  A cancel begun after the destructor has deleted the worker is at its first line in an object
  that is gone: there is no step it could make. The thread that holds the handle can always do
  that, and \<open>FlatpakTransaction.cancel\<close> does when it is called after \<open>close\<close>.
\<close>

lemma cancel_after_close_uses_a_deleted_worker:
  assumes "tv_gone s" "i < length (tv_callers s)" "tv_callers s ! i = NoCall"
  shows "\<exists>t. tv_any_step s t \<and> tv_callers t ! i = CancelLock \<and> tv_gone t \<and> tv_go i t = None"
proof -
  let ?t = "tv_at i CancelLock s"
  have "tv_begin i CallCancel s = Some ?t" using assms by (simp add: tv_begin_def tv_possible_def)
  then have "tv_any_step s ?t" by (rule tv_any_step.enter)
  with assms show ?thesis by (intro exI [of _ ?t]) (simp add: tv_at_def tv_go_def)
qed

text \<open>
  C14. Every call on the transaction worker returns, its destructor included, if only the
  transactions it runs do and no call is made beside or after the destructor: from any state
  its threads reach so they make only boundedly many moves
  until the next call or spurious wakeup, whatever the scheduler does, and the only states in
  which none can move have every call returned. Then either the object is deleted and its
  thread has returned, or the worker is asleep with an empty queue, every batch taken was
  executed in order, and all its objects are released.
\<close>

theorem worker_calls_return:
  assumes "tv_step\<^sup>*\<^sup>* (tv_new n) s" "(tv_move ^^ m) s t"
  shows "m \<le> tv_left s \<and>
    (tv_blocked t \<longrightarrow> (\<forall>c \<in> set (tv_callers t). c = NoCall) \<and>
       (if tv_stop t then tv_place t = TReturned \<and> tv_gone t
        else tv_place t = TAsleep \<and> tv_executed t = tv_taken t \<and>
          tv_released t = concat (map release_item (tv_taken t))))"
proof -
  have run: "tv_step\<^sup>*\<^sup>* (tv_new n) t"
    using assms(1) tv_moves_steps [OF assms(2)] by (rule rtranclp_trans)
  note inv = tv_run_any_inv [OF tv_steps_any [OF run]] tv_run_dtor [OF run]
  { assume "tv_blocked t"
    with tv_stuck [OF inv] have stuck: "\<forall>c \<in> set (tv_callers t). c = NoCall"
      "if tv_stop t then tv_place t = TReturned \<and> tv_gone t else tv_place t = TAsleep \<and> tv_queue t = []"
      by (simp_all add: tv_blocked_iff)
    have "tv_executed t = tv_taken t \<and> tv_released t = concat (map release_item (tv_taken t))"
      if "tv_place t = TAsleep" "tv_queue t = []"
      using tv_run_accounts [OF tv_steps_any [OF run]] inv(1) that
      by (simp add: tw_in_hand_def tv_abs_def tv_any_inv_def tv_releases_def)
    with stuck have "(\<forall>c \<in> set (tv_callers t). c = NoCall) \<and>
       (if tv_stop t then tv_place t = TReturned \<and> tv_gone t
        else tv_place t = TAsleep \<and> tv_executed t = tv_taken t \<and>
          tv_released t = concat (map release_item (tv_taken t)))" by simp }
  then show ?thesis using tv_moves.moves_bounded [OF assms(2) TrueI] by simp
qed

theorem worker_calls_return_witness:
  "\<exists>t. (tv_move ^^ 21) (tv_run tv_example_destroy (tv_new 2)) t \<and>
    21 \<le> tv_left (tv_run tv_example_destroy (tv_new 2)) \<and>
    tv_callers t = [NoCall, NoCall] \<and> tv_gone t \<and> tv_executed t = [example_tx 0]"
proof -
  obtain t where runs: "tv_moves_run tv_example_moves (tv_run tv_example_destroy (tv_new 2)) = Some t"
    and t: "tv_blocked t" "tv_callers t = [NoCall, NoCall]" "tv_stop t" "tv_executed t = [example_tx 0]"
    by (simp add: tv_example_defs tv_blocked_def less_Suc_eq)
  have "(tv_move ^^ 21) (tv_run tv_example_destroy (tv_new 2)) t"
    using tv_moves_relpow [OF runs] unfolding tv_example_moves_length .
  from worker_calls_return [OF tv_run_reachable this] t this show ?thesis by auto
qed

end
