(* ===== verification/Dart_Utf8.thy ===== *)
theory Dart_Utf8
  imports Bridge_Prelude
begin

text \<open>
  The UTF-8 codec of the Dart library, which the Dart side of the bridge applies to every
  string it receives or sends. A Dart string is the list of its runes. \<open>utf8.decode\<close> is strict:
  it throws on anything that is not the shortest encoding of a code point outside the
  surrogates, and it drops a leading byte order mark; \<open>utf8.encode\<close> writes a lone surrogate as
  the replacement character.
\<close>

type_synonym dart_string = "nat list"

section \<open>Definitions\<close>

text \<open>The bytes of a code point, as numbers.\<close>

definition utf8_units :: "nat \<Rightarrow> nat list" where
  "utf8_units c =
     (if c < 0x80 then [c]
      else if c < 0x800 then [0xC0 + c div 64, 0x80 + c mod 64]
      else if c < 0x10000 then [0xE0 + c div 4096, 0x80 + c div 64 mod 64, 0x80 + c mod 64]
      else [0xF0 + c div 262144, 0x80 + c div 4096 mod 64, 0x80 + c div 64 mod 64, 0x80 + c mod 64])"

definition is_surrogate :: "nat \<Rightarrow> bool" where
  "is_surrogate c \<longleftrightarrow> 0xD800 \<le> c \<and> c < 0xE000"

definition is_scalar :: "nat \<Rightarrow> bool" where
  "is_scalar c \<longleftrightarrow> c < 0x110000 \<and> \<not> is_surrogate c"

definition rune_bytes :: "nat \<Rightarrow> byte list" where
  "rune_bytes c = map word_of_nat (utf8_units (if is_surrogate c then 0xFFFD else c))"

definition utf8_encode :: "dart_string \<Rightarrow> byte list" where
  "utf8_encode s = concat (map rune_bytes s)"

definition is_cont :: "nat \<Rightarrow> bool" where
  "is_cont b \<longleftrightarrow> 0x80 \<le> b \<and> b < 0xC0"

text \<open>Two, three and four byte sequences, checked for length, range and surrogates.\<close>

definition rune2 :: "nat \<Rightarrow> nat \<Rightarrow> nat option" where
  "rune2 a b = (let c = (a - 0xC0) * 64 + (b - 0x80)
     in if 0xC0 \<le> a \<and> a < 0xE0 \<and> is_cont b \<and> 0x80 \<le> c then Some c else None)"

definition rune3 :: "nat \<Rightarrow> nat \<Rightarrow> nat \<Rightarrow> nat option" where
  "rune3 a b d = (let c = (a - 0xE0) * 4096 + (b - 0x80) * 64 + (d - 0x80)
     in if 0xE0 \<le> a \<and> a < 0xF0 \<and> is_cont b \<and> is_cont d \<and> 0x800 \<le> c \<and> \<not> is_surrogate c
        then Some c else None)"

definition rune4 :: "nat \<Rightarrow> nat \<Rightarrow> nat \<Rightarrow> nat \<Rightarrow> nat option" where
  "rune4 a b d e = (let c = (a - 0xF0) * 262144 + (b - 0x80) * 4096 + (d - 0x80) * 64 + (e - 0x80)
     in if 0xF0 \<le> a \<and> a < 0xF8 \<and> is_cont b \<and> is_cont d \<and> is_cont e \<and> 0x10000 \<le> c \<and> c < 0x110000
        then Some c else None)"

fun scan_units :: "nat list \<Rightarrow> dart_string option" where
  "scan_units [] = Some []"
| "scan_units (a # bs) =
     (if a < 0x80 then map_option (Cons a) (scan_units bs)
      else if a < 0xE0 then
        (case bs of
           b # r \<Rightarrow> (case rune2 a b of None \<Rightarrow> None | Some c \<Rightarrow> map_option (Cons c) (scan_units r))
         | _ \<Rightarrow> None)
      else if a < 0xF0 then
        (case bs of
           b # d # r \<Rightarrow> (case rune3 a b d of None \<Rightarrow> None | Some c \<Rightarrow> map_option (Cons c) (scan_units r))
         | _ \<Rightarrow> None)
      else
        (case bs of
           b # d # e # r \<Rightarrow>
             (case rune4 a b d e of None \<Rightarrow> None | Some c \<Rightarrow> map_option (Cons c) (scan_units r))
         | _ \<Rightarrow> None))"

declare scan_units.simps(2) [simp del]

fun drop_bom :: "dart_string \<Rightarrow> dart_string" where
  "drop_bom (c # s) = (if c = 0xFEFF then s else c # s)"
| "drop_bom [] = []"

text \<open>\<open>None\<close> is a \<open>FormatException\<close>.\<close>

definition utf8_decode :: "byte list \<Rightarrow> dart_string option" where
  "utf8_decode bs = map_option drop_bom (scan_units (map unat bs))"

section \<open>Round trip\<close>

lemma utf8_units_less: "c < 0x110000 \<Longrightarrow> u \<in> set (utf8_units c) \<Longrightarrow> u < 256"
proof -
  assume c: "c < 0x110000" and u: "u \<in> set (utf8_units c)"
  have "c div 64 mod 64 < 64" "c mod 64 < 64" "c div 4096 mod 64 < 64" by simp_all
  moreover have "c < 0x800 \<Longrightarrow> c div 64 < 32" "c < 0x10000 \<Longrightarrow> c div 4096 < 16" "c div 262144 < 5"
    using c by (simp_all add: less_mult_imp_div_less)
  ultimately show "u < 256" using u by (auto simp: utf8_units_def split: if_splits)
qed

lemma units_of_bytes:
  assumes "c < 0x110000"
  shows "map unat (map word_of_nat (utf8_units c) :: byte list) = utf8_units c"
  unfolding map_map
proof (rule map_idI)
  fix u assume "u \<in> set (utf8_units c)"
  then have "u < 256" using utf8_units_less assms by blast
  then show "(unat \<circ> (word_of_nat :: nat \<Rightarrow> byte)) u = u"
    by (simp add: unat_of_nat take_bit_nat_eq_self_iff)
qed

text \<open>One sequence of each length, by its payload bits.\<close>

lemma scan2:
  assumes "2 \<le> q" "q < 32" "m < 64"
  shows "scan_units ((0xC0 + q) # (0x80 + m) # r) = map_option (Cons (q * 64 + m)) (scan_units r)"
  using assms by (simp add: scan_units.simps rune2_def is_cont_def)

lemma scan3:
  assumes "q < 16" "m < 64" "n < 64" "0x800 \<le> q * 4096 + m * 64 + n"
    "\<not> is_surrogate (q * 4096 + m * 64 + n)"
  shows "scan_units ((0xE0 + q) # (0x80 + m) # (0x80 + n) # r) =
    map_option (Cons (q * 4096 + m * 64 + n)) (scan_units r)"
  using assms by (simp add: scan_units.simps rune3_def is_cont_def)

lemma scan4:
  assumes "q < 5" "l < 64" "m < 64" "n < 64" "0x10000 \<le> q * 262144 + l * 4096 + m * 64 + n"
    "q * 262144 + l * 4096 + m * 64 + n < 0x110000"
  shows "scan_units ((0xF0 + q) # (0x80 + l) # (0x80 + m) # (0x80 + n) # r) =
    map_option (Cons (q * 262144 + l * 4096 + m * 64 + n)) (scan_units r)"
  using assms by (simp add: scan_units.simps rune4_def is_cont_def)

lemma payload_sums:
  fixes c :: nat
  shows "c div 64 * 64 + c mod 64 = c"
    "c div 4096 * 4096 + c div 64 mod 64 * 64 + c mod 64 = c"
    "c div 262144 * 262144 + c div 4096 mod 64 * 4096 + c div 64 mod 64 * 64 + c mod 64 = c"
proof -
  have d: "c div 4096 = c div 64 div 64" "c div 262144 = c div 64 div 64 div 64"
    by (simp_all add: div_mult2_eq [symmetric])
  have 1: "c div 64 * 64 + c mod 64 = c" by (rule div_mult_mod_eq)
  have 2: "c div 64 div 64 * 64 + c div 64 mod 64 = c div 64" by (rule div_mult_mod_eq)
  have 3: "c div 64 div 64 div 64 * 64 + c div 64 div 64 mod 64 = c div 64 div 64"
    by (rule div_mult_mod_eq)
  show "c div 64 * 64 + c mod 64 = c" by (rule 1)
  show "c div 4096 * 4096 + c div 64 mod 64 * 64 + c mod 64 = c"
    unfolding d using 1 2 by linarith
  show "c div 262144 * 262144 + c div 4096 mod 64 * 4096 + c div 64 mod 64 * 64 + c mod 64 = c"
    unfolding d using 1 2 3 by linarith
qed

lemma scan_rune:
  assumes "is_scalar c"
  shows "scan_units (utf8_units c @ r) = map_option (Cons c) (scan_units r)"
proof -
  have lt: "c < 0x110000" "\<not> is_surrogate c" using assms by (simp_all add: is_scalar_def)
  have small: "c mod 64 < 64" "c div 64 mod 64 < 64" "c div 4096 mod 64 < 64" by simp_all
  consider "c < 0x80" | "0x80 \<le> c" "c < 0x800" | "0x800 \<le> c" "c < 0x10000" | "0x10000 \<le> c"
    by linarith
  then show ?thesis
  proof cases
    case 1
    then show ?thesis by (simp add: utf8_units_def scan_units.simps)
  next
    case 2
    have c2: "c div 64 < 32" using 2 by (simp add: less_mult_imp_div_less)
    have "2 \<le> c div 64" using div_le_mono [OF 2(1), of 64] by simp
    then have "scan_units ((0xC0 + c div 64) # (0x80 + c mod 64) # r) = map_option (Cons c) (scan_units r)"
      by (rule scan2 [OF _ c2 small(1), unfolded payload_sums])
    with 2 show ?thesis by (simp add: utf8_units_def)
  next
    case 3
    have c3: "c div 4096 < 16" using 3 by (simp add: less_mult_imp_div_less)
    have "scan_units ((0xE0 + c div 4096) # (0x80 + c div 64 mod 64) # (0x80 + c mod 64) # r) =
        map_option (Cons c) (scan_units r)"
      by (rule scan3 [OF c3 small(2,1), unfolded payload_sums, OF 3(1) lt(2)])
    with 3 show ?thesis by (simp add: utf8_units_def)
  next
    case 4
    have c4: "c div 262144 < 5" using lt by (simp add: less_mult_imp_div_less)
    have "scan_units ((0xF0 + c div 262144) # (0x80 + c div 4096 mod 64) # (0x80 + c div 64 mod 64) #
        (0x80 + c mod 64) # r) = map_option (Cons c) (scan_units r)"
      by (rule scan4 [OF c4 small(3,2,1), unfolded payload_sums, OF 4 lt(1)])
    with 4 show ?thesis by (simp add: utf8_units_def)
  qed
qed

lemma scan_encode:
  assumes "\<forall>c \<in> set s. is_scalar c"
  shows "scan_units (map unat (utf8_encode s)) = Some s"
  using assms
proof (induction s)
  case (Cons c s)
  then have "\<not> is_surrogate c" "c < 0x110000" by (auto simp: is_scalar_def)
  then have "map unat (rune_bytes c) = utf8_units c" by (simp add: rune_bytes_def units_of_bytes del: map_map)
  with Cons show ?case by (simp add: utf8_encode_def scan_rune del: map_map)
qed (simp add: utf8_encode_def)

text \<open>A text survives the codec, but for a byte order mark at its start.\<close>

lemma utf8_decode_encode:
  "\<forall>c \<in> set s. is_scalar c \<Longrightarrow> utf8_decode (utf8_encode s) = Some (drop_bom s)"
  by (simp add: utf8_decode_def scan_encode)

lemma utf8_encode_append: "utf8_encode (s @ t) = utf8_encode s @ utf8_encode t"
  by (simp add: utf8_encode_def)

text \<open>ASCII is its own encoding.\<close>

definition ascii :: "string \<Rightarrow> dart_string" where
  "ascii s = map of_char s"

lemma utf8_decode_ascii:
  assumes "\<forall>c \<in> set s. of_char c < (0x80 :: nat)"
  shows "utf8_decode (bytes_of s) = Some (ascii s)"
proof -
  have "map unat (bytes_of s) = ascii s"
    using assms by (auto simp: bytes_of_def ascii_def byte_of_char_def unat_of_nat take_bit_nat_eq_self_iff)
  moreover have "scan_units (ascii s) = Some (ascii s)"
    using assms by (induction s) (simp_all add: ascii_def scan_units.simps)
  moreover have "drop_bom (ascii s) = ascii s"
    using assms by (cases s) (auto simp: ascii_def)
  ultimately show ?thesis by (simp add: utf8_decode_def)
qed

end
