(* ===== verification/Installation_Reader.thy ===== *)
theory Installation_Reader
  imports Reply_Stream Libflatpak
begin

text \<open>
  The synchronous operations of native/src/installation_reader.cpp: for each one the calls it
  posts on its port, as a list, or \<open>None\<close> where it reads \<open>err->message\<close> of an error
  that libflatpak did not set. Every operation meets the contract \<open>reply_stream\<close>. The launch
  and refresh queues are in \<open>Reader_Queues\<close> and stop() is in \<open>Stop\<close>.
\<close>

section \<open>Copying an object into a struct\<close>

fun kind_str :: "FlatpakRefKind \<Rightarrow> string" where
  "kind_str FLATPAK_REF_KIND_APP = ''app''"
| "kind_str FLATPAK_REF_KIND_RUNTIME = ''runtime''"

definition fill_ref :: "string \<Rightarrow> 'a FlatpakRef_scheme \<Rightarrow> FpRef" where
  "fill_ref kind r =
     \<lparr>r_kind = kind, r_name = safe_str (ref_name r), r_arch = safe_str (ref_arch r),
      r_branch = safe_str (ref_branch r), r_commit = safe_str (ref_commit r),
      r_collectionId = safe_str (ref_collection_id r)\<rparr>"

text \<open>\<open>appDataIcon\<close> is never filled and stays empty.\<close>

definition fill_app :: "string \<Rightarrow> FlatpakInstalledRef \<Rightarrow> InstalledApp" where
  "fill_app kind iref =
     \<lparr>a_ref = fill_ref kind iref, a_origin = safe_str (iref_origin iref),
      a_latestCommit = safe_str (iref_latest_commit iref),
      a_installedPath = safe_str (iref_deploy_dir iref),
      a_installedSize = iref_installed_size iref, a_isCurrentArch = iref_is_current iref,
      a_endOfLife = (iref_eol iref \<noteq> None), a_endOfLifeRebase = safe_str (iref_eol_rebase iref),
      a_appDataName = safe_str (iref_appdata_name iref),
      a_appDataSummary = safe_str (iref_appdata_summary iref),
      a_appDataVersion = safe_str (iref_appdata_version iref), a_appDataIcon = ''''\<rparr>"

definition fill_remote :: "FlatpakRemote \<Rightarrow> FlatpakRemoteInfo" where
  "fill_remote remote =
     \<lparr>m_name = safe_str (remote_name remote), m_url = safe_str (remote_url remote),
      m_title = safe_str (remote_title remote), m_comment = safe_str (remote_comment remote),
      m_description = safe_str (remote_description remote),
      m_homepage = safe_str (remote_homepage remote),
      m_defaultBranch = safe_str (remote_default_branch remote), m_subset = '''',
      m_collectionId = safe_str (remote_collection_id remote),
      m_filter = safe_str (remote_filter remote), m_remoteType = remote_type remote,
      m_disabled = remote_disabled remote, m_gpgVerify = remote_gpg_verify remote,
      m_noDeps = remote_nodeps remote, m_priority = remote_prio remote\<rparr>"

definition fill_instance :: "FlatpakInstance \<Rightarrow> FpInstance" where
  "fill_instance inst =
     \<lparr>i_appId = safe_str (inst_app inst), i_instanceId = safe_str (inst_id inst),
      i_arch = safe_str (inst_arch inst), i_branch = safe_str (inst_branch inst),
      i_commit = safe_str (inst_commit inst), i_runtime = safe_str (inst_runtime inst),
      i_pid = inst_pid inst, i_childPid = inst_child_pid inst,
      i_isRunning = inst_is_running inst\<rparr>"

definition fill_installation :: "FlatpakInstallation \<Rightarrow> FpInstallationInfo" where
  "fill_installation inst =
     \<lparr>n_id = safe_str (install_id inst), n_displayName = safe_str (install_display_name inst),
      n_path = safe_str (install_path inst), n_isUser = install_is_user inst,
      n_priority = install_priority inst\<rparr>"

text \<open>\<open>post_error(port, err->message)\<close> with no check of \<open>err\<close>.\<close>

definition deref_error :: "port \<Rightarrow> GError option \<Rightarrow> post list option" where
  "deref_error p err = (case err of None \<Rightarrow> None | Some e \<Rightarrow> Some [post_error p (g_message e)])"

section \<open>Resolving an installed app\<close>

text \<open>The scan of the installed apps: the first match stands until a current one replaces it.\<close>

fun match_loop ::
    "string \<Rightarrow> string \<Rightarrow> FlatpakInstalledRef list \<Rightarrow> FlatpakInstalledRef option \<Rightarrow>
     FlatpakInstalledRef option" where
  "match_loop app_id want_arch [] match = match"
| "match_loop app_id want_arch (iref # refs) match =
     (if ref_name iref \<noteq> Some app_id \<or> ref_arch iref \<noteq> Some want_arch
      then match_loop app_id want_arch refs match
      else if match = None \<or> iref_is_current iref
        then match_loop app_id want_arch refs (Some iref)
      else match_loop app_id want_arch refs match)"

definition get_installed_app_ref ::
    "libflatpak \<Rightarrow> string \<Rightarrow> cstr \<Rightarrow> cstr \<Rightarrow> FlatpakInstalledRef gresult" where
  "get_installed_app_ref fp app_id arch branch =
     (case hint branch of
        Some want_branch \<Rightarrow>
          lf_get_installed_ref fp FLATPAK_REF_KIND_APP (Some app_id) (hint arch) (Some want_branch)
      | None \<Rightarrow>
          (case hint arch of
             None \<Rightarrow> lf_get_current_installed_app fp app_id
           | Some want_arch \<Rightarrow>
               (case lf_list_installed_refs_by_kind fp FLATPAK_REF_KIND_APP of
                  Inl err \<Rightarrow> Inl err
                | Inr refs \<Rightarrow>
                    (case match_loop app_id want_arch refs None of
                       Some iref \<Rightarrow> Inr iref
                     | None \<Rightarrow>
                         Inl (Some \<lparr>g_domain = lf_FLATPAK_ERROR fp,
                                    g_code = lf_FLATPAK_ERROR_NOT_INSTALLED fp,
                                    g_message = app_id @ ''/'' @ want_arch @
                                                '' is not installed''\<rparr>)))))"

section \<open>Listing\<close>

fun list_apps_loop :: "port \<Rightarrow> bool \<Rightarrow> FlatpakInstalledRef list \<Rightarrow> post list" where
  "list_apps_loop p include_runtimes [] = []"
| "list_apps_loop p include_runtimes (iref # refs) =
     (if \<not> include_runtimes \<and> ref_kind iref \<noteq> FLATPAK_REF_KIND_APP
      then list_apps_loop p include_runtimes refs
      else post_glaze p 0x01 (InstalledApp_val (fill_app (kind_str (ref_kind iref)) iref)) #
           list_apps_loop p include_runtimes refs)"

definition list_apps :: "libflatpak \<Rightarrow> port \<Rightarrow> bool \<Rightarrow> post list option" where
  "list_apps fp p include_runtimes =
     (case lf_list_installed_refs fp of
        Inl err \<Rightarrow> deref_error p err
      | Inr refs \<Rightarrow> Some (list_apps_loop p include_runtimes refs @ [post_sentinel p]))"

definition list_remotes :: "libflatpak \<Rightarrow> port \<Rightarrow> post list option" where
  "list_remotes fp p =
     (case lf_list_remotes fp of
        Inl err \<Rightarrow> deref_error p err
      | Inr remotes \<Rightarrow>
          Some (map (\<lambda>remote. post_glaze p 0x01 (FlatpakRemoteInfo_val (fill_remote remote))) remotes @
                [post_sentinel p]))"

definition get_remote_info :: "libflatpak \<Rightarrow> port \<Rightarrow> string \<Rightarrow> post list option" where
  "get_remote_info fp p name =
     (case lf_get_remote_by_name fp name of
        Inl err \<Rightarrow> deref_error p err
      | Inr remote \<Rightarrow>
          Some [post_glaze p 0x01 (FlatpakRemoteInfo_val (fill_remote remote)), post_sentinel p])"

definition remote_ref_has_socket :: "libflatpak \<Rightarrow> FlatpakRemoteRef \<Rightarrow> string \<Rightarrow> bool" where
  "remote_ref_has_socket fp fref socket_name =
     (case rref_metadata fref of
        None \<Rightarrow> False
      | Some data \<Rightarrow>
          (case lf_key_file_load fp data of
             Inl _ \<Rightarrow> False
           | Inr kf \<Rightarrow> metadata_requests_socket (lf_strstrip fp) (Some kf) (Some socket_name)))"

fun list_remote_apps_loop ::
    "libflatpak \<Rightarrow> port \<Rightarrow> cstr \<Rightarrow> bool \<Rightarrow> bool \<Rightarrow> FlatpakRemoteRef list \<Rightarrow> post list" where
  "list_remote_apps_loop fp p arch include_runtimes wayland_only [] = []"
| "list_remote_apps_loop fp p arch include_runtimes wayland_only (fref # refs) =
     (let is_app = (ref_kind fref = FLATPAK_REF_KIND_APP);
          rest = list_remote_apps_loop fp p arch include_runtimes wayland_only refs
      in if \<not> include_runtimes \<and> \<not> is_app then rest
         else if hint arch \<noteq> None \<and> ref_arch fref \<noteq> arch then rest
         else if wayland_only \<and> is_app \<and> \<not> remote_ref_has_socket fp fref ''wayland'' then rest
         else post_glaze p 0x01 (FpRef_val (fill_ref (kind_str (ref_kind fref)) fref)) # rest)"

definition list_remote_apps ::
    "libflatpak \<Rightarrow> port \<Rightarrow> string \<Rightarrow> cstr \<Rightarrow> bool \<Rightarrow> bool \<Rightarrow> post list option" where
  "list_remote_apps fp p name arch include_runtimes wayland_only =
     (case lf_list_remote_refs_sync fp name of
        Inl err \<Rightarrow> deref_error p err
      | Inr refs \<Rightarrow>
          Some (list_remote_apps_loop fp p arch include_runtimes wayland_only refs @
                [post_sentinel p]))"

text \<open>\<open>collectionId\<close> is not filled here.\<close>

definition check_updates :: "libflatpak \<Rightarrow> port \<Rightarrow> post list option" where
  "check_updates fp p =
     (case lf_list_installed_refs_for_update fp of
        Inl err \<Rightarrow> deref_error p err
      | Inr updates \<Rightarrow>
          Some (map (\<lambda>iref. post_glaze p 0x01
                      (FpRef_val (fill_ref (kind_str (ref_kind iref)) iref\<lparr>r_collectionId := ''''\<rparr>)))
                  updates @ [post_sentinel p]))"

definition list_running :: "libflatpak \<Rightarrow> port \<Rightarrow> post list option" where
  "list_running fp p =
     (case lf_instance_get_all fp of
        None \<Rightarrow> Some [post_sentinel p]
      | Some instances \<Rightarrow>
          Some (map (\<lambda>inst. post_glaze p 0x01 (FpInstance_val (fill_instance inst))) instances @
                [post_sentinel p]))"

definition list_system_installations :: "libflatpak \<Rightarrow> port \<Rightarrow> post list option" where
  "list_system_installations fp p =
     (case lf_get_system_installations fp of
        Inl err \<Rightarrow> Some [post_error p (err_or err ''failed to list system installations'')]
      | Inr installs \<Rightarrow>
          Some (map (\<lambda>inst. post_glaze p 0x01 (FpInstallationInfo_val (fill_installation inst)))
                  installs @ [post_sentinel p]))"

definition get_app_info :: "libflatpak \<Rightarrow> port \<Rightarrow> string \<Rightarrow> cstr \<Rightarrow> cstr \<Rightarrow> post list option" where
  "get_app_info fp p app_id arch branch =
     (case get_installed_app_ref fp app_id arch branch of
        Inl err \<Rightarrow> Some [post_error p (err_or err ''app not installed'')]
      | Inr iref \<Rightarrow>
          Some [post_glaze p 0x01 (InstalledApp_val (fill_app ''app'' iref)), post_sentinel p])"

section \<open>Metadata\<close>

text \<open>The three steps of the operations on an app's metadata, with the message each posts.\<close>

definition load_app_metadata ::
    "libflatpak \<Rightarrow> string \<Rightarrow> cstr \<Rightarrow> cstr \<Rightarrow> string + FlatpakInstalledRef \<times> keyfile" where
  "load_app_metadata fp app_id arch branch =
     (case get_installed_app_ref fp app_id arch branch of
        Inl err \<Rightarrow> Inl (err_or err ''app not installed'')
      | Inr iref \<Rightarrow>
          (case lf_load_metadata fp iref of
             Inl err \<Rightarrow> Inl (err_or err ''failed to load metadata'')
           | Inr data \<Rightarrow>
               (case lf_key_file_load fp data of
                  Inl err \<Rightarrow> Inl (err_or err ''failed to parse metadata'')
                | Inr kf \<Rightarrow> Inr (iref, kf))))"

definition metadata_sections :: "string list" where
  "metadata_sections =
     [''Context'', ''Session Bus Policy'', ''System Bus Policy'', ''Environment'']"

fun section_entries :: "keyfile \<Rightarrow> string \<Rightarrow> string list \<Rightarrow> FpMetadataEntry list" where
  "section_entries kf sp [] = []"
| "section_entries kf sp (key # keys) =
     \<lparr>e_section = sp, e_key = key, e_value = safe_str (kf_get_string kf sp key)\<rparr> #
     section_entries kf sp keys"

fun collect_entries :: "keyfile \<Rightarrow> string list \<Rightarrow> FpMetadataEntry list" where
  "collect_entries kf [] = []"
| "collect_entries kf (sp # sections) =
     (case kf_get_keys kf sp of
        None \<Rightarrow> collect_entries kf sections
      | Some keys \<Rightarrow> section_entries kf sp keys @ collect_entries kf sections)"

definition get_permissions :: "libflatpak \<Rightarrow> port \<Rightarrow> string \<Rightarrow> post list option" where
  "get_permissions fp p app_id =
     (case load_app_metadata fp app_id (Some '''') (Some '''') of
        Inl msg \<Rightarrow> Some [post_error p msg]
      | Inr (iref, kf) \<Rightarrow>
          Some (map (\<lambda>entry. post_glaze p 0x01 (FpMetadataEntry_val entry))
                  (collect_entries kf metadata_sections) @ [post_sentinel p]))"

fun write_entries :: "FpMetadataEntry list \<Rightarrow> writer \<Rightarrow> writer" where
  "write_entries [] w = w"
| "write_entries (e # es) w =
     write_entries es
       (write_string (e_value e) (write_string (e_key e) (write_string (e_section e) w)))"

definition fetch_remote_metadata ::
    "libflatpak \<Rightarrow> port \<Rightarrow> string \<Rightarrow> string \<Rightarrow> post list option" where
  "fetch_remote_metadata fp p remote ref =
     (case lf_ref_parse fp ref of
        Inl err \<Rightarrow> Some [post_error p (err_or err ''invalid ref'')]
      | Inr fref \<Rightarrow>
          (case lf_fetch_remote_metadata_sync fp remote fref of
             Inl err \<Rightarrow> Some [post_error p (err_or err ''failed to fetch metadata'')]
           | Inr data \<Rightarrow>
               (case lf_key_file_load fp data of
                  Inl err \<Rightarrow> Some [post_error p (err_or err ''failed to parse metadata'')]
                | Inr kf \<Rightarrow>
                    (let entries = collect_entries kf metadata_sections;
                         w = write_arith (V64 (of_nat (length entries))) empty_writer;
                         w = write_entries entries w
                     in Some [post_framed p 0x01 (wbuf w), post_sentinel p]))))"

definition get_runtime_ref ::
    "libflatpak \<Rightarrow> port \<Rightarrow> string \<Rightarrow> cstr \<Rightarrow> cstr \<Rightarrow> post list option" where
  "get_runtime_ref fp p app_id arch branch =
     (case load_app_metadata fp app_id arch branch of
        Inl msg \<Rightarrow> Some [post_error p msg]
      | Inr (iref, kf) \<Rightarrow>
          (case hint (kf_get_string kf ''Application'' ''runtime'') of
             None \<Rightarrow> Some [post_error p ''no runtime declared'']
           | Some runtime \<Rightarrow> Some [post_string p runtime, post_sentinel p]))"

definition is_ref_installed :: "libflatpak \<Rightarrow> port \<Rightarrow> string \<Rightarrow> post list option" where
  "is_ref_installed fp p ref =
     (case lf_ref_parse fp ref of
        Inl err \<Rightarrow> Some [post_error p (err_or err ''invalid ref'')]
      | Inr fref \<Rightarrow>
          Some [post_string p
                  (case lf_get_installed_ref fp (ref_kind fref) (ref_name fref) (ref_arch fref)
                          (ref_branch fref) of
                     Inr _ \<Rightarrow> ''1'' | Inl _ \<Rightarrow> ''0''),
                post_sentinel p])"

section \<open>Missing extensions\<close>

fun any_branch_installed :: "libflatpak \<Rightarrow> string \<Rightarrow> string \<Rightarrow> string list \<Rightarrow> bool" where
  "any_branch_installed fp eid app_arch [] = False"
| "any_branch_installed fp eid app_arch (ext_branch # branches) =
     (case lf_get_installed_ref fp FLATPAK_REF_KIND_RUNTIME (Some eid) (Some app_arch)
             (Some ext_branch) of
        Inr _ \<Rightarrow> True
      | Inl _ \<Rightarrow> any_branch_installed fp eid app_arch branches)"

text \<open>\<open>branches.front()\<close> of an empty vector is undefined, \<open>None\<close>.\<close>

fun missing_loop ::
    "libflatpak \<Rightarrow> port \<Rightarrow> string \<Rightarrow> RequiredExtension list \<Rightarrow> post list option" where
  "missing_loop fp p app_arch [] = Some []"
| "missing_loop fp p app_arch (ext # exts) =
     (if any_branch_installed fp (ext_id ext) app_arch (ext_branches ext)
      then missing_loop fp p app_arch exts
      else case ext_branches ext of
             [] \<Rightarrow> None
           | front # _ \<Rightarrow>
               map_option
                 ((#) (post_string p (''runtime/'' @ ext_id ext @ ''/'' @ app_arch @ ''/'' @ front)))
                 (missing_loop fp p app_arch exts))"

definition list_missing_extensions ::
    "libflatpak \<Rightarrow> port \<Rightarrow> string \<Rightarrow> cstr \<Rightarrow> cstr \<Rightarrow> post list option" where
  "list_missing_extensions fp p app_id arch branch =
     (case load_app_metadata fp app_id arch branch of
        Inl msg \<Rightarrow> Some [post_error p msg]
      | Inr (iref, kf) \<Rightarrow>
          (let app_arch = safe_str (ref_arch iref);
               app_branch = safe_str (ref_branch iref)
           in map_option (\<lambda>posts. posts @ [post_sentinel p])
                (missing_loop fp p app_arch (required_extensions (Some kf) (Some app_branch)))))"

section \<open>Introspection\<close>

text \<open>\<open>%d\<close> and \<open>snprintf\<close> into a buffer of 32 bytes, the last of them the NUL.\<close>

fun nat_str :: "nat \<Rightarrow> string" where
  "nat_str n = (if n < 10 then [char_of (48 + n)] else nat_str (n div 10) @ [char_of (48 + n mod 10)])"

declare nat_str.simps [simp del]

definition int_str :: "int \<Rightarrow> string" where
  "int_str i = (if i < 0 then CHR 0x2D # nat_str (nat (- i)) else nat_str (nat i))"

definition version_string :: "int \<Rightarrow> int \<Rightarrow> int \<Rightarrow> string" where
  "version_string major minor micro =
     take 31 (int_str major @ ''.'' @ int_str minor @ ''.'' @ int_str micro)"

definition get_version :: "int \<times> int \<times> int \<Rightarrow> port \<Rightarrow> post list option" where
  "get_version version p =
     (case version of (major, minor, micro) \<Rightarrow>
        Some [post_string p (version_string major minor micro), post_sentinel p])"

definition get_default_arch :: "libflatpak \<Rightarrow> port \<Rightarrow> post list option" where
  "get_default_arch fp p =
     Some [post_string p (safe_str (lf_get_default_arch fp)), post_sentinel p]"

definition get_supported_arches :: "libflatpak \<Rightarrow> port \<Rightarrow> post list option" where
  "get_supported_arches fp p =
     Some (map (post_string p) (case lf_get_supported_arches fp of None \<Rightarrow> [] | Some as \<Rightarrow> as) @
           [post_sentinel p])"

section \<open>The exported reads\<close>

datatype reader_call =
    ListApps bool | ListRemotes | GetRemoteInfo string
  | ListRemoteApps string cstr bool bool | GetAppInfo string cstr cstr | GetPermissions string
  | CheckUpdates | FetchRemoteMetadata string string | ListRunning | GetVersion
  | GetDefaultArch | GetSupportedArches | ListSystemInstallations
  | GetRuntimeRef string cstr cstr | IsRefInstalled string
  | ListMissingExtensions string cstr cstr

text \<open>
  \<open>drop_caches\<close> replies to nobody: it changes what libflatpak has cached, and an error is dropped.
\<close>

definition drop_caches :: "('s \<Rightarrow> unit gresult \<times> 's) \<Rightarrow> 's \<Rightarrow> post list \<times> 's" where
  "drop_caches flatpak_installation_drop_caches s = ([], snd (flatpak_installation_drop_caches s))"

fun reader_run ::
    "int \<times> int \<times> int \<Rightarrow> libflatpak \<Rightarrow> reader_call \<Rightarrow> port \<Rightarrow> post list option" where
  "reader_run version fp (ListApps include_runtimes) p = list_apps fp p include_runtimes"
| "reader_run version fp ListRemotes p = list_remotes fp p"
| "reader_run version fp (GetRemoteInfo name) p = get_remote_info fp p name"
| "reader_run version fp (ListRemoteApps name arch include_runtimes wayland_only) p =
     list_remote_apps fp p name arch include_runtimes wayland_only"
| "reader_run version fp (GetAppInfo app_id arch branch) p = get_app_info fp p app_id arch branch"
| "reader_run version fp (GetPermissions app_id) p = get_permissions fp p app_id"
| "reader_run version fp CheckUpdates p = check_updates fp p"
| "reader_run version fp (FetchRemoteMetadata remote ref) p = fetch_remote_metadata fp p remote ref"
| "reader_run version fp ListRunning p = list_running fp p"
| "reader_run version fp GetVersion p = get_version version p"
| "reader_run version fp GetDefaultArch p = get_default_arch fp p"
| "reader_run version fp GetSupportedArches p = get_supported_arches fp p"
| "reader_run version fp ListSystemInstallations p = list_system_installations fp p"
| "reader_run version fp (GetRuntimeRef app_id arch branch) p = get_runtime_ref fp p app_id arch branch"
| "reader_run version fp (IsRefInstalled ref) p = is_ref_installed fp p ref"
| "reader_run version fp (ListMissingExtensions app_id arch branch) p =
     list_missing_extensions fp p app_id arch branch"

section \<open>Every read keeps the reply protocol\<close>

lemma deref_error_framed: "deref_error p err = Some ps \<Longrightarrow> well_framed p ps"
  by (auto simp: deref_error_def split: option.splits)

lemma list_apps_loop_items: "x \<in> set (list_apps_loop p b refs) \<Longrightarrow> is_item p x"
  by (induction refs) (auto split: if_splits)

lemma list_remote_apps_loop_items:
  "x \<in> set (list_remote_apps_loop fp p arch b w refs) \<Longrightarrow> is_item p x"
  by (induction refs) (auto simp: Let_def split: if_splits)

lemma missing_loop_items:
  "missing_loop fp p app_arch exts = Some ps \<Longrightarrow> x \<in> set ps \<Longrightarrow> is_item p x"
  by (induction exts arbitrary: ps) (auto split: if_splits list.splits)

lemmas listing_defs =
  list_apps_def list_remotes_def get_remote_info_def list_remote_apps_def check_updates_def
  list_running_def list_system_installations_def

lemmas metadata_defs =
  get_app_info_def get_permissions_def fetch_remote_metadata_def get_runtime_ref_def
  is_ref_installed_def

lemmas introspection_defs = get_version_def get_default_arch_def get_supported_arches_def

lemma listing_framed:
  "list_apps fp p b = Some ps \<Longrightarrow> well_framed p ps"
  "list_remotes fp p = Some ps \<Longrightarrow> well_framed p ps"
  "get_remote_info fp p name = Some ps \<Longrightarrow> well_framed p ps"
  "list_remote_apps fp p name arch b w = Some ps \<Longrightarrow> well_framed p ps"
  "check_updates fp p = Some ps \<Longrightarrow> well_framed p ps"
  "list_running fp p = Some ps \<Longrightarrow> well_framed p ps"
  "list_system_installations fp p = Some ps \<Longrightarrow> well_framed p ps"
  by (auto simp: listing_defs deref_error_framed
      intro!: well_framed_intros(4) dest: list_apps_loop_items list_remote_apps_loop_items
      split: sum.splits option.splits)

lemma metadata_framed:
  "get_app_info fp p app_id arch branch = Some ps \<Longrightarrow> well_framed p ps"
  "get_permissions fp p app_id = Some ps \<Longrightarrow> well_framed p ps"
  "fetch_remote_metadata fp p remote ref = Some ps \<Longrightarrow> well_framed p ps"
  "get_runtime_ref fp p app_id arch branch = Some ps \<Longrightarrow> well_framed p ps"
  "is_ref_installed fp p ref = Some ps \<Longrightarrow> well_framed p ps"
  by (auto simp: metadata_defs Let_def intro!: well_framed_intros(4)
      split: sum.splits option.splits)

lemma missing_framed:
  "list_missing_extensions fp p app_id arch branch = Some ps \<Longrightarrow> well_framed p ps"
  by (auto simp: list_missing_extensions_def Let_def intro!: well_framed_intros(4)
      dest: missing_loop_items split: sum.splits)

lemma introspection_framed:
  "get_version v p = Some ps \<Longrightarrow> well_framed p ps"
  "get_default_arch fp p = Some ps \<Longrightarrow> well_framed p ps"
  "get_supported_arches fp p = Some ps \<Longrightarrow> well_framed p ps"
  by (auto simp: introspection_defs intro!: well_framed_intros(4) split: prod.splits option.splits)

lemmas reader_framed = listing_framed metadata_framed missing_framed introspection_framed

lemma reader_run_framed: "reader_run version fp call p = Some ps \<Longrightarrow> well_framed p ps"
  by (cases call) (auto dest: reader_framed)

interpretation reader: reply_stream "reader_run version fp call" for version fp call
  by unfold_locales (rule reader_run_framed)

section \<open>No read is undefined when libflatpak sets its errors\<close>

definition lists_set_errors :: "libflatpak \<Rightarrow> bool" where
  "lists_set_errors fp \<longleftrightarrow>
     sets_error (lf_list_installed_refs fp) \<and> sets_error (lf_list_remotes fp) \<and>
     (\<forall>name. sets_error (lf_get_remote_by_name fp name)) \<and>
     (\<forall>name. sets_error (lf_list_remote_refs_sync fp name)) \<and>
     sets_error (lf_list_installed_refs_for_update fp)"

lemma missing_loop_eq:
  assumes "\<forall>ext \<in> set exts. ext_branches ext \<noteq> []"
  shows "missing_loop fp p app_arch exts =
    Some (map (\<lambda>ext. post_string p
                 (''runtime/'' @ ext_id ext @ ''/'' @ app_arch @ ''/'' @ hd (ext_branches ext)))
            (filter (\<lambda>ext. \<not> any_branch_installed fp (ext_id ext) app_arch (ext_branches ext)) exts))"
  using assms
proof (induction exts)
  case (Cons ext exts)
  then show ?case by (cases "ext_branches ext") auto
qed simp

lemma list_missing_extensions_eq:
  "list_missing_extensions fp p app_id arch branch =
     (case load_app_metadata fp app_id arch branch of
        Inl msg \<Rightarrow> Some [post_error p msg]
      | Inr (iref, kf) \<Rightarrow>
          (let app_arch = safe_str (ref_arch iref) in
           Some (map (\<lambda>ext. post_string p
                   (''runtime/'' @ ext_id ext @ ''/'' @ app_arch @ ''/'' @ hd (ext_branches ext)))
              (filter (\<lambda>ext. \<not> any_branch_installed fp (ext_id ext) app_arch (ext_branches ext))
                 (required_extensions (Some kf) (Some (safe_str (ref_branch iref))))) @
             [post_sentinel p])))"
  using required_extensions_branches
  by (auto simp: list_missing_extensions_def missing_loop_eq Let_def split: sum.splits)

lemma sets_error_deref:
  "sets_error m \<Longrightarrow> m = Inl err \<Longrightarrow> \<exists>e. err = Some e"
  by (auto simp: sets_error_def)

lemma deref_error_defined: "sets_error m \<Longrightarrow> m = Inl err \<Longrightarrow> deref_error p err \<noteq> None"
  by (auto simp: deref_error_def dest: sets_error_deref)

lemma reader_defined:
  assumes "lists_set_errors fp"
  shows "reader_run version fp call p \<noteq> None"
proof (cases call)
  case (ListMissingExtensions app_id arch branch)
  then show ?thesis
    by (auto simp: list_missing_extensions_eq Let_def split: sum.splits)
qed (use assms in \<open>auto simp: listing_defs metadata_defs introspection_defs lists_set_errors_def
    Let_def sets_error_def deref_error_def split: sum.splits prod.splits option.splits\<close>)

section \<open>What the lists carry\<close>

lemma list_apps_loop_eq:
  "list_apps_loop p b refs =
     map (\<lambda>iref. post_glaze p 0x01 (InstalledApp_val (fill_app (kind_str (ref_kind iref)) iref)))
       (filter (\<lambda>iref. b \<or> ref_kind iref = FLATPAK_REF_KIND_APP) refs)"
  by (induction refs) auto

definition listed_remotely :: "libflatpak \<Rightarrow> cstr \<Rightarrow> bool \<Rightarrow> bool \<Rightarrow> FlatpakRemoteRef \<Rightarrow> bool" where
  "listed_remotely fp arch include_runtimes wayland_only fref \<longleftrightarrow>
     (include_runtimes \<or> ref_kind fref = FLATPAK_REF_KIND_APP) \<and>
     (hint arch = None \<or> ref_arch fref = arch) \<and>
     (wayland_only \<longrightarrow> ref_kind fref = FLATPAK_REF_KIND_APP \<longrightarrow>
        remote_ref_has_socket fp fref ''wayland'')"

lemma list_remote_apps_loop_eq:
  "list_remote_apps_loop fp p arch b w refs =
     map (\<lambda>fref. post_glaze p 0x01 (FpRef_val (fill_ref (kind_str (ref_kind fref)) fref)))
       (filter (listed_remotely fp arch b w) refs)"
  by (induction refs) (auto simp: Let_def listed_remotely_def)

lemma struct_payload_nonempty [simp]:
  "write_binary (InstalledApp_val x) \<noteq> []" "write_binary (FpRef_val y) \<noteq> []"
  "write_binary (FlatpakRemoteInfo_val z) \<noteq> []" "write_binary (FpInstance_val i) \<noteq> []"
  "write_binary (FpMetadataEntry_val e) \<noteq> []" "write_binary (FpInstallationInfo_val n) \<noteq> []"
  by (simp_all add: wire_simps InstalledApp_val_def FpRef_val_def FlatpakRemoteInfo_val_def
      FpInstance_val_def FpMetadataEntry_val_def FpInstallationInfo_val_def enc_string_def)

section \<open>Which app a lookup by architecture finds\<close>

definition matches_app :: "string \<Rightarrow> string \<Rightarrow> FlatpakInstalledRef \<Rightarrow> bool" where
  "matches_app app_id want_arch iref \<longleftrightarrow>
     ref_name iref = Some app_id \<and> ref_arch iref = Some want_arch"

lemma match_loop_Some:
  "match_loop app_id want_arch refs (Some m) =
     Some (last (m # filter (\<lambda>r. matches_app app_id want_arch r \<and> iref_is_current r) refs))"
  by (induction refs arbitrary: m) (auto simp: matches_app_def)

lemma match_loop_None:
  "match_loop app_id want_arch refs None =
     (case filter (matches_app app_id want_arch) refs of
        [] \<Rightarrow> None
      | first # _ \<Rightarrow>
          Some (last (first # filter iref_is_current (filter (matches_app app_id want_arch) refs))))"
proof (induction refs)
  case (Cons r refs)
  show ?case
  proof (cases "matches_app app_id want_arch r")
    case True
    then have "match_loop app_id want_arch (r # refs) None = match_loop app_id want_arch refs (Some r)"
      by (simp add: matches_app_def)
    with True show ?thesis by (simp add: match_loop_Some conj_commute)
  next
    case False
    then have "match_loop app_id want_arch (r # refs) None = match_loop app_id want_arch refs None"
      by (auto simp: matches_app_def)
    with False Cons.IH show ?thesis by (simp cong: list.case_cong)
  qed
qed simp

section \<open>The entries of a metadata file\<close>

definition entries_val :: "FpMetadataEntry list \<Rightarrow> gval" where
  "entries_val es = VStruct [FVecVal (map FpMetadataEntry_val es)]"

definition meta_entries :: gty where
  "meta_entries = TStruct [(''entries'', FVector meta_FpMetadataEntry)]"

lemma write_entries_enc:
  "wbuf (write_entries es w) = wbuf w @ concat (map (enc_value \<circ> FpMetadataEntry_val) es)"
  by (induction es arbitrary: w) (auto simp: FpMetadataEntry_val_def)

text \<open>The hand-written loop produces what the writer gives for a vector of the struct.\<close>

lemma entries_wire:
  "wbuf (write_entries es (write_arith (V64 (of_nat (length es))) empty_writer)) =
     write_binary (entries_val es)"
  by (simp add: write_entries_enc wire_simps entries_val_def empty_writer_def)

lemma entries_fit:
  assumes "length es < 2 ^ 64" "al_reserve al meta_FpMetadataEntry (length es)"
    "\<forall>e \<in> set es. fits_FpMetadataEntry al e"
  shows "fits al (entries_val es) meta_entries"
  using assms by (auto simp: entries_val_def meta_entries_def)

lemma section_entries_eq:
  "section_entries kf sp keys =
     map (\<lambda>key. \<lparr>e_section = sp, e_key = key, e_value = safe_str (kf_get_string kf sp key)\<rparr>) keys"
  by (induction keys) auto

lemma collect_entries_eq:
  "collect_entries kf sections =
     concat (map (\<lambda>sp. map (\<lambda>key. \<lparr>e_section = sp, e_key = key,
                                    e_value = safe_str (kf_get_string kf sp key)\<rparr>)
                         (case kf_get_keys kf sp of None \<Rightarrow> [] | Some keys \<Rightarrow> keys)) sections)"
  by (induction sections) (auto simp: section_entries_eq split: option.splits)

section \<open>Extensions\<close>

lemma any_branch_installed_iff:
  "any_branch_installed fp eid app_arch branches \<longleftrightarrow>
     (\<exists>b \<in> set branches. \<exists>iref. lf_get_installed_ref fp FLATPAK_REF_KIND_RUNTIME (Some eid)
        (Some app_arch) (Some b) = Inr iref)"
  by (induction branches) (auto split: sum.splits)

section \<open>Properties\<close>

definition example_app :: FlatpakInstalledRef where
  "example_app =
     \<lparr>ref_kind = FLATPAK_REF_KIND_APP, ref_name = Some ''a.B'', ref_arch = Some ''x86_64'',
      ref_branch = Some ''stable'', ref_commit = Some ''c0'', ref_collection_id = None,
      iref_origin = Some ''hub'', iref_latest_commit = None, iref_deploy_dir = Some ''/a'',
      iref_installed_size = 7, iref_is_current = False, iref_eol = None, iref_eol_rebase = None,
      iref_appdata_name = Some ''B'', iref_appdata_summary = None, iref_appdata_version = None\<rparr>"

definition example_runtime :: FlatpakInstalledRef where
  "example_runtime = example_app\<lparr>ref_kind := FLATPAK_REF_KIND_RUNTIME, ref_name := Some ''r.P''\<rparr>"

definition example_remote_ref :: FlatpakRemoteRef where
  "example_remote_ref =
     \<lparr>ref_kind = FLATPAK_REF_KIND_APP, ref_name = Some ''a.B'', ref_arch = Some ''x86_64'',
      ref_branch = Some ''stable'', ref_commit = Some ''c0'', ref_collection_id = None,
      rref_metadata = Some [1]\<rparr>"

definition example_error :: GError where
  "example_error = \<lparr>g_domain = 3, g_code = 6, g_message = ''not there''\<rparr>"

definition example_keyfile :: keyfile where
  "example_keyfile =
     \<lparr>kf_get_groups = Some [''Application'', ''Extension o.Gl'', ''Extension o.Loc''],
      kf_get_keys = (\<lambda>s. if s = ''Context'' then Some [''sockets''] else None),
      kf_get_string = (\<lambda>s k. if s = ''Context'' \<and> k = ''sockets'' then Some ''wayland;'' else None),
      kf_get_string_list = (\<lambda>s k.
        if s = ''Context'' \<and> k = ''sockets'' then Some [''wayland''] else None),
      kf_get_boolean = (\<lambda>s k. s = ''Extension o.Loc'' \<and> k = ''subdirectories'')\<rparr>"

definition example_lib :: libflatpak where
  "example_lib =
     \<lparr>lf_list_installed_refs = Inr [example_runtime, example_app],
      lf_list_installed_refs_by_kind = (\<lambda>k. Inr [example_app, example_app\<lparr>iref_is_current := True\<rparr>]),
      lf_list_installed_refs_for_update = Inr [example_app],
      lf_get_installed_ref = (\<lambda>k n a b. Inl (Some example_error)),
      lf_get_current_installed_app = (\<lambda>n. Inr example_app),
      lf_list_remotes = Inl (Some example_error),
      lf_get_remote_by_name = (\<lambda>n. Inl (Some example_error)),
      lf_list_remote_refs_sync = (\<lambda>n. Inr [example_remote_ref, example_remote_ref\<lparr>ref_arch := None\<rparr>]),
      lf_load_metadata = (\<lambda>r. Inr [1]),
      lf_fetch_remote_metadata_sync = (\<lambda>n r. Inr [1]),
      lf_ref_parse = (\<lambda>s. Inr \<lparr>ref_kind = FLATPAK_REF_KIND_APP, ref_name = Some ''a.B'',
        ref_arch = None, ref_branch = None, ref_commit = None, ref_collection_id = None\<rparr>),
      lf_key_file_load = (\<lambda>d. if d = [1] then Inr example_keyfile else Inl None),
      lf_strstrip = (\<lambda>s. s), lf_get_default_arch = Some ''x86_64'',
      lf_get_supported_arches = Some [''x86_64'', ''i386''],
      lf_get_system_installations = Inl None, lf_instance_get_all = None,
      lf_update_appstream_sync = (\<lambda>r a. Inr ()), lf_FLATPAK_ERROR = 3,
      lf_FLATPAK_ERROR_NOT_INSTALLED = 6\<rparr>"

text \<open>
  C33. list_remote_apps posts, in libflatpak's order and before the sentinel, one item for
  each ref of the remote that passes the three filters, and nothing else:
  runtimes only when asked for, another architecture than a non-empty \<open>arch\<close> never, and
  under \<open>wayland_only\<close> an app only if its own metadata parses and has a sockets entry that
  strips to \<open>wayland\<close> (a runtime is never filtered by socket).
\<close>

theorem list_remote_apps_filters:
  assumes "lf_list_remote_refs_sync fp name = Inr refs"
  shows "\<exists>ps. list_remote_apps fp p name arch include_runtimes wayland_only = Some ps \<and>
    ps = map (\<lambda>fref. post_framed p 0x01 (write_binary (FpRef_val (fill_ref (kind_str (ref_kind fref)) fref))))
        (filter (\<lambda>fref.
           (include_runtimes \<or> ref_kind fref = FLATPAK_REF_KIND_APP) \<and>
           (arch \<in> {None, Some ''''} \<or> ref_arch fref = arch) \<and>
           (\<not> wayland_only \<or> ref_kind fref \<noteq> FLATPAK_REF_KIND_APP \<or>
            (\<exists>data kf sockets. rref_metadata fref = Some data \<and> lf_key_file_load fp data = Inr kf \<and>
               kf_get_string_list kf ''Context'' ''sockets'' = Some sockets \<and>
               ''wayland'' \<in> lf_strstrip fp ` set sockets))) refs) @ [post_sentinel p]"
proof -
  have "hint arch = None \<longleftrightarrow> arch \<in> {None, Some ''''}"
    by (auto simp: hint_def split: option.splits if_splits)
  moreover have "remote_ref_has_socket fp fref ''wayland'' \<longleftrightarrow>
      (\<exists>data kf sockets. rref_metadata fref = Some data \<and> lf_key_file_load fp data = Inr kf \<and>
         kf_get_string_list kf ''Context'' ''sockets'' = Some sockets \<and>
         ''wayland'' \<in> lf_strstrip fp ` set sockets)" for fref
    by (auto simp: remote_ref_has_socket_def metadata_requests_socket_def socket_loop_iff
        split: option.splits sum.splits)
  ultimately have "listed_remotely fp arch include_runtimes wayland_only = (\<lambda>fref.
           (include_runtimes \<or> ref_kind fref = FLATPAK_REF_KIND_APP) \<and>
           (arch \<in> {None, Some ''''} \<or> ref_arch fref = arch) \<and>
           (\<not> wayland_only \<or> ref_kind fref \<noteq> FLATPAK_REF_KIND_APP \<or>
            (\<exists>data kf sockets. rref_metadata fref = Some data \<and> lf_key_file_load fp data = Inr kf \<and>
               kf_get_string_list kf ''Context'' ''sockets'' = Some sockets \<and>
               ''wayland'' \<in> lf_strstrip fp ` set sockets)))"
    by (auto simp: listed_remotely_def)
  then show ?thesis
    by (simp add: list_remote_apps_def assms list_remote_apps_loop_eq post_glaze_def)
qed

theorem list_remote_apps_filters_witness:
  "list_remote_apps example_lib 5 ''hub'' (Some ''x86_64'') False True =
    Some [post_framed 5 0x01 (write_binary (FpRef_val (fill_ref ''app'' example_remote_ref))), post_sentinel 5]"
proof -
  have "lf_list_remote_refs_sync example_lib ''hub'' =
      Inr [example_remote_ref, example_remote_ref\<lparr>ref_arch := None\<rparr>]"
    by (simp add: example_lib_def)
  from list_remote_apps_filters [OF this, of 5 "Some ''x86_64''" False True]
  show ?thesis by (simp add: example_remote_ref_def example_lib_def example_keyfile_def)
qed

text \<open>
  A lookup by architecture alone returns an installed app of that name and architecture:
  the last one libflatpak calls current, or the first when none is; it fails exactly when
  there is none, with \<open>FLATPAK_ERROR_NOT_INSTALLED\<close>.
\<close>

lemma lookup_by_arch:
  assumes "want_arch \<noteq> ''''" "branch = None \<or> branch = Some ''''"
    "lf_list_installed_refs_by_kind fp FLATPAK_REF_KIND_APP = Inr refs"
    "found = filter (\<lambda>r. ref_name r = Some app_id \<and> ref_arch r = Some want_arch) refs"
  shows "get_installed_app_ref fp app_id (Some want_arch) branch =
    (if found = []
     then Inl (Some \<lparr>g_domain = lf_FLATPAK_ERROR fp, g_code = lf_FLATPAK_ERROR_NOT_INSTALLED fp,
                     g_message = app_id @ ''/'' @ want_arch @ '' is not installed''\<rparr>)
     else if filter iref_is_current found = [] then Inr (hd found)
     else Inr (last (filter iref_is_current found)))"
proof -
  have "hint branch = None" "hint (Some want_arch) = Some want_arch" using assms(1,2) by auto
  moreover have "filter (matches_app app_id want_arch) refs = found"
    by (simp add: assms(4) matches_app_def [abs_def])
  ultimately have "get_installed_app_ref fp app_id (Some want_arch) branch =
      (case found of
         [] \<Rightarrow> Inl (Some \<lparr>g_domain = lf_FLATPAK_ERROR fp, g_code = lf_FLATPAK_ERROR_NOT_INSTALLED fp,
                         g_message = app_id @ ''/'' @ want_arch @ '' is not installed''\<rparr>)
       | first # _ \<Rightarrow> Inr (last (first # filter iref_is_current found)))"
    unfolding get_installed_app_ref_def match_loop_None
    by (simp only: option.case sum.case assms(3)) (simp split: list.splits)
  then show ?thesis by (cases found) auto
qed

lemma lookup_by_arch_witness:
  "get_installed_app_ref example_lib ''a.B'' (Some ''x86_64'') None =
     Inr (example_app\<lparr>iref_is_current := True\<rparr>)"
proof -
  have refs: "lf_list_installed_refs_by_kind example_lib FLATPAK_REF_KIND_APP =
      Inr [example_app, example_app\<lparr>iref_is_current := True\<rparr>]"
    by (simp add: example_lib_def)
  show ?thesis
    using lookup_by_arch [OF _ _ refs refl, of "''x86_64''" None "''a.B''"]
    by (simp add: example_app_def)
qed

text \<open>
  C31. The two metadata reads agree: for a remote ref and an installed app with the same
  metadata file, the single payload of fetch_remote_metadata decodes, as a counted vector of
  entries, to the entries that get_permissions streams one by one: the keys of the four
  permission sections, in file order, an unreadable value as the empty string.
\<close>

theorem metadata_reads_agree:
  assumes "lf_ref_parse fp ref = Inr fref" "lf_fetch_remote_metadata_sync fp remote fref = Inr data"
    "lf_get_current_installed_app fp app_id = Inr iref" "lf_load_metadata fp iref = Inr data"
    "lf_key_file_load fp data = Inr kf"
    "es = concat (map (\<lambda>sp. map (\<lambda>key. \<lparr>e_section = sp, e_key = key,
              e_value = safe_str (kf_get_string kf sp key)\<rparr>)
            (case kf_get_keys kf sp of None \<Rightarrow> [] | Some keys \<Rightarrow> keys))
          [''Context'', ''Session Bus Policy'', ''System Bus Policy'', ''Environment''])"
    "length es < 2 ^ 64" "al_reserve al meta_FpMetadataEntry (length es)"
    "\<forall>e \<in> set es. fits_FpMetadataEntry al e"
    "region_ok \<lparr>rg_base = base, rg_bytes = write_binary (entries_val es)\<rparr>"
  shows "\<exists>ps payload qs. fetch_remote_metadata fp p remote ref = Some ps \<and>
    ps = [post_framed p 0x01 payload, post_sentinel p] \<and>
    read_binary al \<lparr>rg_base = base, rg_bytes = payload\<rparr> meta_entries = Inr (entries_val es) \<and>
    get_permissions fp q app_id = Some qs \<and>
    qs = map (\<lambda>e. post_framed q 0x01 (write_binary (FpMetadataEntry_val e))) es @ [post_sentinel q]"
proof -
  have es: "collect_entries kf metadata_sections = es"
    unfolding assms(6) metadata_sections_def by (rule collect_entries_eq)
  have "read_binary al \<lparr>rg_base = base, rg_bytes = write_binary (entries_val es)\<rparr> meta_entries =
      Inr (entries_val es)"
    using assms(7-10) by (intro read_binary_write [where r = "[]"] entries_fit) auto
  moreover have "get_permissions fp q app_id =
      Some (map (\<lambda>e. post_framed q 1 (write_binary (FpMetadataEntry_val e))) es @ [post_sentinel q])"
    by (simp add: post_glaze_def get_permissions_def load_app_metadata_def get_installed_app_ref_def assms(3-5) es)
  moreover have "fetch_remote_metadata fp p remote ref =
      Some [post_framed p 1 (write_binary (entries_val es)), post_sentinel p]"
    by (simp add: fetch_remote_metadata_def assms(1,2,5) es entries_wire del: write_arith.simps)
  ultimately show ?thesis by blast
qed

theorem metadata_reads_agree_witness:
  "\<exists>ps payload. fetch_remote_metadata example_lib 5 ''hub'' ''app/a.B'' = Some ps \<and>
    ps = [post_framed 5 0x01 payload, post_sentinel 5] \<and>
    read_binary example_allocator \<lparr>rg_base = 4096, rg_bytes = payload\<rparr> meta_entries =
    Inr (entries_val [\<lparr>e_section = ''Context'', e_key = ''sockets'', e_value = ''wayland;''\<rparr>])"
proof -
  let ?es = "[\<lparr>e_section = ''Context'', e_key = ''sockets'', e_value = ''wayland;''\<rparr>]"
  have es: "?es = concat (map (\<lambda>sp. map (\<lambda>key. \<lparr>e_section = sp, e_key = key,
              e_value = safe_str (kf_get_string example_keyfile sp key)\<rparr>)
            (case kf_get_keys example_keyfile sp of None \<Rightarrow> [] | Some keys \<Rightarrow> keys))
          [''Context'', ''Session Bus Policy'', ''System Bus Policy'', ''Environment''])"
    by (simp add: example_keyfile_def)
  have fits: "\<forall>e \<in> set ?es. fits_FpMetadataEntry example_allocator e"
    by (simp add: fits_FpMetadataEntry_def str_fits_def example_allocator_def)
  have ok: "region_ok \<lparr>rg_base = 4096, rg_bytes = write_binary (entries_val ?es)\<rparr>"
    by (simp add: region_ok_def wire_simps entries_val_def FpMetadataEntry_val_def enc_string_def)
  have reserve: "al_reserve example_allocator meta_FpMetadataEntry (length ?es)"
    by (simp add: example_allocator_def)
  show ?thesis
    using metadata_reads_agree [where fp = example_lib and p = 5 and q = 6 and ref = "''app/a.B''" and
        remote = "''hub''" and app_id = "''a.B''", OF _ _ _ _ _ es _ reserve fits ok]
    by (simp add: example_lib_def) blast
qed

text \<open>
  C32. list_missing_extensions replies with one ref for each extension group of the app's
  metadata that has to be present and has no acceptable branch installed for the app's
  architecture, in file order, and each names the group's first acceptable branch; the text
  the client reads is that ref.
\<close>

theorem missing_extensions_exact:
  assumes "get_installed_app_ref fp app_id arch branch = Inr iref" "lf_load_metadata fp iref = Inr data"
    "lf_key_file_load fp data = Inr kf" "kf_get_groups kf = Some groups"
    "ref_arch iref = Some a" "ref_branch iref = Some b"
  shows "\<exists>refs. list_missing_extensions fp p app_id arch branch =
      Some (map (post_string p) refs @ [post_sentinel p]) \<and>
    refs = map (\<lambda>grp. ''runtime/'' @ drop (length ''Extension '') grp @ ''/'' @ a @ ''/'' @
                      hd (group_branches kf (Some b) grp))
      (filter (\<lambda>grp. (\<exists>eid. eid \<noteq> '''' \<and> grp = ''Extension '' @ eid \<and>
         \<not> kf_get_boolean kf grp ''no-autodownload'' \<and> \<not> kf_get_boolean kf grp ''subdirectories'' \<and>
         (\<forall>br. br \<in> set (group_branches kf (Some b) grp) \<longrightarrow> (\<forall>i. lf_get_installed_ref fp
            FLATPAK_REF_KIND_RUNTIME (Some eid) (Some a) (Some br) \<noteq> Inr i)))) groups) \<and>
    map (\<lambda>s. decodeError (post_bytes (post_string p s))) refs = map wire_msg refs"
proof -
  have "wanted_group kf grp \<and> \<not> any_branch_installed fp (drop kPrefixLen grp) a (group_branches kf (Some b) grp)
      \<longleftrightarrow> (\<exists>eid. eid \<noteq> '''' \<and> grp = ''Extension '' @ eid \<and>
         \<not> kf_get_boolean kf grp ''no-autodownload'' \<and> \<not> kf_get_boolean kf grp ''subdirectories'' \<and>
         (\<forall>br. br \<in> set (group_branches kf (Some b) grp) \<longrightarrow> (\<forall>i. lf_get_installed_ref fp
            FLATPAK_REF_KIND_RUNTIME (Some eid) (Some a) (Some br) \<noteq> Inr i)))" for grp
    by (auto simp: wanted_group_def any_branch_installed_iff kPrefixLen_def kPrefix_def)
  then have "filter (\<lambda>ext. \<not> any_branch_installed fp (ext_id ext) a (ext_branches ext))
        (required_extensions (Some kf) (Some b)) =
      map (\<lambda>grp. \<lparr>ext_id = drop kPrefixLen grp, ext_branches = group_branches kf (Some b) grp\<rparr>)
        (filter (\<lambda>grp. \<exists>eid. eid \<noteq> '''' \<and> grp = ''Extension '' @ eid \<and>
         \<not> kf_get_boolean kf grp ''no-autodownload'' \<and> \<not> kf_get_boolean kf grp ''subdirectories'' \<and>
         (\<forall>br. br \<in> set (group_branches kf (Some b) grp) \<longrightarrow> (\<forall>i. lf_get_installed_ref fp
            FLATPAK_REF_KIND_RUNTIME (Some eid) (Some a) (Some br) \<noteq> Inr i))) groups)"
    by (simp add: required_extensions_def assms(4) extension_loop_eq filter_map comp_def conj_commute)
  then show ?thesis
    using assms(1-3,5,6)
    by (simp add: list_missing_extensions_eq load_app_metadata_def Let_def post_string_def
        decodeError_framed kPrefixLen_def kPrefix_def comp_def)
qed

theorem missing_extensions_exact_witness:
  "list_missing_extensions example_lib 5 ''a.B'' None None =
     Some [post_string 5 ''runtime/o.Gl/x86_64/stable'', post_sentinel 5]"
proof -
  have "get_installed_app_ref example_lib ''a.B'' None None = Inr example_app"
    "lf_load_metadata example_lib example_app = Inr [1]"
    "lf_key_file_load example_lib [1] = Inr example_keyfile"
    "kf_get_groups example_keyfile = Some [''Application'', ''Extension o.Gl'', ''Extension o.Loc'']"
    "ref_arch example_app = Some ''x86_64''" "ref_branch example_app = Some ''stable''"
    by (simp_all add: get_installed_app_ref_def example_lib_def example_keyfile_def example_app_def)
  from missing_extensions_exact [OF this, of 5]
  show ?thesis by (simp add: example_lib_def example_keyfile_def group_branches_def)
qed

end
