(* ===== verification/Dart_Codec.thy ===== *)
theory Dart_Codec
  imports Dart_Utf8 Remote_Bridge Installation_Reader
begin

text \<open>
  lib/src/ffi/codec.dart, the other end of the wire: the binary reader over a received frame,
  the decoders of \<open>GlazeCodec\<close> and its one encoder. An exception is a value of
  \<open>dart_error\<close>; a Dart \<open>int\<close> is a 64-bit signed integer, read as \<open>int\<close>. The lemmas relate each
  decoder to the native encoding of the struct it reads, and the encoder to the native decoder.
\<close>

section \<open>The binary reader\<close>

datatype dart_error = RangeError | FormatException

text \<open>A reader of a value at a position of the frame's buffer.\<close>

type_synonym 'a decoder = "byte list \<Rightarrow> nat \<Rightarrow> dart_error + 'a \<times> nat"

definition dreturn :: "'a \<Rightarrow> 'a decoder" where
  "dreturn x data pos = Inr (x, pos)"

definition dthen :: "'a decoder \<Rightarrow> ('a \<Rightarrow> 'b decoder) \<Rightarrow> 'b decoder" where
  "dthen m k data pos = (case m data pos of Inl e \<Rightarrow> Inl e | Inr (x, pos) \<Rightarrow> k x data pos)"

text \<open>A view of \<open>n\<close> bytes, which throws unless the buffer has them.\<close>

definition view :: "int \<Rightarrow> byte list decoder" where
  "view n data pos =
     (if 0 \<le> n \<and> int pos + n \<le> int (length data)
      then Inr (take (nat n) (drop pos data), pos + nat n) else Inl RangeError)"

definition readUint64 :: "int decoder" where
  "readUint64 = dthen (view 8) (\<lambda>bs. dreturn (sint (le_word bs :: u64)))"

definition readUint32 :: "int decoder" where
  "readUint32 = dthen (view 4) (\<lambda>bs. dreturn (uint (le_word bs :: u32)))"

definition readInt32 :: "int decoder" where
  "readInt32 = dthen (view 4) (\<lambda>bs. dreturn (sint (le_word bs :: i32)))"

definition readBool :: "bool decoder" where
  "readBool = dthen (view 1) (\<lambda>bs. dreturn ((le_word bs :: byte) \<noteq> 0))"

definition decode_text :: "byte list \<Rightarrow> dart_string decoder" where
  "decode_text bs data pos =
     (case utf8_decode bs of None \<Rightarrow> Inl FormatException | Some s \<Rightarrow> Inr (s, pos))"

definition readString :: "dart_string decoder" where
  "readString = dthen readUint64 (\<lambda>len. dthen (view len) decode_text)"

definition decoded :: "'a decoder \<Rightarrow> byte list \<Rightarrow> nat \<Rightarrow> dart_error + 'a" where
  "decoded m data offset = map_sum id fst (m data offset)"

section \<open>Values of the library\<close>

record DartRef =
  fr_kind :: dart_string
  fr_name :: dart_string
  fr_arch :: dart_string
  fr_branch :: dart_string
  fr_commit :: dart_string
  fr_collectionId :: dart_string

record FlatpakApplication =
  fa_ref :: DartRef
  fa_origin :: dart_string
  fa_latestCommit :: dart_string
  fa_installedPath :: dart_string
  fa_installedSize :: int
  fa_isCurrentArch :: bool
  fa_endOfLife :: bool
  fa_endOfLifeRebase :: dart_string
  fa_appDataName :: dart_string
  fa_appDataSummary :: dart_string
  fa_appDataVersion :: dart_string
  fa_appDataIcon :: dart_string

record DartInstance =
  di_appId :: dart_string
  di_instanceId :: dart_string
  di_arch :: dart_string
  di_branch :: dart_string
  di_commit :: dart_string
  di_runtime :: dart_string
  di_pid :: int
  di_childPid :: int
  di_isRunning :: bool

record DartInstallationInfo =
  dn_id :: dart_string
  dn_displayName :: dart_string
  dn_path :: dart_string
  dn_isUser :: bool
  dn_priority :: int

text \<open>\<open>FlatpakPermission\<close> and \<open>MetadataEntry\<close> have the same members.\<close>

record MetadataEntry =
  me_section :: dart_string
  me_key :: dart_string
  me_value :: dart_string

datatype RemoteType = RemoteType_user | RemoteType_system | RemoteType_static

datatype RemoteSubset = Subset_none | Subset_verified | Subset_floss | Subset_verifiedFloss

fun apiValue :: "RemoteSubset \<Rightarrow> dart_string" where
  "apiValue Subset_none = ascii ''''"
| "apiValue Subset_verified = ascii ''verified''"
| "apiValue Subset_floss = ascii ''floss''"
| "apiValue Subset_verifiedFloss = ascii ''verified_floss''"

definition fromApiValue :: "dart_string \<Rightarrow> RemoteSubset" where
  "fromApiValue v =
     (if v = ascii ''verified'' then Subset_verified
      else if v = ascii ''floss'' then Subset_floss
      else if v = ascii ''verified_floss'' then Subset_verifiedFloss
      else Subset_none)"

record DartRemote =
  dr_name :: dart_string
  dr_url :: dart_string
  dr_title :: dart_string
  dr_comment :: dart_string
  dr_description :: dart_string
  dr_homepage :: dart_string
  dr_defaultBranch :: dart_string
  dr_subset :: RemoteSubset
  dr_collectionId :: dart_string
  dr_filter :: dart_string
  dr_remoteType :: RemoteType
  dr_disabled :: bool
  dr_gpgVerify :: bool
  dr_noDeps :: bool
  dr_priority :: int

record TransactionProgressData =
  tp_op :: dart_string
  tp_ref :: dart_string
  tp_progressPercent :: int
  tp_bytesTransferred :: int
  tp_bytesTotal :: int
  tp_status :: dart_string

definition decodeRemoteType :: "int \<Rightarrow> RemoteType" where
  "decodeRemoteType v =
     (if v = 1 then RemoteType_system else if v = 2 then RemoteType_static else RemoteType_user)"

section \<open>The decoders\<close>

definition read_ref :: "DartRef decoder" where
  "read_ref =
     dthen readString (\<lambda>kind. dthen readString (\<lambda>name. dthen readString (\<lambda>arch.
     dthen readString (\<lambda>branch. dthen readString (\<lambda>commit. dthen readString (\<lambda>collectionId.
     dreturn \<lparr>fr_kind = kind, fr_name = name, fr_arch = arch, fr_branch = branch,
       fr_commit = commit, fr_collectionId = collectionId\<rparr>))))))"

definition decodeFlatpakRef :: "byte list \<Rightarrow> nat \<Rightarrow> dart_error + DartRef" where
  "decodeFlatpakRef = decoded read_ref"

definition read_application :: "FlatpakApplication decoder" where
  "read_application =
     dthen read_ref (\<lambda>ref.
     dthen readString (\<lambda>origin. dthen readString (\<lambda>latestCommit. dthen readString (\<lambda>installedPath.
     dthen readUint64 (\<lambda>installedSize. dthen readBool (\<lambda>isCurrentArch. dthen readBool (\<lambda>endOfLife.
     dthen readString (\<lambda>endOfLifeRebase. dthen readString (\<lambda>appDataName.
     dthen readString (\<lambda>appDataSummary. dthen readString (\<lambda>appDataVersion.
     dthen readString (\<lambda>appDataIcon.
     dreturn \<lparr>fa_ref = ref, fa_origin = origin, fa_latestCommit = latestCommit,
       fa_installedPath = installedPath, fa_installedSize = installedSize,
       fa_isCurrentArch = isCurrentArch, fa_endOfLife = endOfLife,
       fa_endOfLifeRebase = endOfLifeRebase, fa_appDataName = appDataName,
       fa_appDataSummary = appDataSummary, fa_appDataVersion = appDataVersion,
       fa_appDataIcon = appDataIcon\<rparr>))))))))))))"

definition decodeInstalledApp :: "byte list \<Rightarrow> nat \<Rightarrow> dart_error + FlatpakApplication" where
  "decodeInstalledApp = decoded read_application"

definition decodeInstance :: "byte list \<Rightarrow> nat \<Rightarrow> dart_error + DartInstance" where
  "decodeInstance = decoded (
     dthen readString (\<lambda>appId. dthen readString (\<lambda>instanceId. dthen readString (\<lambda>arch.
     dthen readString (\<lambda>branch. dthen readString (\<lambda>commit. dthen readString (\<lambda>runtime.
     dthen readInt32 (\<lambda>pid. dthen readInt32 (\<lambda>childPid. dthen readBool (\<lambda>isRunning.
     dreturn \<lparr>di_appId = appId, di_instanceId = instanceId, di_arch = arch, di_branch = branch,
       di_commit = commit, di_runtime = runtime, di_pid = pid, di_childPid = childPid,
       di_isRunning = isRunning\<rparr>))))))))))"

definition decodeInstallationInfo :: "byte list \<Rightarrow> nat \<Rightarrow> dart_error + DartInstallationInfo" where
  "decodeInstallationInfo = decoded (
     dthen readString (\<lambda>ident. dthen readString (\<lambda>displayName. dthen readString (\<lambda>path.
     dthen readBool (\<lambda>isUser. dthen readInt32 (\<lambda>priority.
     dreturn \<lparr>dn_id = ident, dn_displayName = displayName, dn_path = path, dn_isUser = isUser,
       dn_priority = priority\<rparr>))))))"

definition read_entry :: "MetadataEntry decoder" where
  "read_entry =
     dthen readString (\<lambda>section. dthen readString (\<lambda>key. dthen readString (\<lambda>val.
     dreturn \<lparr>me_section = section, me_key = key, me_value = val\<rparr>)))"

definition decodeMetadataEntry :: "byte list \<Rightarrow> nat \<Rightarrow> dart_error + MetadataEntry" where
  "decodeMetadataEntry = decoded read_entry"

definition decodeFlatpakRemote :: "byte list \<Rightarrow> nat \<Rightarrow> dart_error + DartRemote" where
  "decodeFlatpakRemote = decoded (
     dthen readString (\<lambda>name. dthen readString (\<lambda>url. dthen readString (\<lambda>title.
     dthen readString (\<lambda>comment. dthen readString (\<lambda>description. dthen readString (\<lambda>homepage.
     dthen readString (\<lambda>defaultBranch. dthen readString (\<lambda>subset. dthen readString (\<lambda>collectionId.
     dthen readString (\<lambda>filt. dthen readInt32 (\<lambda>remoteType. dthen readBool (\<lambda>disabled.
     dthen readBool (\<lambda>gpgVerify. dthen readBool (\<lambda>noDeps. dthen readInt32 (\<lambda>priority.
     dreturn \<lparr>dr_name = name, dr_url = url, dr_title = title, dr_comment = comment,
       dr_description = description, dr_homepage = homepage, dr_defaultBranch = defaultBranch,
       dr_subset = fromApiValue subset, dr_collectionId = collectionId, dr_filter = filt,
       dr_remoteType = decodeRemoteType remoteType, dr_disabled = disabled,
       dr_gpgVerify = gpgVerify, dr_noDeps = noDeps, dr_priority = priority\<rparr>))))))))))))))))"

definition decodeTransactionProgress :: "byte list \<Rightarrow> nat \<Rightarrow> dart_error + TransactionProgressData" where
  "decodeTransactionProgress = decoded (
     dthen readString (\<lambda>opr. dthen readString (\<lambda>ref. dthen readUint32 (\<lambda>progressPercent.
     dthen readUint64 (\<lambda>bytesTransferred. dthen readUint64 (\<lambda>bytesTotal. dthen readString (\<lambda>status.
     dreturn \<lparr>tp_op = opr, tp_ref = ref, tp_progressPercent = progressPercent,
       tp_bytesTransferred = bytesTransferred, tp_bytesTotal = bytesTotal, tp_status = status\<rparr>)))))))"

fun read_entries :: "nat \<Rightarrow> MetadataEntry list decoder" where
  "read_entries 0 = dreturn []"
| "read_entries (Suc n) = dthen read_entry (\<lambda>e. dthen (read_entries n) (\<lambda>es. dreturn (e # es)))"

definition decodeRemoteMetadata :: "byte list \<Rightarrow> nat \<Rightarrow> dart_error + MetadataEntry list" where
  "decodeRemoteMetadata = decoded (dthen readUint64 (\<lambda>count. read_entries (nat count)))"

text \<open>\<open>GlazeCodec.decodeError\<close>: 32-bit length, then the text.\<close>

definition decode_error :: "byte list \<Rightarrow> nat \<Rightarrow> dart_error + dart_string" where
  "decode_error data offset =
     (if length data < offset + 4 then Inr (ascii ''unknown error'')
      else let len = unat (le_word (take 4 (drop offset data)) :: u32);
               start = offset + 4
           in if length data < start + len then Inr (ascii ''truncated error'')
              else case utf8_decode (take len (drop start data)) of
                     None \<Rightarrow> Inl FormatException
                   | Some s \<Rightarrow> Inr s)"

section \<open>What a decoder makes of an encoding\<close>

text \<open>
  \<open>yields m bs r\<close>: wherever \<open>bs\<close> stands in a buffer, \<open>m\<close> started there reads exactly \<open>bs\<close> and
  gives \<open>r\<close>, or throws a \<open>FormatException\<close> when \<open>r\<close> is \<open>None\<close>. Encodings that do not fit a
  64-bit length are left out: no buffer holds them.
\<close>

definition yields :: "'a decoder \<Rightarrow> byte list \<Rightarrow> 'a option \<Rightarrow> bool" where
  "yields m bs r \<longleftrightarrow> length bs < 2 ^ 63 \<longrightarrow>
     (\<forall>before after. m (before @ bs @ after) (length before) =
        (case r of None \<Rightarrow> Inl FormatException | Some x \<Rightarrow> Inr (x, length before + length bs)))"

lemma yields_return [intro]: "r = Some x \<Longrightarrow> yields (dreturn x) [] r"
  by (simp add: yields_def dreturn_def)

lemma yields_then [intro]:
  assumes "yields m bs r" "\<And>x. r = Some x \<Longrightarrow> yields (k x) cs (f x)"
  shows "yields (dthen m k) (bs @ cs) (Option.bind r f)"
  unfolding yields_def
proof (intro impI allI)
  fix before after :: "byte list"
  assume len: "length (bs @ cs) < 2 ^ 63"
  then have m: "m (before @ bs @ cs @ after) (length before) =
      (case r of None \<Rightarrow> Inl FormatException | Some x \<Rightarrow> Inr (x, length before + length bs))"
    using assms(1) by (simp add: yields_def)
  show "dthen m k (before @ (bs @ cs) @ after) (length before) =
      (case Option.bind r f of None \<Rightarrow> Inl FormatException
       | Some x \<Rightarrow> Inr (x, length before + length (bs @ cs)))"
  proof (cases r)
    case None
    with m show ?thesis by (simp add: dthen_def)
  next
    case (Some x)
    with assms(2) len have "k x ((before @ bs) @ cs @ after) (length (before @ bs)) =
        (case f x of None \<Rightarrow> Inl FormatException | Some y \<Rightarrow> Inr (y, length (before @ bs) + length cs))"
      unfolding yields_def by fastforce
    with m Some show ?thesis by (cases "f x") (simp_all add: dthen_def)
  qed
qed

lemma yields_decoded:
  "yields m bs r \<Longrightarrow> length bs < 2 ^ 63 \<Longrightarrow>
     decoded m (before @ bs @ after) (length before) =
       (case r of None \<Rightarrow> Inl FormatException | Some x \<Rightarrow> Inr x)"
  by (cases r) (simp_all add: yields_def decoded_def)

lemma yields_view: "n = int (length bs) \<Longrightarrow> yields (view n) bs (Some bs)"
  by (simp add: yields_def view_def)

text \<open>The text of a C string, when it is well formed.\<close>

definition dart_text :: "string \<Rightarrow> dart_string option" where
  "dart_text s = utf8_decode (bytes_of s)"

lemma yields_arith:
  "yields readUint64 (le_bytes 8 (v64 :: u64)) (Some (sint v64))"
  "yields readUint32 (le_bytes 4 (v32 :: u32)) (Some (uint v32))"
  "yields readInt32 (le_bytes 4 v32) (Some (sint v32))"
  "yields readBool [if b then 1 else 0] (Some b)"
proof -
  have view: "yields (dthen (view n) (\<lambda>bs. dreturn (f bs))) bs (Some (f bs))" if "n = int (length bs)"
    for n bs and f :: "byte list \<Rightarrow> 'b"
    using yields_then [OF yields_view [OF that], of "\<lambda>bs. dreturn (f bs)" "[]" "\<lambda>bs. Some (f bs)"]
    by (simp add: yields_return)
  show "yields readUint64 (le_bytes 8 (v64 :: u64)) (Some (sint v64))"
    using view [of 8 "le_bytes 8 v64" "\<lambda>bs. sint (le_word bs :: u64)"] by (simp add: readUint64_def)
  show "yields readUint32 (le_bytes 4 (v32 :: u32)) (Some (uint v32))"
    using view [of 4 "le_bytes 4 v32" "\<lambda>bs. uint (le_word bs :: u32)"] by (simp add: readUint32_def)
  show "yields readInt32 (le_bytes 4 v32) (Some (sint v32))"
    using view [of 4 "le_bytes 4 v32" "\<lambda>bs. sint (le_word bs :: i32)"] by (simp add: readInt32_def)
  show "yields readBool [if b then 1 else 0] (Some b)"
    using view [of 1 "[if b then 1 else 0]" "\<lambda>bs. (le_word bs :: byte) \<noteq> 0"]
    by (cases b) (simp_all add: readBool_def)
qed

lemma sint_of_nat_length: "n < 2 ^ 63 \<Longrightarrow> sint (of_nat n :: u64) = int n"
  by (simp add: signed_of_nat signed_take_bit_int_eq_self)

lemma yields_string: "yields readString (enc_string s) (dart_text s)"
proof (cases "length s < 2 ^ 63")
  case True
  have "yields (decode_text (bytes_of s)) [] (dart_text s)"
    by (simp add: yields_def decode_text_def dart_text_def split: option.splits)
  then have body: "yields (dthen (view (int (length s))) decode_text) (bytes_of s @ [])
      (Option.bind (Some (bytes_of s)) (\<lambda>_. dart_text s))"
    by (intro yields_then yields_view) auto
  have "yields readString (le_bytes 8 (of_nat (length s) :: u64) @ bytes_of s)
      (Option.bind (Some (sint (of_nat (length s) :: u64))) (\<lambda>_. dart_text s))"
    unfolding readString_def
    by (rule yields_then [OF yields_arith(1)]) (use body sint_of_nat_length [OF True] in auto)
  then show ?thesis by (simp add: enc_string_def)
next
  case False
  then show ?thesis by (simp add: yields_def enc_string_def)
qed

text \<open>The Dart object of a native struct.\<close>

definition dart_ref :: "FpRef \<Rightarrow> DartRef option" where
  "dart_ref x = do {
     kind \<leftarrow> dart_text (r_kind x); name \<leftarrow> dart_text (r_name x); arch \<leftarrow> dart_text (r_arch x);
     branch \<leftarrow> dart_text (r_branch x); commit \<leftarrow> dart_text (r_commit x);
     collectionId \<leftarrow> dart_text (r_collectionId x);
     Some \<lparr>fr_kind = kind, fr_name = name, fr_arch = arch, fr_branch = branch,
       fr_commit = commit, fr_collectionId = collectionId\<rparr> }"

definition dart_application :: "InstalledApp \<Rightarrow> FlatpakApplication option" where
  "dart_application x = do {
     ref \<leftarrow> dart_ref (a_ref x); origin \<leftarrow> dart_text (a_origin x);
     latestCommit \<leftarrow> dart_text (a_latestCommit x); installedPath \<leftarrow> dart_text (a_installedPath x);
     endOfLifeRebase \<leftarrow> dart_text (a_endOfLifeRebase x); appDataName \<leftarrow> dart_text (a_appDataName x);
     appDataSummary \<leftarrow> dart_text (a_appDataSummary x); appDataVersion \<leftarrow> dart_text (a_appDataVersion x);
     appDataIcon \<leftarrow> dart_text (a_appDataIcon x);
     Some \<lparr>fa_ref = ref, fa_origin = origin, fa_latestCommit = latestCommit,
       fa_installedPath = installedPath, fa_installedSize = sint (a_installedSize x),
       fa_isCurrentArch = a_isCurrentArch x, fa_endOfLife = a_endOfLife x,
       fa_endOfLifeRebase = endOfLifeRebase, fa_appDataName = appDataName,
       fa_appDataSummary = appDataSummary, fa_appDataVersion = appDataVersion,
       fa_appDataIcon = appDataIcon\<rparr> }"

definition dart_entry :: "FpMetadataEntry \<Rightarrow> MetadataEntry option" where
  "dart_entry x = do {
     section \<leftarrow> dart_text (e_section x); key \<leftarrow> dart_text (e_key x); val \<leftarrow> dart_text (e_value x);
     Some \<lparr>me_section = section, me_key = key, me_value = val\<rparr> }"

definition dart_instance :: "FpInstance \<Rightarrow> DartInstance option" where
  "dart_instance x = do {
     appId \<leftarrow> dart_text (i_appId x); instanceId \<leftarrow> dart_text (i_instanceId x);
     arch \<leftarrow> dart_text (i_arch x); branch \<leftarrow> dart_text (i_branch x); commit \<leftarrow> dart_text (i_commit x);
     runtime \<leftarrow> dart_text (i_runtime x);
     Some \<lparr>di_appId = appId, di_instanceId = instanceId, di_arch = arch, di_branch = branch,
       di_commit = commit, di_runtime = runtime, di_pid = sint (i_pid x),
       di_childPid = sint (i_childPid x), di_isRunning = i_isRunning x\<rparr> }"

definition dart_installation_info :: "FpInstallationInfo \<Rightarrow> DartInstallationInfo option" where
  "dart_installation_info x = do {
     ident \<leftarrow> dart_text (n_id x); displayName \<leftarrow> dart_text (n_displayName x); path \<leftarrow> dart_text (n_path x);
     Some \<lparr>dn_id = ident, dn_displayName = displayName, dn_path = path, dn_isUser = n_isUser x,
       dn_priority = sint (n_priority x)\<rparr> }"

definition dart_remote :: "FlatpakRemoteInfo \<Rightarrow> DartRemote option" where
  "dart_remote x = do {
     name \<leftarrow> dart_text (m_name x); url \<leftarrow> dart_text (m_url x); title \<leftarrow> dart_text (m_title x);
     comment \<leftarrow> dart_text (m_comment x); description \<leftarrow> dart_text (m_description x);
     homepage \<leftarrow> dart_text (m_homepage x); defaultBranch \<leftarrow> dart_text (m_defaultBranch x);
     subset \<leftarrow> dart_text (m_subset x); collectionId \<leftarrow> dart_text (m_collectionId x);
     filt \<leftarrow> dart_text (m_filter x);
     Some \<lparr>dr_name = name, dr_url = url, dr_title = title, dr_comment = comment,
       dr_description = description, dr_homepage = homepage, dr_defaultBranch = defaultBranch,
       dr_subset = fromApiValue subset, dr_collectionId = collectionId, dr_filter = filt,
       dr_remoteType = decodeRemoteType (sint (m_remoteType x)), dr_disabled = m_disabled x,
       dr_gpgVerify = m_gpgVerify x, dr_noDeps = m_noDeps x, dr_priority = sint (m_priority x)\<rparr> }"

definition dart_progress :: "TransactionProgress \<Rightarrow> TransactionProgressData option" where
  "dart_progress x = do {
     opr \<leftarrow> dart_text (t_op x); ref \<leftarrow> dart_text (t_ref x); status \<leftarrow> dart_text (t_status x);
     Some \<lparr>tp_op = opr, tp_ref = ref, tp_progressPercent = uint (t_progress x),
       tp_bytesTransferred = sint (t_bytesTransferred x), tp_bytesTotal = sint (t_bytesTotal x),
       tp_status = status\<rparr> }"

text \<open>
  Every decoder, followed along the fields of the encoding it reads: the decoder of the next
  field decides the rule.
\<close>

lemma yields_string_then:
  "(\<And>x. yields (k x) cs (f x)) \<Longrightarrow>
     yields (dthen readString k) (enc_string s @ cs) (Option.bind (dart_text s) f)"
  by (rule yields_then [OF yields_string])

lemma yields_const:
  assumes "yields m bs (Some x)" "yields (k x) cs r"
  shows "yields (dthen m k) (bs @ cs) r"
  using yields_then [OF assms(1), of k cs "\<lambda>_. r"] assms(2) by simp

lemmas follow_fields = enc_value.simps enc_field.simps enc_arith.simps list.map concat.simps append_assoc

lemmas yields_fields = yields_string_then yields_arith [THEN yields_const] yields_return [OF refl]

lemma yields_ref: "yields read_ref (enc_value (FpRef_val x)) (dart_ref x)"
  unfolding read_ref_def dart_ref_def FpRef_val_def follow_fields by (intro yields_fields)

lemma yields_application: "yields read_application (enc_value (InstalledApp_val x)) (dart_application x)"
  unfolding read_application_def dart_application_def InstalledApp_val_def follow_fields
  by (intro yields_then [OF yields_ref] yields_fields)

lemma yields_entry: "yields read_entry (enc_value (FpMetadataEntry_val x)) (dart_entry x)"
  unfolding read_entry_def dart_entry_def FpMetadataEntry_val_def follow_fields by (intro yields_fields)

lemma yields_entries:
  "yields (read_entries (length es)) (concat (map enc_value (map FpMetadataEntry_val es)))
     (those (map dart_entry es))"
proof (induction es)
  case (Cons e es)
  have "yields (dthen read_entry (\<lambda>e. dthen (read_entries (length es)) (\<lambda>es. dreturn (e # es))))
      (enc_value (FpMetadataEntry_val e) @ concat (map enc_value (map FpMetadataEntry_val es)) @ [])
      (Option.bind (dart_entry e) (\<lambda>x. Option.bind (those (map dart_entry es)) (\<lambda>xs. Some (x # xs))))"
    by (intro yields_then [OF yields_entry] yields_then [OF Cons.IH] yields_return refl)
  moreover have "Option.bind (dart_entry e) (\<lambda>x. Option.bind (those (map dart_entry es)) (\<lambda>xs. Some (x # xs))) =
      those (map dart_entry (e # es))"
    by (cases "dart_entry e"; cases "those (map dart_entry es)") simp_all
  ultimately show ?case by simp
qed (simp add: yields_return)

text \<open>The value of a decoder at offset 1 of a frame.\<close>

definition dart_result :: "'a option \<Rightarrow> dart_error + 'a" where
  "dart_result r = (case r of None \<Rightarrow> Inl FormatException | Some x \<Rightarrow> Inr x)"

lemma decoded_frame:
  "yields m bs r \<Longrightarrow> length bs < 2 ^ 63 \<Longrightarrow> decoded m (d # bs) 1 = dart_result r"
  using yields_decoded [of m bs r "[d]" "[]"] by (simp add: dart_result_def)

lemma length_le_concat: "(\<And>x. f x \<noteq> []) \<Longrightarrow> length xs \<le> length (concat (map f xs))"
proof (induction xs)
  case (Cons x xs)
  obtain y ys where "f x = y # ys" using Cons.prems [of x] by (cases "f x") auto
  moreover have "length xs \<le> length (concat (map f xs))" using Cons by blast
  ultimately show ?case by simp
qed simp

lemma decode_entries_frame:
  assumes "length (enc_value (entries_val es)) < 2 ^ 63"
  shows "decodeRemoteMetadata (d # enc_value (entries_val es)) 1 = dart_result (those (map dart_entry es))"
proof -
  have "enc_value (FpMetadataEntry_val e) \<noteq> []" for e
    by (simp add: FpMetadataEntry_val_def enc_string_def)
  then have "length es \<le> length (concat (map (\<lambda>e. enc_value (FpMetadataEntry_val e)) es))"
    by (rule length_le_concat)
  with assms have "length es < 2 ^ 63" by (simp add: entries_val_def comp_def)
  then have "yields (dthen readUint64 (\<lambda>count. read_entries (nat count)))
      (le_bytes 8 (of_nat (length es) :: u64) @ concat (map enc_value (map FpMetadataEntry_val es)))
      (those (map dart_entry es))"
    using yields_entries sint_of_nat_length [of "length es"]
    by (intro yields_const [OF yields_arith(1)]) simp
  from decoded_frame [OF this] assms show ?thesis
    by (simp add: decodeRemoteMetadata_def entries_val_def)
qed

text \<open>Each payload the bridge sends, decoded at offset 1.\<close>

lemma decode_ref_frame:
  "length (enc_value (FpRef_val x)) < 2 ^ 63 \<Longrightarrow>
     decodeFlatpakRef (d # enc_value (FpRef_val x)) 1 = dart_result (dart_ref x)"
  unfolding decodeFlatpakRef_def by (rule decoded_frame [OF yields_ref])

lemma decode_application_frame:
  "length (enc_value (InstalledApp_val x)) < 2 ^ 63 \<Longrightarrow>
     decodeInstalledApp (d # enc_value (InstalledApp_val x)) 1 = dart_result (dart_application x)"
  unfolding decodeInstalledApp_def by (rule decoded_frame [OF yields_application])

lemma decode_entry_frame:
  "length (enc_value (FpMetadataEntry_val x)) < 2 ^ 63 \<Longrightarrow>
     decodeMetadataEntry (d # enc_value (FpMetadataEntry_val x)) 1 = dart_result (dart_entry x)"
  unfolding decodeMetadataEntry_def by (rule decoded_frame [OF yields_entry])

lemma decode_instance_frame:
  "length (enc_value (FpInstance_val x)) < 2 ^ 63 \<Longrightarrow>
     decodeInstance (d # enc_value (FpInstance_val x)) 1 = dart_result (dart_instance x)"
  unfolding decodeInstance_def
  by (rule decoded_frame) (unfold FpInstance_val_def dart_instance_def follow_fields, intro yields_fields)

lemma decode_installation_info_frame:
  "length (enc_value (FpInstallationInfo_val x)) < 2 ^ 63 \<Longrightarrow>
     decodeInstallationInfo (d # enc_value (FpInstallationInfo_val x)) 1 =
     dart_result (dart_installation_info x)"
  unfolding decodeInstallationInfo_def
  by (rule decoded_frame)
    (unfold FpInstallationInfo_val_def dart_installation_info_def follow_fields, intro yields_fields)

lemma decode_remote_frame:
  "length (enc_value (FlatpakRemoteInfo_val x)) < 2 ^ 63 \<Longrightarrow>
     decodeFlatpakRemote (d # enc_value (FlatpakRemoteInfo_val x)) 1 = dart_result (dart_remote x)"
  unfolding decodeFlatpakRemote_def
  by (rule decoded_frame) (unfold FlatpakRemoteInfo_val_def dart_remote_def follow_fields, intro yields_fields)

lemma decode_progress_frame:
  "length (enc_value (TransactionProgress_val x)) < 2 ^ 63 \<Longrightarrow>
     decodeTransactionProgress (d # enc_value (TransactionProgress_val x)) 1 = dart_result (dart_progress x)"
  unfolding decodeTransactionProgress_def
  by (rule decoded_frame) (unfold TransactionProgress_val_def dart_progress_def follow_fields, intro yields_fields)

lemmas decode_frames = decode_ref_frame decode_application_frame decode_entry_frame
  decode_instance_frame decode_installation_info_frame decode_remote_frame decode_progress_frame
  decode_entries_frame

text \<open>An error text decodes to the text that crossed the frame.\<close>

lemma decode_error_frame:
  "decode_error (post_bytes (post_framed_error p d msg)) 1 = dart_result (dart_text (wire_msg msg))"
proof -
  let ?n = "length (c_str msg)"
  have "unat (of_nat ?n :: u32) = ?n mod 2 ^ 32" by (simp add: unat_of_nat take_bit_eq_mod)
  moreover have "length (wire_msg msg) = ?n mod 2 ^ 32" by (simp add: wire_msg_def min_absorb2)
  ultimately show ?thesis
    by (simp add: decode_error_def post_bytes_framed_error Let_def dart_result_def dart_text_def
        split: option.splits)
qed

section \<open>The encoder\<close>

definition writeString :: "dart_string \<Rightarrow> byte list \<Rightarrow> byte list" where
  "writeString s buf =
     (let bytes = utf8_encode s in buf @ le_bytes 8 (of_nat (length bytes) :: u64) @ bytes)"

definition writeInt32 :: "int \<Rightarrow> byte list \<Rightarrow> byte list" where
  "writeInt32 v buf = buf @ le_bytes 4 (word_of_int v :: i32)"

definition writeInt8 :: "int \<Rightarrow> byte list \<Rightarrow> byte list" where
  "writeInt8 v buf = buf @ [word_of_int (v AND 0xFF)]"

definition writeByteVector :: "byte list \<Rightarrow> byte list \<Rightarrow> byte list" where
  "writeByteVector bytes buf = buf @ le_bytes 8 (of_nat (length bytes) :: u64) @ bytes"

record FlatpakRemoteConfig =
  rc_url :: "dart_string option"
  rc_title :: "dart_string option"
  rc_comment :: "dart_string option"
  rc_homepage :: "dart_string option"
  rc_defaultBranch :: "dart_string option"
  rc_gpgKeyPath :: "dart_string option"
  rc_gpgKeyData :: "byte list option"
  rc_subset :: "RemoteSubset option"
  rc_collectionId :: "dart_string option"
  rc_filter :: "dart_string option"
  rc_priority :: "int option"
  rc_gpgVerify :: "bool option"
  rc_disabled :: "bool option"
  rc_noDeps :: "bool option"

definition or_empty :: "'a list option \<Rightarrow> 'a list" where
  "or_empty x = (case x of None \<Rightarrow> [] | Some s \<Rightarrow> s)"

definition tristate :: "bool option \<Rightarrow> int" where
  "tristate x = (case x of None \<Rightarrow> -1 | Some b \<Rightarrow> if b then 1 else 0)"

definition encodeRemoteConfig :: "FlatpakRemoteConfig \<Rightarrow> byte list" where
  "encodeRemoteConfig config =
     (let w = [];
          w = writeString (or_empty (rc_url config)) w;
          w = writeString (or_empty (rc_title config)) w;
          w = writeString (or_empty (rc_comment config)) w;
          w = writeString (or_empty (rc_homepage config)) w;
          w = writeString (or_empty (rc_defaultBranch config)) w;
          w = writeByteVector (or_empty (rc_gpgKeyData config)) w;
          w = writeString (case rc_subset config of None \<Rightarrow> [] | Some x \<Rightarrow> apiValue x) w;
          w = writeString (or_empty (rc_collectionId config)) w;
          w = writeString (or_empty (rc_filter config)) w;
          w = writeInt32 (case rc_priority config of None \<Rightarrow> -1 | Some n \<Rightarrow> n) w;
          w = writeInt8 (tristate (rc_gpgVerify config)) w;
          w = writeInt8 (tristate (rc_disabled config)) w;
          w = writeInt8 (tristate (rc_noDeps config)) w
      in w)"

text \<open>The configuration the native side makes of it.\<close>

definition native_text :: "dart_string option \<Rightarrow> string" where
  "native_text x = string_of (utf8_encode (or_empty x))"

definition native_config :: "FlatpakRemoteConfig \<Rightarrow> RemoteConfig" where
  "native_config c =
     \<lparr>c_url = native_text (rc_url c), c_title = native_text (rc_title c),
      c_comment = native_text (rc_comment c), c_homepage = native_text (rc_homepage c),
      c_defaultBranch = native_text (rc_defaultBranch c), c_gpgKeyData = or_empty (rc_gpgKeyData c),
      c_subset = native_text (map_option apiValue (rc_subset c)),
      c_collectionId = native_text (rc_collectionId c), c_filter = native_text (rc_filter c),
      c_priority = word_of_int (case rc_priority c of None \<Rightarrow> -1 | Some n \<Rightarrow> n),
      c_gpgVerify = word_of_int (tristate (rc_gpgVerify c)),
      c_disabled = word_of_int (tristate (rc_disabled c)),
      c_noDeps = word_of_int (tristate (rc_noDeps c))\<rparr>"

lemma writeString_enc: "writeString s buf = buf @ enc_string (string_of (utf8_encode s))"
  by (simp add: writeString_def enc_string_def Let_def)

lemma writeInt8_enc: "writeInt8 (tristate x) buf = buf @ enc_arith (V8 (word_of_int (tristate x)))"
  by (cases x) (auto simp: writeInt8_def tristate_def)

lemma enc_byte_vector:
  "concat (map enc_value (map (\<lambda>b. VArith (V8 b)) bs)) = bs"
  by (induction bs) simp_all

lemma encodeRemoteConfig_wire: "encodeRemoteConfig c = write_binary (RemoteConfig_val (native_config c))"
proof -
  have "encodeRemoteConfig c = enc_value (RemoteConfig_val (native_config c))"
    unfolding encodeRemoteConfig_def Let_def writeString_enc writeInt8_enc
    by (cases "rc_subset c")
      (simp_all add: RemoteConfig_val_def native_config_def native_text_def writeByteVector_def
        writeInt32_def enc_byte_vector [simplified] or_empty_def comp_def)
  then show ?thesis by (simp add: wire_simps)
qed

section \<open>Properties\<close>

text \<open>
  C10. The two ends of the wire agree on every payload the bridge sends: decoding the bytes the
  native writer made of a struct, after the frame's first byte, gives the Dart object with the
  same members, the texts decoded from UTF-8, 64-bit sizes read as signed, 32-bit numbers with
  the sign the Dart type has, and the remote's subset and type as enum values. When a text is
  not UTF-8 the decoder throws a FormatException; it never reads out of range.
\<close>

theorem dart_decodes_native_structs:
  "(\<forall>x. length (write_binary (FpRef_val x)) < 2 ^ 63 \<longrightarrow>
      decodeFlatpakRef (d # write_binary (FpRef_val x)) 1 = dart_result (dart_ref x)) \<and>
   (\<forall>x. length (write_binary (InstalledApp_val x)) < 2 ^ 63 \<longrightarrow>
      decodeInstalledApp (d # write_binary (InstalledApp_val x)) 1 = dart_result (dart_application x)) \<and>
   (\<forall>x. length (write_binary (FlatpakRemoteInfo_val x)) < 2 ^ 63 \<longrightarrow>
      decodeFlatpakRemote (d # write_binary (FlatpakRemoteInfo_val x)) 1 = dart_result (dart_remote x)) \<and>
   (\<forall>x. length (write_binary (TransactionProgress_val x)) < 2 ^ 63 \<longrightarrow>
      decodeTransactionProgress (d # write_binary (TransactionProgress_val x)) 1 =
      dart_result (dart_progress x)) \<and>
   (\<forall>x. length (write_binary (FpInstance_val x)) < 2 ^ 63 \<longrightarrow>
      decodeInstance (d # write_binary (FpInstance_val x)) 1 = dart_result (dart_instance x)) \<and>
   (\<forall>x. length (write_binary (FpInstallationInfo_val x)) < 2 ^ 63 \<longrightarrow>
      decodeInstallationInfo (d # write_binary (FpInstallationInfo_val x)) 1 =
      dart_result (dart_installation_info x)) \<and>
   (\<forall>x. length (write_binary (FpMetadataEntry_val x)) < 2 ^ 63 \<longrightarrow>
      decodeMetadataEntry (d # write_binary (FpMetadataEntry_val x)) 1 = dart_result (dart_entry x)) \<and>
   (\<forall>es. length (write_binary (entries_val es)) < 2 ^ 63 \<longrightarrow>
      decodeRemoteMetadata (d # write_binary (entries_val es)) 1 =
      dart_result (those (map dart_entry es)))"
  by (intro conjI allI impI; simp only: write_binary_enc decode_frames)

theorem dart_decodes_native_structs_witness:
  "decodeFlatpakRef (0x01 # write_binary (FpRef_val example_ref)) 1 =
     Inr \<lparr>fr_kind = ascii ''app'', fr_name = ascii ''org.x.Y'', fr_arch = ascii ''x86_64'',
       fr_branch = ascii ''stable'', fr_commit = [], fr_collectionId = []\<rparr> \<and>
   decodeMetadataEntry (0x01 # write_binary (FpMetadataEntry_val
     \<lparr>e_section = ''Context'', e_key = [char_of_byte 0xC3], e_value = ''''\<rparr>)) 1 = Inl FormatException"
proof -
  have "length (write_binary (FpRef_val example_ref)) < 2 ^ 63"
    "length (write_binary (FpMetadataEntry_val
      \<lparr>e_section = ''Context'', e_key = [char_of_byte 0xC3], e_value = ''''\<rparr>)) < 2 ^ 63"
    by (simp_all add: wire_simps FpRef_val_def FpMetadataEntry_val_def example_ref_def enc_string_def)
  moreover have "dart_ref example_ref =
      Some \<lparr>fr_kind = ascii ''app'', fr_name = ascii ''org.x.Y'', fr_arch = ascii ''x86_64'',
        fr_branch = ascii ''stable'', fr_commit = [], fr_collectionId = []\<rparr>"
    by (simp add: dart_ref_def example_ref_def dart_text_def utf8_decode_ascii ascii_def)
  moreover have "dart_entry \<lparr>e_section = ''Context'', e_key = [char_of_byte 0xC3], e_value = ''''\<rparr> = None"
    by (simp add: dart_entry_def dart_text_def bytes_of_def utf8_decode_def scan_units.simps
        Option.bind_eq_None_conv)
  ultimately show ?thesis
    using dart_decodes_native_structs [of "0x01"] by (simp add: dart_result_def)
qed

end
