(* ===== verification/Dart_Client.thy ===== *)
theory Dart_Client
  imports Dart_Codec Transaction_Bridge
begin

text \<open>
  The receiving side of lib/src/installation.dart, lib/src/transaction.dart and
  lib/src/remote_manager.dart: each operation listens on a port of its own with a handler for
  the frames, and returns the future of a completer. A handler that throws leaves the listener
  as it was; the exception goes to the zone, and the next frame is handled as before (the
  zone's other choice, ending the isolate, answers nothing at all).
\<close>

section \<open>Listeners\<close>

datatype flatpak_exception =
    FlatpakNotFoundException dart_string | FlatpakRemoteException dart_string
  | FlatpakLaunchException dart_string | FlatpakStopException dart_string
  | FlatpakTransactionException dart_string

datatype 'a future = Pending | Value 'a | Error flatpak_exception

text \<open>
  The variables a handler closes over: its own, the completer, the port, and what it threw.
\<close>

record ('r, 'a) listener =
  ls_local :: 'r
  ls_future :: "'a future"
  ls_open :: bool
  ls_thrown :: "dart_error list"

type_synonym ('r, 'a) handler = "byte list \<Rightarrow> ('r, 'a) listener \<Rightarrow> dart_error + ('r, 'a) listener"

definition listener_new :: "'r \<Rightarrow> ('r, 'a) listener" where
  "listener_new r = \<lparr>ls_local = r, ls_future = Pending, ls_open = True, ls_thrown = []\<rparr>"

text \<open>\<open>if (!completer.isCompleted) completer.complete (...)\<close>, and \<open>port.close ()\<close>.\<close>

definition complete :: "'a future \<Rightarrow> ('r, 'a) listener \<Rightarrow> ('r, 'a) listener" where
  "complete v l = (case ls_future l of Pending \<Rightarrow> l\<lparr>ls_future := v\<rparr> | _ \<Rightarrow> l)"

definition port_close :: "('r, 'a) listener \<Rightarrow> ('r, 'a) listener" where
  "port_close l = l\<lparr>ls_open := False\<rparr>"

definition deliver :: "('r, 'a) handler \<Rightarrow> ('r, 'a) listener \<Rightarrow> byte list \<Rightarrow> ('r, 'a) listener" where
  "deliver h l msg =
     (if \<not> ls_open l then l
      else case h msg l of
          Inl e \<Rightarrow> l\<lparr>ls_thrown := ls_thrown l @ [e]\<rparr>
        | Inr l' \<Rightarrow> l')"

definition listen :: "('r, 'a) handler \<Rightarrow> ('r, 'a) listener \<Rightarrow> post list \<Rightarrow> ('r, 'a) listener" where
  "listen h l ps = foldl (deliver h) l (map post_bytes ps)"

section \<open>Handlers\<close>

text \<open>The error case of every handler.\<close>

definition fail_with :: "(dart_string \<Rightarrow> flatpak_exception) \<Rightarrow> ('r, 'a) handler" where
  "fail_with mk msg l =
     (case decode_error msg 1 of
        Inl e \<Rightarrow> Inl e
      | Inr err \<Rightarrow> Inr (port_close (complete (Error (mk err)) l)))"

text \<open>Operations that collect items until the sentinel.\<close>

definition collecting ::
    "(byte list \<Rightarrow> nat \<Rightarrow> dart_error + 'a) \<Rightarrow> bool \<Rightarrow> (dart_string \<Rightarrow> flatpak_exception) \<Rightarrow>
     ('a list, 'a list) handler" where
  "collecting decode checks_length mk msg l =
     (case msg of
        [] \<Rightarrow> Inl RangeError
      | d # payload \<Rightarrow>
          if d = 0x01 then
            (if \<not> checks_length \<or> payload \<noteq> []
             then (case decode msg 1 of
                     Inl e \<Rightarrow> Inl e
                   | Inr x \<Rightarrow> Inr (l\<lparr>ls_local := ls_local l @ [x]\<rparr>))
             else Inr l)
          else if d = 0x02 then fail_with mk msg l
          else if d = 0xFF then Inr (port_close (complete (Value (ls_local l)) l))
          else Inr l)"

definition listApplications :: "post list \<Rightarrow> (FlatpakApplication list, FlatpakApplication list) listener" where
  "listApplications = listen (collecting decodeInstalledApp True FlatpakNotFoundException) (listener_new [])"

definition listRemotes :: "post list \<Rightarrow> (DartRemote list, DartRemote list) listener" where
  "listRemotes = listen (collecting decodeFlatpakRemote True FlatpakRemoteException) (listener_new [])"

definition getPermissions :: "post list \<Rightarrow> (MetadataEntry list, MetadataEntry list) listener" where
  "getPermissions = listen (collecting decodeMetadataEntry False FlatpakNotFoundException) (listener_new [])"

definition checkForUpdates :: "post list \<Rightarrow> (DartRef list, DartRef list) listener" where
  "checkForUpdates = listen (collecting decodeFlatpakRef True FlatpakRemoteException) (listener_new [])"

definition listRunning :: "post list \<Rightarrow> (DartInstance list, DartInstance list) listener" where
  "listRunning = listen (collecting decodeInstance True FlatpakNotFoundException) (listener_new [])"

definition getSupportedArches :: "post list \<Rightarrow> (dart_string list, dart_string list) listener" where
  "getSupportedArches = listen (collecting decode_error False FlatpakRemoteException) (listener_new [])"

definition listSystemInstallations ::
    "post list \<Rightarrow> (DartInstallationInfo list, DartInstallationInfo list) listener" where
  "listSystemInstallations =
     listen (collecting decodeInstallationInfo True FlatpakRemoteException) (listener_new [])"

definition listMissingExtensions :: "post list \<Rightarrow> (dart_string list, dart_string list) listener" where
  "listMissingExtensions = listen (collecting decode_error False FlatpakRemoteException) (listener_new [])"

text \<open>
  \<open>listRemoteApps\<close> returns a stream: its events are the local, and its end the future.
\<close>

definition streaming ::
    "(byte list \<Rightarrow> nat \<Rightarrow> dart_error + 'a) \<Rightarrow> (dart_string \<Rightarrow> flatpak_exception) \<Rightarrow>
     ((flatpak_exception + 'a) list, unit) handler" where
  "streaming decode mk msg l =
     (case msg of
        [] \<Rightarrow> Inl RangeError
      | d # payload \<Rightarrow>
          if d = 0x01 then
            (if payload \<noteq> []
             then (case decode msg 1 of
                     Inl e \<Rightarrow> Inl e
                   | Inr x \<Rightarrow> Inr (l\<lparr>ls_local := ls_local l @ [Inr x]\<rparr>))
             else Inr l)
          else if d = 0x02 then
            (case decode_error msg 1 of
               Inl e \<Rightarrow> Inl e
             | Inr err \<Rightarrow> Inr (port_close (complete (Value ()) (l\<lparr>ls_local := ls_local l @ [Inl (mk err)]\<rparr>))))
          else if d = 0xFF then Inr (port_close (complete (Value ()) l))
          else Inr l)"

definition listRemoteApps :: "post list \<Rightarrow> ((flatpak_exception + DartRef) list, unit) listener" where
  "listRemoteApps = listen (streaming decodeFlatpakRef FlatpakNotFoundException) (listener_new [])"

text \<open>Operations with one payload, which completes the future at once.\<close>

definition single ::
    "(byte list \<Rightarrow> nat \<Rightarrow> dart_error + 'a) \<Rightarrow> (dart_string \<Rightarrow> flatpak_exception) \<Rightarrow> (unit, 'a) handler" where
  "single decode mk msg l =
     (case msg of
        [] \<Rightarrow> Inl RangeError
      | d # payload \<Rightarrow>
          if d = 0x01 then
            (if payload \<noteq> [] \<and> (case ls_future l of Pending \<Rightarrow> True | _ \<Rightarrow> False)
             then (case decode msg 1 of Inl e \<Rightarrow> Inl e | Inr x \<Rightarrow> Inr (complete (Value x) l))
             else Inr l)
          else if d = 0x02 then fail_with mk msg l
          else if d = 0xFF then Inr (port_close l)
          else Inr l)"

definition getRemoteInfo :: "post list \<Rightarrow> (unit, DartRemote) listener" where
  "getRemoteInfo = listen (single decodeFlatpakRemote FlatpakNotFoundException) (listener_new ())"

definition getAppInfo :: "post list \<Rightarrow> (unit, FlatpakApplication) listener" where
  "getAppInfo = listen (single decodeInstalledApp FlatpakNotFoundException) (listener_new ())"

definition fetchRemoteMetadata :: "post list \<Rightarrow> (unit, MetadataEntry list) listener" where
  "fetchRemoteMetadata = listen (single decodeRemoteMetadata FlatpakNotFoundException) (listener_new ())"

text \<open>\<open>_readSingleString\<close>: the last text before the sentinel.\<close>

definition single_string :: "(dart_string, dart_string) handler" where
  "single_string msg l =
     (case msg of
        [] \<Rightarrow> Inl RangeError
      | d # payload \<Rightarrow>
          if d = 0x01 then
            (case decode_error msg 1 of Inl e \<Rightarrow> Inl e | Inr s \<Rightarrow> Inr (l\<lparr>ls_local := s\<rparr>))
          else if d = 0x02 then fail_with FlatpakRemoteException msg l
          else if d = 0xFF then Inr (port_close (complete (Value (ls_local l)) l))
          else Inr l)"

definition readSingleString :: "post list \<Rightarrow> (dart_string, dart_string) listener" where
  "readSingleString = listen single_string (listener_new [])"

definition isRefInstalled :: "post list \<Rightarrow> bool future" where
  "isRefInstalled ps =
     (case ls_future (readSingleString ps) of
        Pending \<Rightarrow> Pending | Error e \<Rightarrow> Error e | Value s \<Rightarrow> Value (s = ascii ''1''))"

text \<open>Launching keeps the instance until the sentinel; stopping has no payload.\<close>

definition launching :: "(DartInstance option, DartInstance) handler" where
  "launching msg l =
     (case msg of
        [] \<Rightarrow> Inl RangeError
      | d # payload \<Rightarrow>
          if d = 0x01 then
            (if payload \<noteq> []
             then (case decodeInstance msg 1 of Inl e \<Rightarrow> Inl e | Inr x \<Rightarrow> Inr (l\<lparr>ls_local := Some x\<rparr>))
             else Inr l)
          else if d = 0x02 then fail_with FlatpakNotFoundException msg l
          else if d = 0x03 then fail_with FlatpakLaunchException msg l
          else if d = 0xFF then
            Inr (port_close (complete
              (case ls_local l of
                 Some x \<Rightarrow> Value x
               | None \<Rightarrow> Error (FlatpakLaunchException (ascii ''launch produced no instance''))) l))
          else Inr l)"

definition dart_launch :: "post list \<Rightarrow> (DartInstance option, DartInstance) listener" where
  "dart_launch = listen launching (listener_new None)"

definition stopping :: "(unit, unit) handler" where
  "stopping msg l =
     (case msg of
        [] \<Rightarrow> Inl RangeError
      | d # payload \<Rightarrow>
          if d = 0x02 then fail_with FlatpakNotFoundException msg l
          else if d = 0x03 then fail_with FlatpakStopException msg l
          else if d = 0xFF then Inr (port_close (complete (Value ()) l))
          else Inr l)"

definition dart_stop :: "post list \<Rightarrow> (unit, unit) listener" where
  "dart_stop = listen stopping (listener_new ())"

definition refreshing :: "(unit, unit) handler" where
  "refreshing msg l =
     (case msg of
        [] \<Rightarrow> Inl RangeError
      | d # payload \<Rightarrow>
          if d = 0x02 then fail_with FlatpakRemoteException msg l
          else if d = 0xFF then Inr (port_close (complete (Value ()) l))
          else Inr l)"

definition refreshAppstream :: "post list \<Rightarrow> (unit, unit) listener" where
  "refreshAppstream = listen refreshing (listener_new ())"

text \<open>\<open>_listenForResult\<close> of the remote manager.\<close>

definition result_handler :: "(unit, unit) handler" where
  "result_handler msg l =
     (case msg of
        [] \<Rightarrow> Inl RangeError
      | d # payload \<Rightarrow>
          if d = 0x01 then Inr (port_close (complete (Value ()) l))
          else if d = 0x02 then fail_with FlatpakRemoteException msg l
          else Inr l)"

definition listenForResult :: "post list \<Rightarrow> (unit, unit) listener" where
  "listenForResult = listen result_handler (listener_new ())"

text \<open>
  A transaction: the progress stream, whether its controller is closed, and the result.
\<close>

record progress_stream =
  ps_events :: "(flatpak_exception + TransactionProgressData) list"
  ps_closed :: bool

definition transaction_handler :: "(progress_stream, unit) handler" where
  "transaction_handler msg l =
     (case msg of
        [] \<Rightarrow> Inl RangeError
      | d # payload \<Rightarrow>
          if d = 0x10 then
            (case decodeTransactionProgress msg 1 of
               Inl e \<Rightarrow> Inl e
             | Inr x \<Rightarrow>
                 Inr (if ps_closed (ls_local l) then l
                      else l\<lparr>ls_local := (ls_local l)\<lparr>ps_events := ps_events (ls_local l) @ [Inr x]\<rparr>\<rparr>))
          else if d = 0x01 then
            Inr (port_close (complete (Value ()) (l\<lparr>ls_local := (ls_local l)\<lparr>ps_closed := True\<rparr>\<rparr>)))
          else if d = 0x02 then
            (case decode_error msg 1 of
               Inl e \<Rightarrow> Inl e
             | Inr err \<Rightarrow>
                 Inr (port_close (complete (Error (FlatpakTransactionException err))
                   (l\<lparr>ls_local := (ls_local l)\<lparr>ps_events :=
                        ps_events (ls_local l) @ [Inl (FlatpakTransactionException err)]\<rparr>\<rparr>))))
          else Inr l)"

definition transaction_listener :: "post list \<Rightarrow> (progress_stream, unit) listener" where
  "transaction_listener =
     listen transaction_handler (listener_new \<lparr>ps_events = [], ps_closed = False\<rparr>)"

section \<open>Delivery\<close>

text \<open>Frames are decoded at offset 1, which the lemmas on decoders keep as it is.\<close>

declare One_nat_def [simp del]

lemma listener_simps [simp]:
  "ls_local (complete v l) = ls_local l" "ls_open (complete v l) = ls_open l"
  "ls_thrown (complete v l) = ls_thrown l" "ls_thrown (port_close l) = ls_thrown l"
  "ls_local (port_close l) = ls_local l" "ls_future (port_close l) = ls_future l"
  "\<not> ls_open (port_close l)"
  "ls_future l = Pending \<Longrightarrow> ls_future (complete v l) = v"
  "ls_local (listener_new r) = r" "ls_future (listener_new r) = Pending"
  "ls_open (listener_new r)" "ls_thrown (listener_new r) = []"
  by (simp_all add: complete_def port_close_def listener_new_def split: future.splits)

lemma listen_simps [simp]:
  "listen h l [] = l" "listen h l (x # xs) = listen h (deliver h l (post_bytes x)) xs"
  "listen h l (xs @ ys) = listen h (listen h l xs) ys"
  by (simp_all add: listen_def)

lemma listen_closed: "\<not> ls_open l \<Longrightarrow> listen h l ps = l"
  by (induction ps) (simp_all add: deliver_def)

lemma deliver_open:
  "ls_open l \<Longrightarrow> deliver h l msg =
     (case h msg l of Inl e \<Rightarrow> l\<lparr>ls_thrown := ls_thrown l @ [e]\<rparr> | Inr l' \<Rightarrow> l')"
  by (simp add: deliver_def)

text \<open>The frames a handler meets, by their first byte.\<close>

lemma post_bytes_sentinel [simp]: "post_bytes (post_sentinel p) = [0xFF]"
  by (simp add: post_sentinel_def)

lemma post_bytes_glaze: "post_bytes (post_glaze p d v) = d # write_binary v"
  by (simp add: post_glaze_def post_framed_def)

lemma post_bytes_error:
  "\<exists>payload. payload \<noteq> [] \<and> post_bytes (post_error p msg) = 0x02 # payload"
  "\<exists>payload. payload \<noteq> [] \<and> post_bytes (post_op_error p msg) = 0x03 # payload"
  "\<exists>payload. payload \<noteq> [] \<and> post_bytes (post_string p msg) = 0x01 # payload"
  by (simp_all add: post_error_def post_op_error_def post_string_def post_bytes_framed_error)

lemma decode_error_posts:
  "decode_error (post_bytes (post_error p msg)) 1 = dart_result (dart_text (wire_msg msg))"
  "decode_error (post_bytes (post_op_error p msg)) 1 = dart_result (dart_text (wire_msg msg))"
  "decode_error (post_bytes (post_string p msg)) 1 = dart_result (dart_text (wire_msg msg))"
  by (simp_all add: post_error_def post_op_error_def post_string_def decode_error_frame)

lemma is_item_bytes:
  assumes "is_item p x"
  obtains payload where "post_bytes x = 0x01 # payload"
proof -
  have "take 1 (post_bytes x) = [0x01]" using assms by (simp add: is_item_def)
  then show ?thesis using that by (cases "post_bytes x") (auto simp: One_nat_def)
qed

definition outcomes :: "(byte list \<Rightarrow> nat \<Rightarrow> dart_error + 'a) \<Rightarrow> bool \<Rightarrow> post list \<Rightarrow> (dart_error + 'a) list" where
  "outcomes decode checks_length items =
     map (\<lambda>x. decode (post_bytes x) 1)
       (filter (\<lambda>x. \<not> checks_length \<or> tl (post_bytes x) \<noteq> []) items)"

definition values_of :: "('e + 'a) list \<Rightarrow> 'a list" where
  "values_of rs = concat (map (case_sum (\<lambda>_. []) (\<lambda>x. [x])) rs)"

definition errors_of :: "('e + 'a) list \<Rightarrow> 'e list" where
  "errors_of rs = concat (map (case_sum (\<lambda>e. [e]) (\<lambda>_. [])) rs)"

lemma sum_lists [simp]:
  "values_of [] = []" "values_of (Inl e # rs) = values_of rs" "values_of (Inr x # rs) = x # values_of rs"
  "errors_of [] = []" "errors_of (Inl e # rs) = e # errors_of rs" "errors_of (Inr x # rs) = errors_of rs"
  by (simp_all add: values_of_def errors_of_def)

lemma set_errors_of: "set (errors_of rs) = {e. Inl e \<in> set rs}"
  by (induction rs) (auto simp: errors_of_def split: sum.splits)

lemma dart_result_values:
  "values_of (map (\<lambda>x. dart_result (f x)) xs) = List.map_filter f xs"
  "errors_of (map (\<lambda>x. dart_result (f x)) xs) = replicate (length (filter (\<lambda>x. f x = None) xs)) FormatException"
  by (induction xs) (auto simp: dart_result_def List.map_filter_def split: option.splits)

text \<open>A collecting listener over the items of a stream, and over its end.\<close>

lemma collecting_items:
  assumes "\<forall>x \<in> set items. is_item p x" "ls_open l"
  shows "listen (collecting decode g mk) l items =
    l\<lparr>ls_local := ls_local l @ values_of (outcomes decode g items),
      ls_thrown := ls_thrown l @ errors_of (outcomes decode g items)\<rparr>"
  using assms
proof (induction items arbitrary: l)
  case (Cons x items)
  from Cons.prems(1) obtain payload where x: "post_bytes x = 0x01 # payload"
    by (auto elim: is_item_bytes)
  show ?case
  proof (cases "\<not> g \<or> payload \<noteq> []")
    case True
    then show ?thesis
      using Cons x
      by (cases "decode (1 # payload) 1") (auto simp: deliver_open collecting_def outcomes_def)
  next
    case False
    then show ?thesis using Cons x by (simp add: deliver_open collecting_def outcomes_def)
  qed
qed (simp add: outcomes_def)

lemma collecting_stream:
  assumes "\<forall>x \<in> set items. is_item p x"
  shows "listen (collecting decode g mk) (listener_new []) (items @ [post_sentinel p]) =
    \<lparr>ls_local = values_of (outcomes decode g items), ls_future = Value (values_of (outcomes decode g items)),
     ls_open = False, ls_thrown = errors_of (outcomes decode g items)\<rparr>"
  using assms
  by (simp add: collecting_items deliver_open collecting_def complete_def port_close_def listener_new_def)

text \<open>An error frame to a fresh listener: it settles the future, if its text decodes.\<close>

definition failed_listener :: "(dart_string \<Rightarrow> flatpak_exception) \<Rightarrow> string \<Rightarrow> 'r \<Rightarrow> ('r, 'a) listener" where
  "failed_listener mk msg r =
     (case dart_text (wire_msg msg) of
        None \<Rightarrow> (listener_new r)\<lparr>ls_thrown := [FormatException]\<rparr>
      | Some s \<Rightarrow> (listener_new r)\<lparr>ls_future := Error (mk s), ls_open := False\<rparr>)"

lemma fail_with_posts:
  "fail_with mk (post_bytes (post_error p msg)) (listener_new r) =
     (case dart_text (wire_msg msg) of None \<Rightarrow> Inl FormatException | Some s \<Rightarrow> Inr (failed_listener mk msg r))"
  "fail_with mk (post_bytes (post_op_error p msg)) (listener_new r) =
     (case dart_text (wire_msg msg) of None \<Rightarrow> Inl FormatException | Some s \<Rightarrow> Inr (failed_listener mk msg r))"
  by (simp_all add: fail_with_def decode_error_posts dart_result_def failed_listener_def complete_def
      port_close_def listener_new_def split: option.splits)

lemma deliver_failure:
  assumes "h msg (listener_new r) =
    (case dart_text (wire_msg str') of None \<Rightarrow> Inl FormatException | Some s \<Rightarrow> Inr (failed_listener mk str' r))"
  shows "deliver h (listener_new r) msg = failed_listener mk str' r"
  using assms by (auto simp: deliver_def failed_listener_def split: option.splits)

lemma handlers_fail:
  "listen (collecting decode g mk) (listener_new []) [post_error p msg] = failed_listener mk msg []"
  "listen (single sdecode mk) (listener_new ()) [post_error p msg] = failed_listener mk msg ()"
  "listen single_string (listener_new []) [post_error p msg] = failed_listener FlatpakRemoteException msg []"
  "listen launching (listener_new None) [post_error p msg] = failed_listener FlatpakNotFoundException msg None"
  "listen launching (listener_new None) [post_op_error p msg] = failed_listener FlatpakLaunchException msg None"
  "listen stopping (listener_new ()) [post_error p msg] = failed_listener FlatpakNotFoundException msg ()"
  "listen stopping (listener_new ()) [post_op_error p msg] = failed_listener FlatpakStopException msg ()"
  "listen refreshing (listener_new ()) [post_error p msg] = failed_listener FlatpakRemoteException msg ()"
  "listen result_handler (listener_new ()) [post_error p msg] = failed_listener FlatpakRemoteException msg ()"
proof -
  obtain a b where bytes: "post_bytes (post_error p msg) = 0x02 # a" "post_bytes (post_op_error p msg) = 0x03 # b"
    using post_bytes_error by blast
  note fails = fail_with_posts [of _ p msg, unfolded bytes]
  show "listen (collecting decode g mk) (listener_new []) [post_error p msg] = failed_listener mk msg []"
    "listen (single sdecode mk) (listener_new ()) [post_error p msg] = failed_listener mk msg ()"
    "listen single_string (listener_new []) [post_error p msg] = failed_listener FlatpakRemoteException msg []"
    "listen launching (listener_new None) [post_error p msg] = failed_listener FlatpakNotFoundException msg None"
    "listen launching (listener_new None) [post_op_error p msg] = failed_listener FlatpakLaunchException msg None"
    "listen stopping (listener_new ()) [post_error p msg] = failed_listener FlatpakNotFoundException msg ()"
    "listen stopping (listener_new ()) [post_op_error p msg] = failed_listener FlatpakStopException msg ()"
    "listen refreshing (listener_new ()) [post_error p msg] = failed_listener FlatpakRemoteException msg ()"
    "listen result_handler (listener_new ()) [post_error p msg] = failed_listener FlatpakRemoteException msg ()"
    by (simp_all add: bytes, (rule deliver_failure,
        simp add: collecting_def single_def single_string_def launching_def stopping_def refreshing_def
          result_handler_def fails)+)
qed

section \<open>The replies of the reads, frame by frame\<close>

text \<open>
  \<open>framed_as A p ps\<close>: items of \<open>A\<close> and the sentinel, or one 0x02 error; \<open>one_framed\<close>: exactly one
  item.
\<close>

definition framed_as :: "post set \<Rightarrow> port \<Rightarrow> post list \<Rightarrow> bool" where
  "framed_as A p ps \<longleftrightarrow>
     (\<exists>items. ps = items @ [post_sentinel p] \<and> set items \<subseteq> A) \<or> (\<exists>msg. ps = [post_error p msg])"

definition one_framed :: "post set \<Rightarrow> port \<Rightarrow> post list \<Rightarrow> bool" where
  "one_framed A p ps \<longleftrightarrow> (\<exists>x \<in> A. ps = [x, post_sentinel p]) \<or> (\<exists>msg. ps = [post_error p msg])"

lemma framed_as_intros [intro, simp]:
  "framed_as A p [post_error p msg]" "framed_as A p [post_sentinel p]"
  "set xs \<subseteq> A \<Longrightarrow> framed_as A p (xs @ [post_sentinel p])"
  "x \<in> A \<Longrightarrow> framed_as A p [x, post_sentinel p]"
  "one_framed A p [post_error p msg]" "x \<in> A \<Longrightarrow> one_framed A p [x, post_sentinel p]"
  by (auto simp: framed_as_def one_framed_def intro: exI [of _ "[x]"])

abbreviation structs :: "port \<Rightarrow> ('a \<Rightarrow> gval) \<Rightarrow> post set" where
  "structs p val \<equiv> range (\<lambda>x. post_glaze p 0x01 (val x))"

abbreviation texts :: "port \<Rightarrow> post set" where
  "texts p \<equiv> range (post_string p)"

lemma listings_as:
  "list_apps fp p b = Some ps \<Longrightarrow> framed_as (structs p InstalledApp_val) p ps"
  "list_remotes fp p = Some ps \<Longrightarrow> framed_as (structs p FlatpakRemoteInfo_val) p ps"
  "list_remote_apps fp p name arch b w = Some ps \<Longrightarrow> framed_as (structs p FpRef_val) p ps"
  "check_updates fp p = Some ps \<Longrightarrow> framed_as (structs p FpRef_val) p ps"
  "list_running fp p = Some ps \<Longrightarrow> framed_as (structs p FpInstance_val) p ps"
  "list_system_installations fp p = Some ps \<Longrightarrow> framed_as (structs p FpInstallationInfo_val) p ps"
  "get_permissions fp p app_id = Some ps \<Longrightarrow> framed_as (structs p FpMetadataEntry_val) p ps"
  "get_supported_arches fp p = Some ps \<Longrightarrow> framed_as (texts p) p ps"
  by (auto simp: listing_defs metadata_defs introspection_defs deref_error_def list_apps_loop_eq
      list_remote_apps_loop_eq intro!: framed_as_intros(3) split: sum.splits option.splits)

lemma missing_as:
  "list_missing_extensions fp p app_id arch branch = Some ps \<Longrightarrow> framed_as (texts p) p ps"
  by (auto simp: list_missing_extensions_eq Let_def intro!: framed_as_intros(3) split: sum.splits)

lemma singles_as:
  "get_remote_info fp p name = Some ps \<Longrightarrow> one_framed (structs p FlatpakRemoteInfo_val) p ps"
  "get_app_info fp p app_id arch branch = Some ps \<Longrightarrow> one_framed (structs p InstalledApp_val) p ps"
  "fetch_remote_metadata fp p remote ref = Some ps \<Longrightarrow> one_framed (structs p entries_val) p ps"
  "get_version v p = Some ps \<Longrightarrow> one_framed (texts p) p ps"
  "get_default_arch fp p = Some ps \<Longrightarrow> one_framed (texts p) p ps"
  "get_runtime_ref fp p app_id arch branch = Some ps \<Longrightarrow> one_framed (texts p) p ps"
  "is_ref_installed fp p ref = Some ps \<Longrightarrow> one_framed (texts p) p ps"
  by (auto simp: listing_defs metadata_defs introspection_defs deref_error_def entries_wire post_glaze_def
      Let_def simp del: write_arith.simps split: sum.splits option.splits prod.splits)

section \<open>When the futures settle\<close>

definition verdict :: "('r, 'a) listener \<Rightarrow> bool \<times> dart_error list" where
  "verdict l = (case ls_future l of Pending \<Rightarrow> False | _ \<Rightarrow> True, ls_thrown l)"

fun dart_reader :: "reader_call \<Rightarrow> post list \<Rightarrow> bool \<times> dart_error list" where
  "dart_reader (ListApps _) ps = verdict (listApplications ps)"
| "dart_reader ListRemotes ps = verdict (listRemotes ps)"
| "dart_reader (GetRemoteInfo _) ps = verdict (getRemoteInfo ps)"
| "dart_reader (ListRemoteApps _ _ _ _) ps = verdict (listRemoteApps ps)"
| "dart_reader (GetAppInfo _ _ _) ps = verdict (getAppInfo ps)"
| "dart_reader (GetPermissions _) ps = verdict (getPermissions ps)"
| "dart_reader CheckUpdates ps = verdict (checkForUpdates ps)"
| "dart_reader (FetchRemoteMetadata _ _) ps = verdict (fetchRemoteMetadata ps)"
| "dart_reader ListRunning ps = verdict (listRunning ps)"
| "dart_reader GetVersion ps = verdict (readSingleString ps)"
| "dart_reader GetDefaultArch ps = verdict (readSingleString ps)"
| "dart_reader GetSupportedArches ps = verdict (getSupportedArches ps)"
| "dart_reader ListSystemInstallations ps = verdict (listSystemInstallations ps)"
| "dart_reader (GetRuntimeRef _ _ _) ps = verdict (readSingleString ps)"
| "dart_reader (IsRefInstalled _) ps = verdict (readSingleString ps)"
| "dart_reader (ListMissingExtensions _ _ _) ps = verdict (listMissingExtensions ps)"

text \<open>
  What holds of every read: nothing but a text that is not UTF-8 is thrown, the future is
  settled unless something was thrown, and by an error exactly when its text decodes.
\<close>

definition settles :: "port \<Rightarrow> post list \<Rightarrow> bool \<times> dart_error list \<Rightarrow> bool" where
  "settles p ps v \<longleftrightarrow> set (snd v) \<subseteq> {FormatException} \<and> (snd v = [] \<longrightarrow> fst v) \<and>
     (\<forall>msg. ps = [post_error p msg] \<longrightarrow> (fst v \<longleftrightarrow> dart_text (wire_msg msg) \<noteq> None))"

lemma post_error_wire:
  assumes "post_error p msg' = post_error p msg"
  shows "wire_msg msg' = wire_msg msg"
proof -
  have "decodeError (post_bytes (post_error p msg')) = decodeError (post_bytes (post_error p msg))"
    using assms by simp
  then show ?thesis by (simp add: post_error_def decodeError_framed)
qed

lemma settles_error:
  assumes "set (snd v) \<subseteq> {FormatException}" "snd v = [] \<longrightarrow> fst v"
    "fst v \<longleftrightarrow> dart_text (wire_msg msg) \<noteq> None"
  shows "settles p [post_error p msg] v"
  unfolding settles_def
proof (intro conjI allI impI assms(1) assms(2) [rule_format])
  fix msg' assume "[post_error p msg] = [post_error p msg']"
  then have "wire_msg msg = wire_msg msg'" by (intro post_error_wire) simp
  with assms(3) show "fst v \<longleftrightarrow> dart_text (wire_msg msg') \<noteq> None" by simp
qed

lemma settles_failed: "settles p [post_error p msg] (verdict (failed_listener mk msg r))"
  by (rule settles_error)
    (auto simp: verdict_def failed_listener_def listener_new_def split: option.splits)

lemma sentinel_not_error [simp]:
  "post_sentinel p \<noteq> post_error p msg"
  using post_bytes_error(1) [of p msg] by (metis post_bytes_sentinel list.inject numeral_eq_iff
      list.distinct(1))

definition decodes :: "(byte list \<Rightarrow> nat \<Rightarrow> dart_error + 'a) \<Rightarrow> port \<Rightarrow> post set \<Rightarrow> bool" where
  "decodes decode p A \<longleftrightarrow> (\<forall>x \<in> A. is_item p x \<and>
     (length (post_bytes x) \<le> 2 ^ 63 \<longrightarrow> decode (post_bytes x) 1 \<noteq> Inl RangeError))"

lemma decodes_all:
  "decodes decodeInstalledApp p (structs p InstalledApp_val)"
  "decodes decodeFlatpakRemote p (structs p FlatpakRemoteInfo_val)"
  "decodes decodeFlatpakRef p (structs p FpRef_val)"
  "decodes decodeInstance p (structs p FpInstance_val)"
  "decodes decodeInstallationInfo p (structs p FpInstallationInfo_val)"
  "decodes decodeMetadataEntry p (structs p FpMetadataEntry_val)"
  "decodes decodeRemoteMetadata p (structs p entries_val)"
  "decodes decode_error p (texts p)"
  by (auto simp: decodes_def post_bytes_glaze write_binary_enc decode_frames decode_error_posts dart_result_def
      Suc_le_eq split: option.splits)

lemma collecting_settles:
  assumes "framed_as A p ps" "decodes decode p A" "\<forall>x \<in> set ps. length (post_bytes x) \<le> 2 ^ 63"
  shows "settles p ps (verdict (listen (collecting decode g mk) (listener_new []) ps))"
  using assms(1) unfolding framed_as_def
proof (elim disjE exE conjE)
  fix items assume ps: "ps = items @ [post_sentinel p]" "set items \<subseteq> A"
  with assms(2) have "\<forall>x \<in> set items. is_item p x" by (auto simp: decodes_def)
  note stream = collecting_stream [OF this, of decode g mk]
  have "Inl RangeError \<notin> set (outcomes decode g items)"
    using assms(2,3) ps by (auto simp: outcomes_def decodes_def)
  then have "set (errors_of (outcomes decode g items)) \<subseteq> {FormatException}"
    by (auto simp: set_errors_of) (metis dart_error.exhaust)
  with ps stream show ?thesis
    by (cases items) (auto simp: settles_def verdict_def)
next
  fix msg assume ps: "ps = [post_error p msg]"
  show ?thesis unfolding ps handlers_fail by (rule settles_failed)
qed

lemma streaming_items:
  assumes "\<forall>x \<in> set items. is_item p x" "ls_open l"
  shows "listen (streaming decode mk) l items =
    l\<lparr>ls_local := ls_local l @ map Inr (values_of (outcomes decode True items)),
      ls_thrown := ls_thrown l @ errors_of (outcomes decode True items)\<rparr>"
  using assms
proof (induction items arbitrary: l)
  case (Cons x items)
  from Cons.prems(1) obtain payload where x: "post_bytes x = 0x01 # payload"
    by (auto elim: is_item_bytes)
  show ?case
  proof (cases "payload = []")
    case False
    then show ?thesis
      using Cons x
      by (cases "decode (1 # payload) 1") (auto simp: deliver_open streaming_def outcomes_def)
  next
    case True
    then show ?thesis using Cons x by (simp add: deliver_open streaming_def outcomes_def)
  qed
qed (simp add: outcomes_def)

lemma streaming_settles:
  assumes "framed_as A p ps" "decodes decode p A" "\<forall>x \<in> set ps. length (post_bytes x) \<le> 2 ^ 63"
  shows "settles p ps (verdict (listen (streaming decode mk) (listener_new []) ps))"
  using assms(1) unfolding framed_as_def
proof (elim disjE exE conjE)
  fix items assume ps: "ps = items @ [post_sentinel p]" "set items \<subseteq> A"
  with assms(2) have items: "\<forall>x \<in> set items. is_item p x" by (auto simp: decodes_def)
  have "Inl RangeError \<notin> set (outcomes decode True items)"
    using assms(2,3) ps by (auto simp: outcomes_def decodes_def)
  then have "set (errors_of (outcomes decode True items)) \<subseteq> {FormatException}"
    by (auto simp: set_errors_of) (metis dart_error.exhaust)
  with ps streaming_items [OF items, of "listener_new []" decode mk] show ?thesis
    by (cases items) (auto simp: settles_def verdict_def deliver_open streaming_def)
next
  fix msg assume ps: "ps = [post_error p msg]"
  obtain payload where bytes: "post_bytes (post_error p msg) = 0x02 # payload"
    using post_bytes_error by blast
  have "decode_error (0x02 # payload) 1 = dart_result (dart_text (wire_msg msg))"
    using decode_error_posts(1) [of p msg] by (simp only: bytes)
  then show ?thesis
    unfolding ps
    by (intro settles_error; cases "dart_text (wire_msg msg)")
      (simp_all add: verdict_def deliver_open streaming_def bytes dart_result_def)
qed

lemma single_settles:
  assumes "one_framed A p ps" "decodes decode p A" "\<forall>x \<in> set ps. length (post_bytes x) \<le> 2 ^ 63"
    "\<forall>x \<in> A. tl (post_bytes x) \<noteq> []"
  shows "settles p ps (verdict (listen (single decode mk) (listener_new ()) ps))"
  using assms(1) unfolding one_framed_def
proof (elim disjE exE bexE)
  fix x assume ps: "ps = [x, post_sentinel p]" "x \<in> A"
  with assms(2) have "is_item p x" by (auto simp: decodes_def)
  then obtain payload where x: "post_bytes x = 0x01 # payload" by (rule is_item_bytes)
  moreover have "payload \<noteq> []" "decode (post_bytes x) 1 \<noteq> Inl RangeError"
    using assms(2-4) ps x by (auto simp: decodes_def dest: bspec)
  ultimately show ?thesis
    by (cases "decode (1 # payload) 1"; cases "projl (decode (1 # payload) 1)")
      (auto simp: ps settles_def verdict_def deliver_open single_def)
next
  fix msg assume ps: "ps = [post_error p msg]"
  show ?thesis unfolding ps handlers_fail by (rule settles_failed)
qed

lemma single_string_settles:
  assumes "one_framed (texts p) p ps"
  shows "settles p ps (verdict (listen single_string (listener_new []) ps))"
  using assms unfolding one_framed_def
proof (elim disjE exE bexE)
  fix x assume "ps = [x, post_sentinel p]" "x \<in> texts p"
  then obtain s where ps: "ps = [post_string p s, post_sentinel p]" by auto
  obtain payload where bytes: "post_bytes (post_string p s) = 0x01 # payload"
    using post_bytes_error by blast
  show ?thesis
    using decode_error_posts(3) [of p s]
    by (cases "dart_text (wire_msg s)")
      (auto simp: ps settles_def verdict_def deliver_open single_string_def bytes dart_result_def)
next
  fix msg assume ps: "ps = [post_error p msg]"
  show ?thesis unfolding ps handlers_fail by (rule settles_failed)
qed

lemma payloads_nonempty:
  "tl (post_bytes (post_glaze p d (FlatpakRemoteInfo_val x))) \<noteq> []"
  "tl (post_bytes (post_glaze p d (InstalledApp_val y))) \<noteq> []"
  "tl (post_bytes (post_glaze p d (entries_val es))) \<noteq> []"
proof -
  have "write_binary (entries_val es) \<noteq> []" by (simp add: entries_val_def wire_simps)
  then show "tl (post_bytes (post_glaze p d (entries_val es))) \<noteq> []" by (simp add: post_bytes_glaze)
qed (simp_all add: post_bytes_glaze)

lemmas dart_reader_defs = listApplications_def listRemotes_def getPermissions_def checkForUpdates_def
  listRunning_def getSupportedArches_def listSystemInstallations_def listMissingExtensions_def
  listRemoteApps_def getRemoteInfo_def getAppInfo_def fetchRemoteMetadata_def readSingleString_def

lemma dart_reader_settles:
  assumes "reader_run version fp call p = Some ps" "\<forall>x \<in> set ps. length (post_bytes x) \<le> 2 ^ 63"
  shows "settles p ps (dart_reader call ps)"
  using assms
  by (cases call)
    (auto simp: dart_reader_defs payloads_nonempty
      intro!: collecting_settles streaming_settles single_settles single_string_settles
      intro: listings_as missing_as singles_as decodes_all)

section \<open>At which frame a read settles\<close>

text \<open>The reads whose listener completes the future at the first payload.\<close>

fun one_payload :: "reader_call \<Rightarrow> bool" where
  "one_payload (GetRemoteInfo _) = True"
| "one_payload (GetAppInfo _ _ _) = True"
| "one_payload (FetchRemoteMetadata _ _) = True"
| "one_payload _ = False"

text \<open>
  \<open>settles_at n lossy p ps v\<close>: the verdict \<open>v\<close> on the frames \<open>ps\<close> is that the future settled, at
  frame \<open>n\<close>, except by an error whose text is not UTF-8, and except, if \<open>lossy\<close>, when anything
  was thrown.
\<close>

definition settles_at :: "nat \<Rightarrow> bool \<Rightarrow> port \<Rightarrow> post list \<Rightarrow> (post list \<Rightarrow> bool \<times> dart_error list) \<Rightarrow> bool" where
  "settles_at n lossy p ps v \<longleftrightarrow>
     (\<not> fst (v ps) \<longleftrightarrow> (\<exists>msg. ps = [post_error p msg] \<and> dart_text (wire_msg msg) = None) \<or> lossy \<and> snd (v ps) \<noteq> []) \<and>
     (\<forall>k. fst (v (take k ps)) \<longleftrightarrow> fst (v ps) \<and> n \<le> k)"

lemma not_settled_yet [simp]: "\<not> fst (verdict (listener_new r))"
  by (simp add: verdict_def)

lemma error_settles_at:
  assumes "v [] = verdict (listener_new r)"
    "fst (v [post_error p msg]) \<longleftrightarrow> dart_text (wire_msg msg) \<noteq> None"
    "fst (v [post_error p msg]) \<longleftrightarrow> snd (v [post_error p msg]) = []"
  shows "settles_at 1 lossy p [post_error p msg] v"
proof -
  have "(\<exists>msg'. [post_error p msg] = [post_error p msg'] \<and> dart_text (wire_msg msg') = None) \<longleftrightarrow>
      dart_text (wire_msg msg) = None"
    using post_error_wire by (metis list.inject)
  moreover have "take k [post_error p msg] = (if k = 0 then [] else [post_error p msg])" for k
    by (cases k) simp_all
  ultimately show ?thesis using assms by (auto simp: settles_at_def)
qed

lemma failed_settles_at:
  assumes "v [] = verdict (listener_new r)" "v [post_error p msg] = verdict (failed_listener mk msg r)"
  shows "settles_at 1 lossy p [post_error p msg] v"
  by (rule error_settles_at [where r = r])
    (use assms in \<open>auto simp: verdict_def failed_listener_def listener_new_def split: option.splits\<close>)

text \<open>A stream settles at its sentinel; the items before it leave the future pending.\<close>

lemma stream_settles_at:
  assumes "\<And>k. \<not> fst (v (take k items))" "fst (v (items @ [post_sentinel p]))"
  shows "settles_at (Suc (length items)) False p (items @ [post_sentinel p]) v"
  unfolding settles_at_def
proof (intro conjI allI)
  have "items @ [post_sentinel p] \<noteq> [post_error p msg]" for msg by (cases items) simp_all
  with assms(2) show "\<not> fst (v (items @ [post_sentinel p])) \<longleftrightarrow>
      (\<exists>msg. items @ [post_sentinel p] = [post_error p msg] \<and> dart_text (wire_msg msg) = None) \<or>
      False \<and> snd (v (items @ [post_sentinel p])) \<noteq> []"
    by blast
  fix k
  show "fst (v (take k (items @ [post_sentinel p]))) \<longleftrightarrow>
      fst (v (items @ [post_sentinel p])) \<and> Suc (length items) \<le> k"
  proof (cases "Suc (length items) \<le> k")
    case False
    then have "take k (items @ [post_sentinel p]) = take k items" by simp
    with assms(1) [of k] False show ?thesis by simp
  qed (use assms(2) in simp)
qed

lemma items_take: "\<forall>x \<in> set items. is_item p x \<Longrightarrow> \<forall>x \<in> set (take k items). is_item p x"
  by (meson in_set_takeD)

lemma collecting_settles_at:
  assumes "framed_as A p ps" "decodes decode p A"
  shows "settles_at (length ps) False p ps (\<lambda>ps. verdict (listen (collecting decode g mk) (listener_new []) ps))"
  using assms(1) unfolding framed_as_def
proof (elim disjE exE conjE)
  fix items assume ps: "ps = items @ [post_sentinel p]" "set items \<subseteq> A"
  with assms(2) have items: "\<forall>x \<in> set items. is_item p x" by (auto simp: decodes_def)
  have "\<not> fst (verdict (listen (collecting decode g mk) (listener_new []) (take k items)))" for k
    using collecting_items [OF items_take [OF items, of k], of "listener_new []" decode g mk]
    by (simp add: verdict_def)
  moreover have "fst (verdict (listen (collecting decode g mk) (listener_new []) (items @ [post_sentinel p])))"
    using collecting_stream [OF items, of decode g mk] by (simp add: verdict_def)
  moreover have "length (items @ [post_sentinel p]) = Suc (length items)" by simp
  ultimately show ?thesis unfolding ps(1) by (metis (no_types, lifting) stream_settles_at)
next
  fix msg assume ps: "ps = [post_error p msg]"
  have "settles_at 1 False p [post_error p msg] (\<lambda>ps. verdict (listen (collecting decode g mk) (listener_new []) ps))"
    by (rule failed_settles_at [where mk = mk and r = "[]"]) (simp, simp only: handlers_fail)
  then show ?thesis by (simp add: ps One_nat_def)
qed

lemma streaming_settles_at:
  assumes "framed_as A p ps" "decodes decode p A" "\<forall>x \<in> set ps. length (post_bytes x) \<le> 2 ^ 63"
  shows "settles_at (length ps) False p ps (\<lambda>ps. verdict (listen (streaming decode mk) (listener_new []) ps))"
  using assms(1) unfolding framed_as_def
proof (elim disjE exE conjE)
  fix items assume ps: "ps = items @ [post_sentinel p]" "set items \<subseteq> A"
  with assms(2) have items: "\<forall>x \<in> set items. is_item p x" by (auto simp: decodes_def)
  have "\<not> fst (verdict (listen (streaming decode mk) (listener_new []) (take k items)))" for k
    using streaming_items [OF items_take [OF items, of k], of "listener_new []" decode mk]
    by (simp add: verdict_def)
  moreover have "fst (verdict (listen (streaming decode mk) (listener_new []) (items @ [post_sentinel p])))"
    using streaming_items [OF items, of "listener_new []" decode mk]
    by (simp add: verdict_def deliver_open streaming_def)
  moreover have "length (items @ [post_sentinel p]) = Suc (length items)" by simp
  ultimately show ?thesis unfolding ps(1) by (metis (no_types, lifting) stream_settles_at)
next
  fix msg assume ps: "ps = [post_error p msg]"
  obtain payload where bytes: "post_bytes (post_error p msg) = 0x02 # payload"
    using post_bytes_error by blast
  have "decode_error (0x02 # payload) 1 = dart_result (dart_text (wire_msg msg))"
    using decode_error_posts(1) [of p msg] by (simp only: bytes)
  then have "settles_at 1 False p [post_error p msg] (\<lambda>ps. verdict (listen (streaming decode mk) (listener_new []) ps))"
    by (intro error_settles_at [where r = "[]"]; cases "dart_text (wire_msg msg)")
      (simp_all add: verdict_def deliver_open streaming_def bytes dart_result_def)
  then show ?thesis by (simp add: ps One_nat_def)
qed

lemma single_settles_at:
  assumes "one_framed A p ps" "decodes decode p A" "\<forall>x \<in> A. tl (post_bytes x) \<noteq> []"
  shows "settles_at 1 True p ps (\<lambda>ps. verdict (listen (single decode mk) (listener_new ()) ps))"
  using assms(1) unfolding one_framed_def
proof (elim disjE exE bexE)
  fix x assume ps: "ps = [x, post_sentinel p]" "x \<in> A"
  with assms(2) have "is_item p x" by (auto simp: decodes_def)
  then obtain payload where x: "post_bytes x = 0x01 # payload" by (rule is_item_bytes)
  moreover have "payload \<noteq> []" using assms(3) ps(2) x by (auto dest: bspec)
  moreover have "take k ps = (if k = 0 then [] else if k = Suc 0 then [x] else ps)" for k
    by (cases k; cases "k - 1") (simp_all add: ps(1))
  ultimately show ?thesis
    by (cases "decode (1 # payload) 1") (auto simp: ps settles_at_def verdict_def deliver_open single_def)
next
  fix msg assume ps: "ps = [post_error p msg]"
  show ?thesis unfolding ps
    by (rule failed_settles_at [where mk = mk and r = "()"]) (simp, simp only: handlers_fail)
qed

lemma single_string_settles_at:
  assumes "one_framed (texts p) p ps"
  shows "settles_at (length ps) False p ps (\<lambda>ps. verdict (listen single_string (listener_new []) ps))"
  using assms unfolding one_framed_def
proof (elim disjE exE bexE)
  fix x assume "ps = [x, post_sentinel p]" "x \<in> texts p"
  then obtain t where ps: "ps = [post_string p t] @ [post_sentinel p]" by auto
  obtain payload where bytes: "post_bytes (post_string p t) = 0x01 # payload"
    using post_bytes_error by blast
  have take: "take k [post_string p t] = (if k = 0 then [] else [post_string p t])" for k by (cases k) simp_all
  have "settles_at (Suc (length [post_string p t])) False p ps
      (\<lambda>ps. verdict (listen single_string (listener_new []) ps))"
    unfolding ps using decode_error_posts(3) [of p t]
    by (intro stream_settles_at; cases "dart_text (wire_msg t)")
      (auto simp: take verdict_def deliver_open single_string_def bytes dart_result_def)
  then show ?thesis by (simp add: ps)
next
  fix msg assume ps: "ps = [post_error p msg]"
  have "settles_at 1 False p [post_error p msg] (\<lambda>ps. verdict (listen single_string (listener_new []) ps))"
    by (rule failed_settles_at [where mk = FlatpakRemoteException and r = "[]"]) (simp, simp only: handlers_fail)
  then show ?thesis by (simp add: ps One_nat_def)
qed

lemma settles_at_ext: "(\<And>ps. v ps = w ps) \<Longrightarrow> settles_at n lossy p ps w \<Longrightarrow> settles_at n lossy p ps v"
  by (simp add: settles_at_def)

lemma dart_reader_settles_at:
  assumes "reader_run version fp call p = Some ps" "\<forall>x \<in> set ps. length (post_bytes x) \<le> 2 ^ 63"
  shows "settles_at (if one_payload call then 1 else length ps) (one_payload call) p ps (dart_reader call)"
  using assms
  by (cases call)
    (auto simp: dart_reader_defs payloads_nonempty
      intro!: dart_reader.simps [THEN settles_at_ext] collecting_settles_at streaming_settles_at
        single_settles_at single_string_settles_at
      intro: listings_as missing_as singles_as decodes_all)

section \<open>Changes sent to a remote\<close>

text \<open>A member of the remote after a change: the old value unless one is given.\<close>

definition given_text :: "dart_string option \<Rightarrow> cstr \<Rightarrow> cstr" where
  "given_text x old =
     (case x of None \<Rightarrow> old | Some s \<Rightarrow> if s = [] then old else Some (c_str (string_of (utf8_encode s))))"

definition given_flag :: "bool option \<Rightarrow> bool \<Rightarrow> bool" where
  "given_flag x old = (case x of None \<Rightarrow> old | Some b \<Rightarrow> b)"

definition changed_remote :: "FlatpakRemoteConfig \<Rightarrow> FlatpakRemote \<Rightarrow> FlatpakRemote" where
  "changed_remote c r = r\<lparr>
     remote_url := given_text (rc_url c) (remote_url r),
     remote_title := given_text (rc_title c) (remote_title r),
     remote_comment := given_text (rc_comment c) (remote_comment r),
     remote_homepage := given_text (rc_homepage c) (remote_homepage r),
     remote_default_branch := given_text (rc_defaultBranch c) (remote_default_branch r),
     remote_collection_id := given_text (rc_collectionId c) (remote_collection_id r),
     remote_filter := given_text (rc_filter c) (remote_filter r),
     remote_gpg_key := (case rc_gpgKeyData c of None \<Rightarrow> remote_gpg_key r
                        | Some k \<Rightarrow> if k = [] then remote_gpg_key r else Some k),
     remote_gpg_verify := given_flag (rc_gpgVerify c) (remote_gpg_verify r),
     remote_disabled := given_flag (rc_disabled c) (remote_disabled r),
     remote_nodeps := given_flag (rc_noDeps c) (remote_nodeps r),
     remote_prio := (case rc_priority c of None \<Rightarrow> remote_prio r
                     | Some n \<Rightarrow> if sint (word_of_int n :: i32) < 0 then remote_prio r else word_of_int n)\<rparr>"

lemma rune_bytes_nonempty: "rune_bytes c \<noteq> []"
  by (simp add: rune_bytes_def utf8_units_def)

lemma utf8_encode_Nil: "utf8_encode s = [] \<longleftrightarrow> s = []"
  by (cases s) (simp_all add: utf8_encode_def rune_bytes_nonempty)

lemma native_text_given:
  "(if native_text x = '''' then old else Some (c_str (native_text x))) = given_text x old"
  by (cases x) (auto simp: native_text_def given_text_def or_empty_def string_of_def utf8_encode_Nil)

lemma tristate_given:
  "(if sint (word_of_int (tristate x) :: i8) < 0 then old else word_of_int (tristate x) \<noteq> (0 :: i8)) =
     given_flag x old"
  by (cases x) (auto simp: tristate_def given_flag_def)

lemma native_config_simps:
  "c_url (native_config c) = native_text (rc_url c)" "c_title (native_config c) = native_text (rc_title c)"
  "c_comment (native_config c) = native_text (rc_comment c)"
  "c_homepage (native_config c) = native_text (rc_homepage c)"
  "c_defaultBranch (native_config c) = native_text (rc_defaultBranch c)"
  "c_collectionId (native_config c) = native_text (rc_collectionId c)"
  "c_filter (native_config c) = native_text (rc_filter c)"
  "c_gpgKeyData (native_config c) = or_empty (rc_gpgKeyData c)"
  "c_gpgVerify (native_config c) = word_of_int (tristate (rc_gpgVerify c))"
  "c_disabled (native_config c) = word_of_int (tristate (rc_disabled c))"
  "c_noDeps (native_config c) = word_of_int (tristate (rc_noDeps c))"
  "c_priority (native_config c) = word_of_int (case rc_priority c of None \<Rightarrow> -1 | Some n \<Rightarrow> n)"
  by (simp_all add: native_config_def)

lemma apply_native_config: "apply_config r (native_config c) = changed_remote c r"
  unfolding apply_config_sets_given_members changed_remote_def native_config_simps
    native_text_given tristate_given
  by (rule FlatpakRemote.equality) (auto simp: or_empty_def split: option.splits)

section \<open>Progress reports\<close>

lemma run_signals_reports:
  "\<forall>prog. \<forall>ctx \<in> set (ctxs prog). cx_port ctx = p \<Longrightarrow>
     \<exists>reports. run_signals p ctxs sigs = map (progress_frame p) reports"
proof (induction p ctxs sigs rule: run_signals.induct)
  case (2 p ctxs op prog sigs)
  obtain frame ctx where new: "on_new_operation p op = (frame, ctx)" by fastforce
  then have "cx_port ctx = p" by (auto simp: on_new_operation_def)
  then have "\<forall>pr. \<forall>c \<in> set ((ctxs(prog := ctxs prog @ [ctx])) pr). cx_port c = p" using 2(2) by auto
  then obtain reports where later: "run_signals p (ctxs(prog := ctxs prog @ [ctx])) sigs = map (progress_frame p) reports"
    using 2(1) [OF new [symmetric]] by blast
  obtain t where "frame = progress_frame p t" using new by (auto simp: on_new_operation_def)
  then have "run_signals p ctxs (NewOperation op prog # sigs) = map (progress_frame p) (t # reports)"
    by (simp add: new later)
  then show ?case by (rule exI)
next
  case (3 p ctxs prog progress bytes status sigs)
  then obtain reports where later: "run_signals p ctxs sigs = map (progress_frame p) reports" by auto
  have "map (\<lambda>ctx. on_progress_changed ctx progress bytes status) (ctxs prog) =
      map (progress_frame p) (map (\<lambda>ctx. \<lparr>t_op = cx_op_kind ctx, t_ref = cx_ref ctx, t_progress = progress,
        t_bytesTransferred = bytes, t_bytesTotal = 0, t_status = safe_str status\<rparr>) (ctxs prog))"
    using 3(2) by (simp add: on_progress_changed_def)
  then have "run_signals p ctxs (ProgressChanged prog progress bytes status # sigs) =
      map (progress_frame p) (map (\<lambda>ctx. \<lparr>t_op = cx_op_kind ctx, t_ref = cx_ref ctx, t_progress = progress,
        t_bytesTransferred = bytes, t_bytesTotal = 0, t_status = safe_str status\<rparr>) (ctxs prog) @ reports)"
    by (simp add: later)
  then show ?case by (rule exI)
next
  case (4 p ctxs op sigs)
  then obtain reports where later: "run_signals p ctxs sigs = map (progress_frame p) reports" by auto
  obtain t where "on_operation_done p op = progress_frame p t" by (simp add: on_operation_done_def)
  then have "run_signals p ctxs (OperationDone op # sigs) = map (progress_frame p) (t # reports)"
    by (simp add: later)
  then show ?case by (rule exI)
qed simp

lemma transaction_reports:
  assumes "ls_open l" "\<not> ps_closed (ls_local l)"
    "\<forall>t \<in> set reports. length (post_bytes (progress_frame p t)) \<le> 2 ^ 63"
  shows "listen transaction_handler l (map (progress_frame p) reports) =
    l\<lparr>ls_local := (ls_local l)\<lparr>ps_events := ps_events (ls_local l) @ map Inr (List.map_filter dart_progress reports)\<rparr>,
      ls_thrown := ls_thrown l @
        replicate (length (filter (\<lambda>t. dart_progress t = None) reports)) FormatException\<rparr>"
  using assms
proof (induction reports arbitrary: l)
  case Nil
  then show ?case by (simp add: List.map_filter_def)
next
  case (Cons t reports)
  have len: "length (enc_value (TransactionProgress_val t)) < 2 ^ 63"
    using Cons.prems(3) by (simp add: progress_frame_def post_bytes_glaze write_binary_enc Suc_le_eq)
  have handled: "transaction_handler (post_bytes (progress_frame p t)) l =
      (case dart_progress t of None \<Rightarrow> Inl FormatException
       | Some x \<Rightarrow> Inr (l\<lparr>ls_local := (ls_local l)\<lparr>ps_events := ps_events (ls_local l) @ [Inr x]\<rparr>\<rparr>))"
    using Cons.prems(2) decode_progress_frame [OF len, of "0x10"]
    by (simp add: transaction_handler_def progress_frame_def post_bytes_glaze write_binary_enc dart_result_def
        split: option.splits)
  show ?case
  proof (cases "dart_progress t")
    case None
    then show ?thesis using Cons by (simp add: deliver_open handled List.map_filter_def)
  next
    case (Some x)
    then show ?thesis using Cons by (simp add: deliver_open handled List.map_filter_def)
  qed
qed

lemma transaction_ends:
  assumes "ls_open l" "ls_future l = Pending"
  shows "deliver transaction_handler l (post_bytes (tx_post_sentinel p)) =
      l\<lparr>ls_local := (ls_local l)\<lparr>ps_closed := True\<rparr>, ls_future := Value (), ls_open := False\<rparr>"
    "deliver transaction_handler l (post_bytes (post_error p msg)) =
      (case dart_text (wire_msg msg) of
         None \<Rightarrow> l\<lparr>ls_thrown := ls_thrown l @ [FormatException]\<rparr>
       | Some t \<Rightarrow> l\<lparr>ls_local := (ls_local l)\<lparr>ps_events :=
             ps_events (ls_local l) @ [Inl (FlatpakTransactionException t)]\<rparr>,
           ls_future := Error (FlatpakTransactionException t), ls_open := False\<rparr>)"
proof -
  obtain payload where bytes: "post_bytes (post_error p msg) = 0x02 # payload"
    using post_bytes_error by blast
  have "decode_error (0x02 # payload) 1 = dart_result (dart_text (wire_msg msg))"
    using decode_error_posts(1) [of p msg] by (simp only: bytes)
  then show "deliver transaction_handler l (post_bytes (post_error p msg)) =
      (case dart_text (wire_msg msg) of
         None \<Rightarrow> l\<lparr>ls_thrown := ls_thrown l @ [FormatException]\<rparr>
       | Some t \<Rightarrow> l\<lparr>ls_local := (ls_local l)\<lparr>ps_events :=
             ps_events (ls_local l) @ [Inl (FlatpakTransactionException t)]\<rparr>,
           ls_future := Error (FlatpakTransactionException t), ls_open := False\<rparr>)"
    using assms
    by (cases "dart_text (wire_msg msg)")
      (simp_all add: bytes deliver_open transaction_handler_def dart_result_def complete_def port_close_def)
qed (use assms in \<open>simp add: deliver_open transaction_handler_def tx_post_sentinel_def complete_def port_close_def\<close>)

section \<open>Properties\<close>

text \<open>
  C4. The future of every read of an installation settles unless its listener throws, and the
  listener throws nothing but the FormatException of a text that is not UTF-8. In particular an
  error reply whose message is not UTF-8 is never reported: its future stays pending for ever.
\<close>

theorem dart_reads_settle:
  assumes "reader_run version fp call p = Some ps" "\<forall>x \<in> set ps. length (post_bytes x) \<le> 2 ^ 63"
  shows "set (snd (dart_reader call ps)) \<subseteq> {FormatException} \<and>
    (snd (dart_reader call ps) = [] \<longrightarrow> fst (dart_reader call ps)) \<and>
    (\<forall>msg. ps = [post_error p msg] \<longrightarrow>
       (fst (dart_reader call ps) \<longleftrightarrow> dart_text (wire_msg msg) \<noteq> None))"
  using dart_reader_settles [OF assms] by (simp add: settles_def)

definition latin1_lib :: libflatpak where
  "latin1_lib = example_lib\<lparr>lf_list_remotes :=
     Inl (Some \<lparr>g_domain = 3, g_code = 6, g_message = [CHR 0xE9]\<rparr>)\<rparr>"

theorem dart_reads_settle_witness:
  "reader_run (1, 15, 8) latin1_lib ListRemotes 5 = Some [post_error 5 [CHR 0xE9]] \<and>
   \<not> fst (dart_reader ListRemotes [post_error 5 [CHR 0xE9]])"
proof -
  have run: "reader_run (1, 15, 8) latin1_lib ListRemotes 5 = Some [post_error 5 [CHR 0xE9]]"
    by (simp add: latin1_lib_def list_remotes_def deref_error_def)
  have c: "c_str [CHR 0xE9] = [CHR 0xE9]" by (simp add: c_str_def)
  then have "dart_text (wire_msg [CHR 0xE9]) = None"
    by (simp add: wire_msg_def dart_text_def bytes_of_def byte_of_char_def utf8_decode_def scan_units.simps
        One_nat_def)
  moreover have "\<forall>x \<in> set [post_error 5 [CHR 0xE9]]. length (post_bytes x) \<le> 2 ^ 63"
    using c by (simp add: post_error_def post_bytes_framed_error wire_msg_def)
  ultimately show ?thesis using dart_reads_settle [OF run] run by blast
qed

text \<open>
  C11. \<open>listApplications\<close> gives the installed apps, and the runtimes when asked to, in
  libflatpak's order: the future completes with the objects of the refs whose texts are UTF-8,
  one FormatException is thrown for each of the others, which are left out, and the port is
  closed.
\<close>

theorem list_applications_gives_the_apps:
  assumes "lf_list_installed_refs fp = Inr refs" "list_apps fp p include_runtimes = Some ps"
    "\<forall>x \<in> set ps. length (post_bytes x) \<le> 2 ^ 63"
    "wanted = filter (\<lambda>iref. include_runtimes \<or> ref_kind iref = FLATPAK_REF_KIND_APP) refs"
  shows "ls_future (listApplications ps) =
      Value (List.map_filter (\<lambda>iref. dart_application (fill_app (kind_str (ref_kind iref)) iref)) wanted) \<and>
    ls_thrown (listApplications ps) =
      replicate (length (filter (\<lambda>iref. dart_application (fill_app (kind_str (ref_kind iref)) iref) = None) wanted))
        FormatException \<and>
    \<not> ls_open (listApplications ps)"
proof -
  let ?v = "\<lambda>iref. fill_app (kind_str (ref_kind iref)) iref"
  let ?items = "map (\<lambda>iref. post_glaze p 0x01 (InstalledApp_val (?v iref))) wanted"
  have ps: "ps = ?items @ [post_sentinel p]"
    using assms(1,2,4) by (simp add: list_apps_def list_apps_loop_eq)
  have "decodeInstalledApp (post_bytes (post_glaze p 0x01 (InstalledApp_val (?v iref)))) 1 =
      dart_result (dart_application (?v iref))" if "iref \<in> set wanted" for iref
  proof -
    have "length (enc_value (InstalledApp_val (?v iref))) < 2 ^ 63"
      using assms(3) that by (auto simp: ps post_bytes_glaze write_binary_enc Suc_le_eq)
    then show ?thesis by (simp add: post_bytes_glaze write_binary_enc decode_application_frame)
  qed
  then have "outcomes decodeInstalledApp True ?items = map (\<lambda>iref. dart_result (dart_application (?v iref))) wanted"
    by (simp add: outcomes_def filter_map comp_def post_bytes_glaze)
  moreover have "\<forall>x \<in> set ?items. is_item p x" by auto
  ultimately show ?thesis
    using collecting_stream [of ?items p decodeInstalledApp True FlatpakNotFoundException]
    by (simp add: listApplications_def ps dart_result_values)
qed

theorem list_applications_gives_the_apps_witness:
  "\<exists>ps a. list_apps example_lib 5 False = Some ps \<and>
     ls_future (listApplications ps) = Value [a] \<and> fa_installedSize a = 7 \<and>
     fr_name (fa_ref a) = ascii ''a.B'' \<and> ls_thrown (listApplications ps) = []"
proof -
  have refs: "lf_list_installed_refs example_lib = Inr [example_runtime, example_app]"
    by (simp add: example_lib_def)
  let ?ps = "[post_glaze 5 0x01 (InstalledApp_val (fill_app ''app'' example_app)), post_sentinel 5]"
  have run: "list_apps example_lib 5 False = Some ?ps"
    by (simp add: list_apps_def refs example_runtime_def example_app_def)
  have len: "\<forall>x \<in> set ?ps. length (post_bytes x) \<le> 2 ^ 63"
    by (simp add: post_bytes_glaze wire_simps InstalledApp_val_def FpRef_val_def fill_app_def fill_ref_def
        example_app_def enc_string_def)
  obtain a where a: "dart_application (fill_app ''app'' example_app) = Some a"
    "fa_installedSize a = 7" "fr_name (fa_ref a) = ascii ''a.B''"
    by (simp add: dart_application_def dart_ref_def fill_app_def fill_ref_def example_app_def
        dart_text_def utf8_decode_ascii)
  have wanted: "[example_app] = filter (\<lambda>iref. False \<or> ref_kind iref = FLATPAK_REF_KIND_APP)
      [example_runtime, example_app]" and kind: "kind_str (ref_kind example_app) = ''app''"
    by (simp_all add: example_runtime_def example_app_def)
  from list_applications_gives_the_apps [OF refs run len wanted] run show ?thesis
    by (simp add: kind a List.map_filter_def)
qed

text \<open>
  C12. \<open>FlatpakRemoteManager.modify\<close> end to end. Of what the caller gives, these reach the named
  remote: the non-empty texts (each up to its first NUL), non-empty key data, the three flags,
  and a priority that is not negative as a 32-bit number. These are dropped without notice: the
  subset, \<open>gpgKeyPath\<close>, an empty text, which so clears nothing, and a negative priority. Every
  other member of the remote stays as it was (\<open>changed_remote\<close>, field by field). The future
  completes when libflatpak took the change, and otherwise fails with libflatpak's message if
  that is UTF-8; if it is not, the future stays pending.
\<close>

theorem dart_changes_reach_the_remote:
  assumes "region_ok g" "rg_bytes g = encodeRemoteConfig changes" "fits_RemoteConfig al (native_config changes)"
    "rl_get_remote rl name s = Inr remote"
    "rl_modify_remote rl (changed_remote changes remote) s = (answer, s')" "sets_error answer"
  shows "\<exists>ps. flatpak_user_remote_modify al rl name (Some g)
      (int (length (encodeRemoteConfig changes))) p s = (Some ps, s') \<and>
    ls_future (listenForResult ps) =
      (case answer of
         Inr _ \<Rightarrow> Value ()
       | Inl err \<Rightarrow> (case dart_text (wire_msg (g_message (the err))) of
           None \<Rightarrow> Pending
         | Some text' \<Rightarrow> Error (FlatpakRemoteException text')))"
proof -
  have config: "decode_config al (Some g) (int (length (encodeRemoteConfig changes))) = native_config changes"
    by (rule decode_config_wire [where junk = "[]"]) (use assms(1-3) in \<open>simp_all add: encodeRemoteConfig_wire\<close>)
  have "ls_future (listenForResult [post_ok p]) = Value ()"
    by (simp add: listenForResult_def deliver_open result_handler_def post_ok_def)
  moreover have "ls_future (listenForResult [post_error p msg]) =
      (case dart_text (wire_msg msg) of None \<Rightarrow> Pending | Some t \<Rightarrow> Error (FlatpakRemoteException t))" for msg
    unfolding listenForResult_def handlers_fail
    by (simp add: failed_listener_def listener_new_def split: option.splits)
  ultimately show ?thesis
    using assms(4-6) apply_native_config [of remote changes]
    by (auto simp: flatpak_user_remote_modify_def config post_result_def sets_error_def Let_def
        split: sum.splits option.splits)
qed

definition example_changes :: FlatpakRemoteConfig where
  "example_changes =
     \<lparr>rc_url = None, rc_title = Some (ascii ''T''), rc_comment = Some [], rc_homepage = None,
      rc_defaultBranch = None, rc_gpgKeyPath = Some (ascii ''/k''), rc_gpgKeyData = None,
      rc_subset = Some Subset_floss, rc_collectionId = None, rc_filter = Some [], rc_priority = None,
      rc_gpgVerify = None, rc_disabled = Some True, rc_noDeps = None\<rparr>"

lemma char_of_84: "char_of (84 :: nat) = CHR ''T''"
  by code_simp

theorem dart_changes_reach_the_remote_witness:
  "\<exists>ps. flatpak_user_remote_modify example_allocator example_remote_library ''hub''
     (Some \<lparr>rg_base = 4096, rg_bytes = encodeRemoteConfig example_changes\<rparr>)
     (int (length (encodeRemoteConfig example_changes))) 5 (Some example_remote) =
   (Some ps, Some (example_remote\<lparr>remote_title := Some ''T'', remote_disabled := True\<rparr>)) \<and>
   ls_future (listenForResult ps) = Value ()"
proof -
  let ?g = "\<lparr>rg_base = 4096, rg_bytes = encodeRemoteConfig example_changes\<rparr>"
  have ok: "region_ok ?g"
    by (simp add: region_ok_def encodeRemoteConfig_def example_changes_def writeString_def writeInt32_def
        writeInt8_def writeByteVector_def or_empty_def utf8_encode_def rune_bytes_def utf8_units_def
        is_surrogate_def ascii_def Let_def)
  have fits: "fits_RemoteConfig example_allocator (native_config example_changes)"
    by (simp add: fits_RemoteConfig_def str_fits_def vec_fits_def example_allocator_def native_config_def
        example_changes_def native_text_def or_empty_def utf8_encode_def rune_bytes_def utf8_units_def
        is_surrogate_def ascii_def)
  have "changed_remote example_changes example_remote =
      example_remote\<lparr>remote_title := Some ''T'', remote_disabled := True\<rparr>"
    by (simp add: changed_remote_def given_text_def given_flag_def example_changes_def example_remote_def
        utf8_encode_def rune_bytes_def utf8_units_def is_surrogate_def ascii_def string_of_def
        char_of_byte_def c_str_def char_of_84)
  moreover from dart_changes_reach_the_remote [OF ok _ fits example_remote_library_simps, where p = 5]
  have "\<exists>ps. flatpak_user_remote_modify example_allocator example_remote_library ''hub'' (Some ?g)
      (int (length (encodeRemoteConfig example_changes))) 5 (Some example_remote) =
      (Some ps, Some (changed_remote example_changes example_remote)) \<and>
    ls_future (listenForResult ps) = Value ()"
    by (simp add: sets_error_def)
  ultimately show ?thesis by simp
qed

text \<open>
  A transaction as its caller sees it: the progress stream carries the reports of the run in
  their order (but for one with a text that is not UTF-8), and the result completes after the
  last of them when \<open>flatpak_transaction_run\<close> succeeded, with the stream closed. Otherwise the
  result and the stream fail with its message, if that is UTF-8, and the stream is left open.
\<close>

lemma dart_transaction_reports:
  assumes "tl_run lib on_ready on_choose_remote_for_ref (px_ops item) cancelled (px_cancel item) = (sigs, result)"
    "sets_error result" "tx_execute lib cancelled item = Some ps"
    "\<forall>x \<in> set ps. length (post_bytes x) \<le> 2 ^ 63"
  shows "\<exists>reports. butlast ps = map (progress_frame (px_port item)) reports \<and>
    (let l = transaction_listener ps; seen = map Inr (List.map_filter dart_progress reports)
     in case result of
          Inr _ \<Rightarrow> ls_future l = Value () \<and> ps_events (ls_local l) = seen \<and> ps_closed (ls_local l)
        | Inl err \<Rightarrow>
            \<not> ps_closed (ls_local l) \<and>
            (case dart_text (wire_msg (g_message (the err))) of
               None \<Rightarrow> ls_future l = Pending \<and> ps_events (ls_local l) = seen
             | Some msg \<Rightarrow> ls_future l = Error (FlatpakTransactionException msg) \<and>
                 ps_events (ls_local l) = seen @ [Inl (FlatpakTransactionException msg)]))"
proof -
  let ?last = "case result of Inr _ \<Rightarrow> tx_post_sentinel (px_port item)
    | Inl err \<Rightarrow> post_error (px_port item) (g_message (the err))"
  obtain reports where frames: "run_signals (px_port item) (\<lambda>_. []) sigs = map (progress_frame (px_port item)) reports"
    using run_signals_reports [of "\<lambda>_. []"] by auto
  have ps: "ps = map (progress_frame (px_port item)) reports @ [?last]"
    using assms(1-3) frames
    by (auto simp: tx_execute_def sets_error_def Let_def split: sum.splits option.splits)
  let ?l = "listen transaction_handler (listener_new \<lparr>ps_events = [], ps_closed = False\<rparr>)
    (map (progress_frame (px_port item)) reports)"
  have l: "ls_open ?l" "ls_future ?l = Pending" "\<not> ps_closed (ls_local ?l)"
    "ps_events (ls_local ?l) = map Inr (List.map_filter dart_progress reports)"
    using transaction_reports [of "listener_new \<lparr>ps_events = [], ps_closed = False\<rparr>" reports "px_port item"]
      assms(4) by (simp_all add: ps)
  have "transaction_listener ps = deliver transaction_handler ?l (post_bytes ?last)"
    by (simp add: transaction_listener_def ps)
  moreover have "butlast ps = map (progress_frame (px_port item)) reports" by (simp add: ps)
  ultimately show ?thesis
    using l transaction_ends [OF l(1,2)]
    by (intro exI [of _ reports]) (auto simp: Let_def split: sum.splits option.splits)
qed

lemma dart_transaction_reports_witness:
  "tx_execute example_tx_library {2} (example_tx 2) = Some [post_error 5 ''cancelled''] \<and>
   ls_future (transaction_listener [post_error 5 ''cancelled'']) =
     Error (FlatpakTransactionException (ascii ''cancelled''))"
proof -
  have run: "tl_run example_tx_library on_ready on_choose_remote_for_ref (px_ops (example_tx 2)) {2}
      (px_cancel (example_tx 2)) = ([], Inl (Some \<lparr>g_domain = 1, g_code = 19, g_message = ''cancelled''\<rparr>))"
    by (simp add: example_tx_library_def example_tx_def)
  have ran: "tx_execute example_tx_library {2} (example_tx 2) = Some [post_error 5 ''cancelled'']"
    by (simp add: tx_execute_def run Let_def) (simp add: example_tx_def)
  have len: "\<forall>x \<in> set [post_error 5 ''cancelled'']. length (post_bytes x) \<le> 2 ^ 63"
    by (simp add: post_error_def post_bytes_framed_error wire_msg_def c_str_def)
  have "dart_text (wire_msg ''cancelled'') = Some (ascii ''cancelled'')"
    by (simp add: wire_msg_def c_str_def dart_text_def utf8_decode_ascii)
  with dart_transaction_reports [OF run _ ran len] show ?thesis
    by (simp add: ran sets_error_def Let_def)
qed

end
