(* ===== verification/Launch.thy ===== *)
theory Launch
  imports Installation_Reader Work_Queue
begin

text \<open>
  The launch side of native/src/installation_reader.cpp: resolving the ref to launch, the
  bounded wait for the child pid and launch_impl, with the reply contract it meets. The thread
  that runs launch_impl is in \<open>Reader_Queues\<close>.
\<close>

section \<open>Resolving the target\<close>

text \<open>
  The scan: \<open>found\<close> and the two out-strings. Assigning a NULL \<open>const char*\<close> to a
  \<open>std::string\<close> is undefined, \<open>None\<close>.
\<close>

fun resolve_loop ::
    "string \<Rightarrow> cstr \<Rightarrow> cstr \<Rightarrow> cstr \<Rightarrow> FlatpakInstalledRef list \<Rightarrow> bool \<times> string \<times> string \<Rightarrow>
     (bool \<times> string \<times> string) option" where
  "resolve_loop app_id hint_arch hint_branch default_arch [] out = Some out"
| "resolve_loop app_id hint_arch hint_branch default_arch (iref # refs) out =
     (let a = ref_arch iref; b = ref_branch iref;
          next = resolve_loop app_id hint_arch hint_branch default_arch refs
      in if ref_kind iref \<noteq> FLATPAK_REF_KIND_APP then next out
         else if ref_name iref \<noteq> Some app_id then next out
         else if hint_arch \<noteq> None \<and> a \<noteq> hint_arch then next out
         else if hint_branch \<noteq> None \<and> b \<noteq> hint_branch then next out
         else case (if \<not> fst out \<or> (hint_arch = None \<and> a = default_arch)
                    then (case (a, b) of (Some a, Some b) \<Rightarrow> Some (True, a, b) | _ \<Rightarrow> None)
                    else Some out) of
                None \<Rightarrow> None
              | Some out \<Rightarrow> if a = default_arch then Some out else next out)"

datatype resolution =
    Resolved string string
  | Unresolved string

definition resolve_launch_target ::
    "libflatpak \<Rightarrow> string \<Rightarrow> cstr \<Rightarrow> cstr \<Rightarrow> resolution option" where
  "resolve_launch_target fp app_id hint_arch hint_branch =
     (let scan =
        (case lf_list_installed_refs fp of
           Inl lerr \<Rightarrow> Some (Unresolved (err_or lerr ''failed to list installed refs''))
         | Inr refs \<Rightarrow>
             (case resolve_loop app_id hint_arch hint_branch (lf_get_default_arch fp) refs
                     (False, '''', '''') of
                None \<Rightarrow> None
              | Some (found, a, b) \<Rightarrow> Some (if found then Resolved a b else Unresolved '''')))
      in case lf_get_current_installed_app fp app_id of
           Inl _ \<Rightarrow> scan
         | Inr current \<Rightarrow>
             (let a = ref_arch current; b = ref_branch current;
                  arch_ok = (hint_arch = None \<or> a = hint_arch);
                  branch_ok = (hint_branch = None \<or> b = hint_branch)
              in if arch_ok \<and> branch_ok
                 then (case (a, b) of (Some a, Some b) \<Rightarrow> Some (Resolved a b) | _ \<Rightarrow> None)
                 else scan))"

section \<open>Waiting for the child pid\<close>

definition kMaxWaitMs :: nat where "kMaxWaitMs = 500"
definition kMaxBackoffMs :: nat where "kMaxBackoffMs = 64"

text \<open>
  One enumeration: whether an instance with the id was seen, and its child pid if positive.
  The scan stops at the first instance with the id.
\<close>

fun probe_loop :: "string \<Rightarrow> FlatpakInstance list \<Rightarrow> bool \<times> i32 option" where
  "probe_loop instance_id [] = (False, None)"
| "probe_loop instance_id (inst # all) =
     (if inst_id inst \<noteq> Some instance_id then probe_loop instance_id all
      else (True, if 0 <s inst_child_pid inst then Some (inst_child_pid inst) else None))"

text \<open>
  The polling loop. \<open>probes k\<close> is what the \<open>k\<close>-th enumeration returns and \<open>cancelled k\<close> the
  stop flag read after it; the result is the pid, the enumerations made and the
  milliseconds slept. A loop that never returned would be \<open>None\<close>.
\<close>

partial_function (option) reread_loop ::
    "(nat \<Rightarrow> FlatpakInstance list option) \<Rightarrow> (nat \<Rightarrow> bool) \<Rightarrow> string \<Rightarrow>
     nat \<Rightarrow> bool \<Rightarrow> nat \<Rightarrow> nat \<Rightarrow> (i32 \<times> nat \<times> nat) option" where
  "reread_loop probes cancelled instance_id k ever_seen waited delay_ms =
     (let (seen_now, child) =
            (case probes k of None \<Rightarrow> (False, None) | Some all \<Rightarrow> probe_loop instance_id all)
      in case child of
           Some c \<Rightarrow> Some (c, Suc k, waited)
         | None \<Rightarrow>
             if \<not> seen_now \<and> ever_seen then Some (0, Suc k, waited)
             else if waited \<ge> kMaxWaitMs \<or> cancelled k then Some (0, Suc k, waited)
             else let sleep_ms = min delay_ms (kMaxWaitMs - waited)
                  in reread_loop probes cancelled instance_id (Suc k) (ever_seen \<or> seen_now)
                       (waited + sleep_ms) (min (delay_ms * 2) kMaxBackoffMs))"

definition reread_child_pid ::
    "(nat \<Rightarrow> FlatpakInstance list option) \<Rightarrow> (nat \<Rightarrow> bool) \<Rightarrow> string \<Rightarrow> (i32 \<times> nat \<times> nat) option" where
  "reread_child_pid probes cancelled instance_id = reread_loop probes cancelled instance_id 0 False 0 1"

section \<open>launch_impl\<close>

record launcher =
  ln_launch_full :: "string \<Rightarrow> cstr \<Rightarrow> cstr \<Rightarrow> cstr \<Rightarrow> FlatpakInstance gresult"
  ln_probes :: "nat \<Rightarrow> FlatpakInstance list option"
  ln_cancelled :: "nat \<Rightarrow> bool"

text \<open>What it posts, and the pids it hands to the child reaper.\<close>

record launch_result =
  lr_posts :: "post list"
  lr_reaped :: "i32 list"

definition posted_only :: "post \<Rightarrow> launch_result option" where
  "posted_only x = Some \<lparr>lr_posts = [x], lr_reaped = []\<rparr>"

text \<open>From \<open>launch_full\<close> on, with the arguments decided.\<close>

definition launch_resolved ::
    "libflatpak \<Rightarrow> launcher \<Rightarrow> port \<Rightarrow> string \<Rightarrow> cstr \<Rightarrow> cstr \<Rightarrow> cstr \<Rightarrow> launch_result option" where
  "launch_resolved fp ln p app_id use_arch use_branch use_commit =
     (case ln_launch_full ln app_id use_arch use_branch use_commit of
        Inl err \<Rightarrow>
          (case err of
             Some e \<Rightarrow>
               if g_domain e = lf_FLATPAK_ERROR fp \<and> g_code e = lf_FLATPAK_ERROR_NOT_INSTALLED fp
               then posted_only (post_error p (g_message e))
               else posted_only (post_op_error p (g_message e))
           | None \<Rightarrow> posted_only (post_op_error p ''launch failed''))
      | Inr inst \<Rightarrow>
          (let outer_pid = inst_pid inst;
               reaped = (if 0 <s outer_pid then [outer_pid] else []);
               info = fill_instance inst
           in case (if \<not> 0 <s i_childPid info \<and> i_instanceId info \<noteq> ''''
                    then map_option fst
                           (reread_child_pid (ln_probes ln) (ln_cancelled ln) (i_instanceId info))
                    else Some (i_childPid info)) of
                None \<Rightarrow> None
              | Some child \<Rightarrow>
                  Some \<lparr>lr_posts = [post_glaze p 0x01 (FpInstance_val (info\<lparr>i_childPid := child\<rparr>)),
                                   post_sentinel p],
                        lr_reaped = reaped\<rparr>))"

definition launch_impl ::
    "libflatpak \<Rightarrow> launcher \<Rightarrow> port \<Rightarrow> string \<Rightarrow> string \<Rightarrow> string \<Rightarrow> string \<Rightarrow> launch_result option" where
  "launch_impl fp ln p app_id arch branch commit =
     (let use_arch = hint (Some arch); use_branch = hint (Some branch); use_commit = hint (Some commit)
      in if use_arch = None \<or> use_branch = None
         then (case resolve_launch_target fp app_id use_arch use_branch of
                 None \<Rightarrow> None
               | Some (Unresolved resolve_err) \<Rightarrow>
                   if resolve_err = '''' then posted_only (post_error p ''app not installed'')
                   else posted_only (post_op_error p resolve_err)
               | Some (Resolved resolved_arch resolved_branch) \<Rightarrow>
                   launch_resolved fp ln p app_id
                     (if use_arch = None then Some resolved_arch else use_arch)
                     (if use_branch = None then Some resolved_branch else use_branch) use_commit)
         else launch_resolved fp ln p app_id use_arch use_branch use_commit)"

section \<open>What the scan finds\<close>

definition launchable :: "string \<Rightarrow> cstr \<Rightarrow> cstr \<Rightarrow> FlatpakInstalledRef \<Rightarrow> bool" where
  "launchable app_id hint_arch hint_branch iref \<longleftrightarrow>
     ref_kind iref = FLATPAK_REF_KIND_APP \<and> ref_name iref = Some app_id \<and>
     (hint_arch = None \<or> ref_arch iref = hint_arch) \<and>
     (hint_branch = None \<or> ref_branch iref = hint_branch)"

definition named_target :: "FlatpakInstalledRef \<Rightarrow> bool" where
  "named_target iref \<longleftrightarrow> ref_arch iref \<noteq> None \<and> ref_branch iref \<noteq> None"

lemma resolve_loop_skip:
  "\<not> launchable app_id ha hb iref \<Longrightarrow>
     resolve_loop app_id ha hb d (iref # refs) out = resolve_loop app_id ha hb d refs out"
  by (auto simp: launchable_def Let_def)

lemma resolve_loop_take:
  "launchable app_id ha hb iref \<Longrightarrow> ref_arch iref = Some a \<Longrightarrow> ref_branch iref = Some b \<Longrightarrow>
     resolve_loop app_id ha hb d (iref # refs) out =
       (let out' = (if \<not> fst out \<or> (ha = None \<and> Some a = d) then (True, a, b) else out)
        in if Some a = d then Some out' else resolve_loop app_id ha hb d refs out')"
  by (auto simp: launchable_def Let_def)

text \<open>Once something is found, only the default architecture replaces it, and ends the scan.\<close>

lemma resolve_loop_found:
  assumes "\<forall>r \<in> set refs. launchable app_id ha hb r \<longrightarrow> named_target r"
  shows "resolve_loop app_id ha hb d refs (True, a, b) =
    Some (case filter (\<lambda>r. launchable app_id ha hb r \<and> ref_arch r = d \<and> ha = None) refs of
            [] \<Rightarrow> (True, a, b)
          | r # _ \<Rightarrow> (True, the (ref_arch r), the (ref_branch r)))"
  using assms
proof (induction refs)
  case Nil
  then show ?case by simp
next
  case (Cons r refs)
  show ?case
  proof (cases "launchable app_id ha hb r")
    case False
    with Cons show ?thesis by (simp add: resolve_loop_skip del: resolve_loop.simps)
  next
    case True
    with Cons.prems obtain x y where xy: "ref_arch r = Some x" "ref_branch r = Some y"
      by (auto simp: named_target_def)
    show ?thesis
    proof (cases "Some x = d")
      case True
      have none: "filter (\<lambda>r. launchable app_id ha hb r \<and> ref_arch r = d \<and> ha = None) refs = []"
        if "ha \<noteq> None" using that by simp
      show ?thesis
        by (subst resolve_loop_take [OF \<open>launchable app_id ha hb r\<close> xy])
          (use True xy none \<open>launchable app_id ha hb r\<close> in \<open>auto simp: Let_def\<close>)
    next
      case False
      then show ?thesis
        by (subst resolve_loop_take [OF \<open>launchable app_id ha hb r\<close> xy])
          (use Cons xy in \<open>simp add: Let_def\<close>)
    qed
  qed
qed

definition best_target :: "cstr \<Rightarrow> cstr \<Rightarrow> FlatpakInstalledRef list \<Rightarrow> FlatpakInstalledRef option" where
  "best_target hint_arch default_arch found =
     (case found of
        [] \<Rightarrow> None
      | first # _ \<Rightarrow>
          Some (if hint_arch \<noteq> None then first
                else case filter (\<lambda>r. ref_arch r = default_arch) found of
                       [] \<Rightarrow> first | preferred # _ \<Rightarrow> preferred))"

lemma resolve_loop_start:
  assumes "\<forall>r \<in> set refs. launchable app_id ha hb r \<longrightarrow> named_target r"
  shows "resolve_loop app_id ha hb d refs (False, '''', '''') =
    Some (case best_target ha d (filter (launchable app_id ha hb) refs) of
            None \<Rightarrow> (False, '''', '''')
          | Some r \<Rightarrow> (True, the (ref_arch r), the (ref_branch r)))"
  using assms
proof (induction refs)
  case Nil
  then show ?case by (simp add: best_target_def)
next
  case (Cons r refs)
  show ?case
  proof (cases "launchable app_id ha hb r")
    case False
    with Cons show ?thesis by (simp add: resolve_loop_skip del: resolve_loop.simps)
  next
    case True
    with Cons.prems obtain x y where xy: "ref_arch r = Some x" "ref_branch r = Some y"
      by (auto simp: named_target_def)
    have rest: "resolve_loop app_id ha hb d refs (True, x, y) =
        Some (case filter (\<lambda>r. launchable app_id ha hb r \<and> ref_arch r = d \<and> ha = None) refs of
            [] \<Rightarrow> (True, x, y)
          | r # _ \<Rightarrow> (True, the (ref_arch r), the (ref_branch r)))"
      using Cons.prems by (intro resolve_loop_found) simp
    have sub: "filter (\<lambda>r. ref_arch r = d) (filter (launchable app_id ha hb) refs) =
        filter (\<lambda>r. launchable app_id ha hb r \<and> ref_arch r = d) refs"
      by (simp add: conj_commute)
    show ?thesis
      by (subst resolve_loop_take [OF True xy])
        (use True xy rest sub in \<open>auto simp: Let_def best_target_def split: list.splits\<close>)
  qed
qed

section \<open>The wait is bounded\<close>

text \<open>The sleeps still ahead of the loop at a given point of its schedule.\<close>

function sleeps_left :: "nat \<Rightarrow> nat \<Rightarrow> nat" where
  "sleeps_left waited delay =
     (if waited \<ge> kMaxWaitMs \<or> delay = 0 then 0
      else Suc (sleeps_left (waited + min delay (kMaxWaitMs - waited)) (min (delay * 2) kMaxBackoffMs)))"
  by auto
termination
  by (relation "measure (\<lambda>(waited, _). kMaxWaitMs - waited)") (auto simp: kMaxWaitMs_def)

declare sleeps_left.simps [simp del]

lemma sleeps_left_start: "sleeps_left 0 (Suc 0) = 13"
  by (simp add: sleeps_left.simps kMaxWaitMs_def kMaxBackoffMs_def)

text \<open>What a pid returned after the probes up to \<open>n\<close> stands for.\<close>

definition published :: "(nat \<Rightarrow> FlatpakInstance list option) \<Rightarrow> string \<Rightarrow> nat \<Rightarrow> i32 \<Rightarrow> bool" where
  "published probes iid n c \<longleftrightarrow>
     (\<exists>j < n. \<exists>all inst. probes j = Some all \<and> inst \<in> set all \<and> inst_id inst = Some iid \<and>
        inst_child_pid inst = c \<and> 0 <s c)"

lemma probe_loop_child:
  "probe_loop iid all = (s, Some c) \<Longrightarrow>
     \<exists>inst. inst \<in> set all \<and> inst_id inst = Some iid \<and> inst_child_pid inst = c \<and> 0 <s c"
  by (induction all) (auto split: if_splits)

lemma reread_loop_returns:
  assumes "0 < delay" "waited \<le> kMaxWaitMs"
  shows "\<exists>c n w. reread_loop probes cancelled iid k seen waited delay = Some (c, n, w) \<and>
    n \<le> Suc (k + sleeps_left waited delay) \<and> w \<le> kMaxWaitMs \<and> (c = 0 \<or> published probes iid n c)"
  using assms
proof (induction waited delay arbitrary: k seen rule: sleeps_left.induct)
  case (1 waited delay)
  obtain s child where probe: "(case probes k of None \<Rightarrow> (False, None)
      | Some all \<Rightarrow> probe_loop iid all) = (s, child)"
    by (cases "case probes k of None \<Rightarrow> (False, None) | Some all \<Rightarrow> probe_loop iid all")
  consider (child) c where "child = Some c"
    | (stop) "child = None" "(\<not> s \<and> seen) \<or> waited \<ge> kMaxWaitMs \<or> cancelled k"
    | (loop) "child = None" "s \<or> \<not> seen" "\<not> waited \<ge> kMaxWaitMs" "\<not> cancelled k"
    by auto
  then show ?case
  proof cases
    case child
    with probe have "published probes iid (Suc k) c"
      unfolding published_def
      by (intro exI [of _ k]) (auto split: option.splits dest: probe_loop_child)
    with child probe 1(3) show ?thesis by (subst reread_loop.simps) (simp add: Let_def)
  next
    case stop
    with probe 1(3) show ?thesis by (subst reread_loop.simps) (auto simp: Let_def)
  next
    case loop
    let ?w = "waited + min delay (kMaxWaitMs - waited)"
    let ?d = "min (delay * 2) kMaxBackoffMs"
    have eq: "reread_loop probes cancelled iid k seen waited delay =
        reread_loop probes cancelled iid (Suc k) (seen \<or> s) ?w ?d"
      using loop probe by (subst reread_loop.simps) (auto simp: Let_def)
    have left: "sleeps_left waited delay = Suc (sleeps_left ?w ?d)"
      using loop 1(2) by (subst sleeps_left.simps) simp
    have "0 < ?d" "?w \<le> kMaxWaitMs" "\<not> (kMaxWaitMs \<le> waited \<or> delay = 0)"
      using loop 1(2,3) by (auto simp: kMaxBackoffMs_def)
    then obtain c n w where
      "reread_loop probes cancelled iid (Suc k) (seen \<or> s) ?w ?d = Some (c, n, w)"
      "n \<le> Suc (Suc k + sleeps_left ?w ?d)" "w \<le> kMaxWaitMs" "c = 0 \<or> published probes iid n c"
      using "1.IH" [where k = "Suc k" and seen = "seen \<or> s"] by blast
    with eq left show ?thesis by (metis add_Suc add_Suc_right)
  qed
qed

lemma reread_child_pid_returns:
  "\<exists>c n w. reread_child_pid probes cancelled iid = Some (c, n, w) \<and> n \<le> 14 \<and> w \<le> 500 \<and>
     (c = 0 \<or> published probes iid n c)"
  using reread_loop_returns [of 1 0 probes cancelled iid 0 False]
  by (simp add: reread_child_pid_def sleeps_left_start kMaxWaitMs_def)

section \<open>A launch keeps the reply protocol\<close>

lemma launch_resolved_posts:
  "launch_resolved fp ln p app_id a b c = Some res \<Longrightarrow> well_framed p (lr_posts res)"
  by (auto simp: launch_resolved_def posted_only_def Let_def
      split: sum.splits option.splits if_splits)

lemma launch_impl_posts:
  "launch_impl fp ln p app_id arch branch commit = Some res \<Longrightarrow> well_framed p (lr_posts res)"
  by (auto simp: launch_impl_def posted_only_def Let_def
      dest: launch_resolved_posts split: option.splits resolution.splits if_splits)

interpretation launching: reply_stream
    "\<lambda>p. map_option lr_posts (launch_impl fp ln p app_id arch branch commit)"
    for fp ln app_id arch branch commit
  by unfold_locales (auto dest: launch_impl_posts)

section \<open>A launch is defined\<close>

text \<open>Every app libflatpak lists has an architecture and a branch.\<close>

definition apps_named :: "libflatpak \<Rightarrow> string \<Rightarrow> bool" where
  "apps_named fp app_id \<longleftrightarrow>
     (\<forall>r. lf_get_current_installed_app fp app_id = Inr r \<longrightarrow> named_target r) \<and>
     (\<forall>refs r. lf_list_installed_refs fp = Inr refs \<longrightarrow> r \<in> set refs \<longrightarrow> named_target r)"

lemma resolve_defined:
  assumes "apps_named fp app_id"
  shows "resolve_launch_target fp app_id ha hb \<noteq> None"
proof -
  have scan: "\<exists>found a b. resolve_loop app_id ha hb (lf_get_default_arch fp) refs (False, '''', '''') =
      Some (found, a, b)" if "lf_list_installed_refs fp = Inr refs" for refs
    using assms that by (subst resolve_loop_start) (auto simp: apps_named_def split: option.splits)
  then show ?thesis
    using assms
    by (auto simp: resolve_launch_target_def apps_named_def named_target_def Let_def
        split: sum.splits option.splits dest: scan)
qed

lemma reread_not_None [simp]: "reread_child_pid probes cancelled iid \<noteq> None"
  using reread_child_pid_returns [of probes cancelled iid] by auto

lemma launch_resolved_defined [simp]: "launch_resolved fp ln p app_id a b c \<noteq> None"
  by (auto simp: launch_resolved_def posted_only_def Let_def simp del: not_None_eq
      split: sum.splits option.split)

lemma launch_defined:
  assumes "apps_named fp app_id"
  shows "launch_impl fp ln p app_id arch branch commit \<noteq> None"
  using resolve_defined [OF assms]
  by (auto simp: launch_impl_def posted_only_def Let_def simp del: not_None_eq
      split: option.split resolution.split)

section \<open>Properties\<close>

text \<open>
  C29. The wait for the child pid always returns: after at most 14 enumerations of the running
  instances and 500 ms of sleep, whatever they show and whenever the reader is closed; and a
  pid it returns is a positive child pid that one of them published for the launched instance.
\<close>

theorem child_pid_wait_is_bounded:
  "\<exists>c n w. reread_child_pid probes cancelled iid = Some (c, n, w) \<and> n \<le> 14 \<and> w \<le> 500 \<and>
     (c = 0 \<or> (\<exists>j < n. \<exists>all inst. probes j = Some all \<and> inst \<in> set all \<and>
        inst_id inst = Some iid \<and> inst_child_pid inst = c \<and> 0 <s c))"
  using reread_child_pid_returns unfolding published_def .

text \<open>
  C30. Where libflatpak knows no current app of that name, or one that does not fit the hints,
  the launch target is the first installed app of that name that fits them, except that an app for the default architecture comes before
  the others when no architecture was asked for; nothing matching is no error text, and an
  unreadable installation gives libflatpak's.
\<close>

theorem launch_target_choice:
  assumes "\<forall>r. lf_get_current_installed_app fp app_id = Inr r \<longrightarrow>
       hint_arch \<noteq> None \<and> ref_arch r \<noteq> hint_arch \<or> hint_branch \<noteq> None \<and> ref_branch r \<noteq> hint_branch"
    "\<forall>refs. lf_list_installed_refs fp = Inr refs \<longrightarrow>
       (\<forall>r \<in> set refs. ref_arch r \<noteq> None \<and> ref_branch r \<noteq> None)"
  shows "resolve_launch_target fp app_id hint_arch hint_branch = Some
    (case lf_list_installed_refs fp of
       Inl lerr \<Rightarrow> Unresolved (err_or lerr ''failed to list installed refs'')
     | Inr refs \<Rightarrow>
         (case filter (\<lambda>r. ref_kind r = FLATPAK_REF_KIND_APP \<and> ref_name r = Some app_id \<and>
                 (hint_arch = None \<or> ref_arch r = hint_arch) \<and>
                 (hint_branch = None \<or> ref_branch r = hint_branch)) refs of
            [] \<Rightarrow> Unresolved ''''
          | first # others \<Rightarrow>
              (let preferred = filter (\<lambda>r. hint_arch = None \<and> ref_arch r = lf_get_default_arch fp)
                                 (first # others);
                   r = hd (preferred @ [first])
               in Resolved (the (ref_arch r)) (the (ref_branch r)))))"
proof -
  have scan: "resolve_launch_target fp app_id hint_arch hint_branch =
      (case lf_list_installed_refs fp of
         Inl lerr \<Rightarrow> Some (Unresolved (err_or lerr ''failed to list installed refs''))
       | Inr refs \<Rightarrow>
           (case resolve_loop app_id hint_arch hint_branch (lf_get_default_arch fp) refs (False, '''', '''') of
              None \<Rightarrow> None
            | Some (found, a, b) \<Rightarrow> Some (if found then Resolved a b else Unresolved '''')))"
    using assms(1) by (auto simp: resolve_launch_target_def Let_def split: sum.split)
  show ?thesis
  proof (cases "lf_list_installed_refs fp")
    case (Inr refs)
    with assms(2) have named: "\<forall>r \<in> set refs. launchable app_id hint_arch hint_branch r \<longrightarrow> named_target r"
      by (auto simp: named_target_def)
    have "launchable app_id hint_arch hint_branch = (\<lambda>r. ref_kind r = FLATPAK_REF_KIND_APP \<and>
        ref_name r = Some app_id \<and> (hint_arch = None \<or> ref_arch r = hint_arch) \<and>
        (hint_branch = None \<or> ref_branch r = hint_branch))"
      by (simp add: launchable_def [abs_def])
    with Inr show ?thesis
      by (simp add: scan Let_def resolve_loop_start [OF named] best_target_def split: list.splits)
  qed (simp add: scan)
qed

definition example_other_arch :: FlatpakInstalledRef where
  "example_other_arch = example_app\<lparr>ref_arch := Some ''i386''\<rparr>"

definition example_not_current :: libflatpak where
  "example_not_current = example_lib\<lparr>lf_get_current_installed_app := (\<lambda>_. Inl (Some example_error)),
     lf_list_installed_refs := Inr [example_runtime, example_other_arch, example_app]\<rparr>"

theorem launch_target_choice_witness:
  "resolve_launch_target example_not_current ''a.B'' None None = Some (Resolved ''x86_64'' ''stable'') \<and>
   resolve_launch_target (example_not_current\<lparr>lf_get_current_installed_app := (\<lambda>_. Inr example_app)\<rparr>)
     ''a.B'' (Some ''i386'') None = Some (Resolved ''i386'' ''stable'')"
proof -
  let ?unfit = "example_not_current\<lparr>lf_get_current_installed_app := (\<lambda>_. Inr example_app)\<rparr>"
  have none: "\<forall>r. lf_get_current_installed_app example_not_current ''a.B'' = Inr r \<longrightarrow>
      (None :: cstr) \<noteq> None \<and> ref_arch r \<noteq> None \<or> (None :: cstr) \<noteq> None \<and> ref_branch r \<noteq> None"
    by (simp add: example_not_current_def)
  have unfit: "\<forall>r. lf_get_current_installed_app ?unfit ''a.B'' = Inr r \<longrightarrow>
      Some ''i386'' \<noteq> None \<and> ref_arch r \<noteq> Some ''i386'' \<or> (None :: cstr) \<noteq> None \<and> ref_branch r \<noteq> None"
    by (simp add: example_app_def)
  have named: "\<forall>refs. lf_list_installed_refs fp = Inr refs \<longrightarrow>
      (\<forall>r \<in> set refs. ref_arch r \<noteq> None \<and> ref_branch r \<noteq> None)" if "fp \<in> {example_not_current, ?unfit}" for fp
    using that by (auto simp: example_not_current_def example_runtime_def example_other_arch_def example_app_def)
  show ?thesis
    using launch_target_choice [OF none named] launch_target_choice [OF unfit named]
    by (simp add: example_not_current_def example_runtime_def example_other_arch_def example_app_def
        example_lib_def)
qed

definition example_instance :: FlatpakInstance where
  "example_instance =
     \<lparr>inst_app = Some ''a.B'', inst_runtime = None, inst_id = Some ''77'', inst_arch = Some ''x86_64'',
      inst_branch = Some ''stable'', inst_commit = None, inst_pid = 40, inst_child_pid = 0,
      inst_is_running = True\<rparr>"

definition example_launcher :: launcher where
  "example_launcher =
     \<lparr>ln_launch_full = (\<lambda>_ _ _ _. Inr example_instance),
      ln_probes = (\<lambda>k. if k < 2 then None else Some [example_instance\<lparr>inst_child_pid := 41\<rparr>]),
      ln_cancelled = (\<lambda>_. False)\<rparr>"

end
