(* ===== verification/Stop.thy ===== *)
theory Stop
  imports Installation_Reader
begin

text \<open>
  InstallationReader::stop and what it does to processes (native/src/installation_reader.cpp):
  the start time read from /proc, the choice between a pidfd and plain signals, the two
  escalation threads, and the scan over the running instances with its three replies. The
  kernel is a parameter: who runs under a pid at each system call, and what each call returns.
\<close>

section \<open>The start time of a process\<close>

text \<open>\<open>strrchr (s, ')')\<close> and the step past it.\<close>

definition after_last_paren :: "string \<Rightarrow> string option" where
  "after_last_paren s =
     (if CHR '')'' \<in> set s then Some (rev (takeWhile (\<lambda>c. c \<noteq> CHR '')'') (rev s))) else None)"

definition is_c_space :: "char \<Rightarrow> bool" where
  "is_c_space c \<longleftrightarrow> c \<in> {CHR '' '', CHR 0x09, CHR 0x0A, CHR 0x0B, CHR 0x0C, CHR 0x0D}"

definition is_c_digit :: "char \<Rightarrow> bool" where
  "is_c_digit c \<longleftrightarrow> 48 \<le> (of_char c :: nat) \<and> (of_char c :: nat) \<le> 57"

fun digits_val :: "nat \<Rightarrow> string \<Rightarrow> nat" where
  "digits_val acc [] = acc"
| "digits_val acc (c # cs) = (if is_c_digit c then digits_val (10 * acc + (of_char c - 48)) cs else acc)"

text \<open>
  \<open>strtoull (p, &end, 10)\<close>: \<open>None\<close> when \<open>end == p\<close> or \<open>errno == ERANGE\<close>; a minus sign negates
  in the unsigned type.
\<close>

definition strtoull :: "string \<Rightarrow> u64 option" where
  "strtoull p =
     (let q = dropWhile is_c_space p;
          neg = (take 1 q = ''-'');
          ds = (if take 1 q = ''-'' \<or> take 1 q = ''+'' then drop 1 q else q)
      in if ds = [] \<or> \<not> is_c_digit (hd ds) then None
         else if digits_val 0 ds \<ge> 2 ^ 64 then None
         else Some (if neg then - of_nat (digits_val 0 ds) else of_nat (digits_val 0 ds)))"

function scan_fields :: "string \<Rightarrow> nat \<Rightarrow> u64 option" where
  "scan_fields p field =
     (let q = dropWhile (\<lambda>c. c = CHR '' '') p
      in if q = [] then None
         else if Suc field = 22 then strtoull q
         else scan_fields (dropWhile (\<lambda>c. c \<noteq> CHR '' '') q) (Suc field))"
  by auto

lemma dropWhile_shrinks:
  assumes "dropWhile P p \<noteq> []"
  shows "length (dropWhile (\<lambda>c. \<not> P c) (dropWhile P p)) < length p"
proof -
  from assms obtain c cs where q: "dropWhile P p = c # cs" "\<not> P c"
    by (metis hd_dropWhile list.collapse)
  then have "length (dropWhile (\<lambda>c. \<not> P c) (dropWhile P p)) \<le> length cs"
    by (simp add: length_dropWhile_le)
  moreover have "length (c # cs) \<le> length p"
    using length_dropWhile_le [of P p] q by simp
  ultimately show ?thesis by simp
qed

termination scan_fields
  by (relation "measure (length \<circ> fst)") (use dropWhile_shrinks [of "\<lambda>c. c = CHR '' ''"] in auto)

declare scan_fields.simps [simp del]

definition read_start_time :: "string option \<Rightarrow> u64 option" where
  "read_start_time contents =
     (case contents of
        None \<Rightarrow> None
      | Some s \<Rightarrow>
          (case after_last_paren (c_str s) of
             None \<Rightarrow> None
           | Some p \<Rightarrow> scan_fields p 2))"

section \<open>Signalling one process\<close>

text \<open>
  The kernel as the calls see it, at the time of each: the process instance under a pid, the
  contents of its stat file, and what the calls return. A pidfd is the instance it pins.
\<close>

record kernel =
  kn_who :: "nat \<Rightarrow> i32 \<Rightarrow> nat option"
  kn_stat :: "nat \<Rightarrow> i32 \<Rightarrow> string option"
  kn_pidfd_open :: "nat \<Rightarrow> i32 \<Rightarrow> int + nat"
  kn_pidfd_signal :: "nat \<Rightarrow> nat \<Rightarrow> bool"
  kn_kill :: "nat \<Rightarrow> i32 \<Rightarrow> bool"
  kn_ESRCH :: int

datatype sig_effect =
    TermPinned nat
  | TermPid i32
  | EscalatePinned nat
  | EscalateFallback i32 u64 bool
  | ClosePinned nat

definition signal_instance_process :: "kernel \<Rightarrow> nat \<Rightarrow> i32 \<Rightarrow> bool \<times> sig_effect list" where
  "signal_instance_process kn t pid =
     (let start_before = read_start_time (kn_stat kn t pid);
          have_start = (start_before \<noteq> None)
      in case kn_pidfd_open kn (t + 1) pid of
           Inr pidfd \<Rightarrow>
             (let start_after = read_start_time (kn_stat kn (t + 2) pid)
              in if have_start \<and> (start_after = None \<or> start_after \<noteq> start_before)
                 then (False, [ClosePinned pidfd])
                 else if \<not> kn_pidfd_signal kn (t + 3) pidfd then (False, [ClosePinned pidfd])
                 else (True, [TermPinned pidfd, EscalatePinned pidfd]))
         | Inl errno \<Rightarrow>
             (if errno = kn_ESRCH kn then (False, [])
              else if \<not> kn_kill kn (t + 2) pid then (False, [])
              else (True, [TermPid pid,
                     EscalateFallback pid (case start_before of None \<Rightarrow> 0 | Some s \<Rightarrow> s) have_start])))"

section \<open>The escalation threads\<close>

datatype poll_result = PollReady | PollTimeout | PollEintr | PollFailed

text \<open>
  \<open>time_left k\<close> is the time to the deadline before the \<open>k\<close>-th poll and \<open>polls k\<close> its result;
  the value is whether SIGKILL is sent.
\<close>

partial_function (option) escalate_loop ::
    "(nat \<Rightarrow> int) \<Rightarrow> (nat \<Rightarrow> poll_result) \<Rightarrow> nat \<Rightarrow> bool option" where
  "escalate_loop time_left polls k =
     (let timeout_ms = (if time_left k > 0 then time_left k else 0)
      in case polls k of
           PollEintr \<Rightarrow> if timeout_ms = 0 then Some False else escalate_loop time_left polls (Suc k)
         | PollTimeout \<Rightarrow> Some True
         | PollReady \<Rightarrow> Some False
         | PollFailed \<Rightarrow> Some False)"

definition stop_escalate_thread :: "(nat \<Rightarrow> int) \<Rightarrow> (nat \<Rightarrow> poll_result) \<Rightarrow> nat \<Rightarrow> (bool \<times> sig_effect list) option" where
  "stop_escalate_thread time_left polls pidfd =
     map_option (\<lambda>killed. (killed, [ClosePinned pidfd])) (escalate_loop time_left polls 0)"

text \<open>After the grace period; the value is whether the pid is sent SIGKILL.\<close>

definition fallback_escalate_thread :: "kernel \<Rightarrow> nat \<Rightarrow> i32 \<Rightarrow> u64 \<Rightarrow> bool \<Rightarrow> bool" where
  "fallback_escalate_thread kn t pid start_time have_start =
     (if \<not> kn_kill kn t pid then False
      else let now = read_start_time (kn_stat kn (t + 1) pid)
           in \<not> (have_start \<and> now \<noteq> Some start_time))"

section \<open>stop\<close>

record stop_state =
  st_matched :: nat
  st_signalled :: nat
  st_targets :: "i32 list"
  st_effects :: "sig_effect list"
  st_time :: nat

fun stop_loop :: "kernel \<Rightarrow> string \<Rightarrow> FlatpakInstance list \<Rightarrow> stop_state \<Rightarrow> stop_state" where
  "stop_loop kn app_id [] st = st"
| "stop_loop kn app_id (inst # instances) st =
     (if inst_app inst \<noteq> Some app_id then stop_loop kn app_id instances st
      else if \<not> inst_is_running inst then stop_loop kn app_id instances st
      else
        let st = st\<lparr>st_matched := Suc (st_matched st)\<rparr>;
            target = (if inst_child_pid inst \<le>s 0 then inst_pid inst else inst_child_pid inst)
        in if target \<le>s 0 then stop_loop kn app_id instances st
           else (case signal_instance_process kn (st_time st) target of
                   (ok, effects) \<Rightarrow>
                     stop_loop kn app_id instances
                       (st\<lparr>st_signalled := st_signalled st + (if ok then 1 else 0),
                           st_targets := st_targets st @ [target],
                           st_effects := st_effects st @ effects,
                           st_time := st_time st + 4\<rparr>)))"

definition stop_start :: "stop_state" where
  "stop_start = \<lparr>st_matched = 0, st_signalled = 0, st_targets = [], st_effects = [], st_time = 0\<rparr>"

definition stop :: "libflatpak \<Rightarrow> kernel \<Rightarrow> port \<Rightarrow> string \<Rightarrow> post list \<times> stop_state" where
  "stop fp kn p app_id =
     (let st = (case lf_instance_get_all fp of
                  None \<Rightarrow> stop_start
                | Some instances \<Rightarrow> stop_loop kn app_id instances stop_start)
      in (if st_matched st = 0 then [post_error p ''no running instance for app_id'']
          else if st_signalled st = 0
            then [post_op_error p ''matched running instance(s) but could not signal any'']
          else [post_sentinel p], st))"

interpretation stopping: reply_stream "\<lambda>p. Some (fst (stop fp kn p app_id))" for fp kn app_id
  by unfold_locales (auto simp: stop_def Let_def split: if_splits)

section \<open>Reading a decimal number back\<close>

lemma is_c_digit_char: "d < (10 :: nat) \<Longrightarrow> is_c_digit (char_of (48 + d)) \<and> (of_char (char_of (48 + d) :: char) :: nat) = 48 + d"
  by (simp add: is_c_digit_def)

lemma nat_str_digits: "c \<in> set (nat_str n) \<Longrightarrow> is_c_digit c"
proof (induction n rule: nat_str.induct)
  case (1 n)
  then show ?case
    using is_c_digit_char [of n] is_c_digit_char [of "n mod 10"]
    by (subst (asm) nat_str.simps) (auto split: if_splits)
qed

lemma nat_str_nonempty [simp]: "nat_str n \<noteq> []"
  by (subst nat_str.simps) simp

lemma digits_val_append:
  "\<forall>c \<in> set ds. is_c_digit c \<Longrightarrow> digits_val acc (ds @ rest) = digits_val (digits_val acc ds) rest"
  by (induction ds arbitrary: acc) auto

lemma digits_val_nat_str: "digits_val 0 (nat_str n) = n"
proof (induction n rule: nat_str.induct)
  case (1 n)
  show ?case
  proof (cases "n < 10")
    case True
    then show ?thesis using is_c_digit_char [of n] by (subst nat_str.simps) simp
  next
    case False
    then have "digits_val 0 (nat_str n) = digits_val (n div 10) [char_of (48 + n mod 10)]"
      using 1 nat_str_digits by (subst nat_str.simps) (simp add: digits_val_append)
    also have "\<dots> = n" using is_c_digit_char [of "n mod 10"] by simp
    finally show ?thesis .
  qed
qed

lemma digit_not_space: "is_c_digit c \<Longrightarrow> \<not> is_c_space c \<and> c \<noteq> CHR ''-'' \<and> c \<noteq> CHR ''+''"
  by (auto simp: is_c_digit_def is_c_space_def)

lemma strtoull_nat_str:
  assumes "n < 2 ^ 64" "rest = [] \<or> \<not> is_c_digit (hd rest)"
  shows "strtoull (nat_str n @ rest) = Some (of_nat n)"
proof -
  obtain c cs where c: "nat_str n = c # cs" by (cases "nat_str n") auto
  then have "is_c_digit c" using nat_str_digits [of c n] by simp
  note d = this digit_not_space [OF this]
  have "digits_val (digits_val 0 (nat_str n)) rest = n"
    using assms(2) by (cases rest) (auto simp: digits_val_nat_str)
  then have "digits_val 0 (nat_str n @ rest) = n"
    using nat_str_digits by (simp add: digits_val_append)
  with d assms(1) show ?thesis by (simp add: strtoull_def c Let_def del: digits_val.simps)
qed

section \<open>The fields of a stat line\<close>

fun spaced :: "string list \<Rightarrow> string" where
  "spaced [] = []"
| "spaced (f # fs) = CHR '' '' # f @ spaced fs"

definition stat_line :: "string \<Rightarrow> string list \<Rightarrow> string" where
  "stat_line start toks = start @ CHR '')'' # spaced toks"

lemma skip_field:
  "CHR '' '' \<notin> set f \<Longrightarrow> dropWhile (\<lambda>c. c \<noteq> CHR '' '') (f @ spaced fs) = spaced fs"
  by (induction f) (cases fs; auto)+

lemma scan_fields_step:
  assumes "f \<noteq> []" "CHR '' '' \<notin> set f"
  shows "scan_fields (spaced (f # fs)) field =
    (if Suc field = 22 then strtoull (f @ spaced fs) else scan_fields (spaced fs) (Suc field))"
proof -
  have "dropWhile (\<lambda>c. c = CHR '' '') (spaced (f # fs)) = f @ spaced fs"
    using assms by (cases f) auto
  with assms show ?thesis
    by (subst scan_fields.simps) (simp add: skip_field Let_def del: spaced.simps)
qed

lemma scan_fields_nth:
  assumes "\<forall>f \<in> set fs. f \<noteq> [] \<and> CHR '' '' \<notin> set f" "k < length fs" "field + k = 21"
  shows "scan_fields (spaced fs) field = strtoull (fs ! k @ spaced (drop (Suc k) fs))"
  using assms
proof (induction fs arbitrary: k field)
  case (Cons f fs)
  then show ?case
    by (cases k) (simp_all add: scan_fields_step del: spaced.simps)
qed simp

lemma after_last_paren_append:
  assumes "CHR '')'' \<notin> set r"
  shows "after_last_paren (h @ CHR '')'' # r) = Some r"
proof -
  have "takeWhile (\<lambda>c. c \<noteq> CHR '')'') (rev r @ CHR '')'' # rev h) = rev r"
    using assms by (subst takeWhile_append2) auto
  then show ?thesis by (simp add: after_last_paren_def)
qed

section \<open>What stop adds up\<close>

definition is_term :: "sig_effect \<Rightarrow> bool" where
  "is_term e \<longleftrightarrow> (case e of TermPinned _ \<Rightarrow> True | TermPid _ \<Rightarrow> True | _ \<Rightarrow> False)"

definition stop_target :: "FlatpakInstance \<Rightarrow> i32" where
  "stop_target i = (if 0 <s inst_child_pid i then inst_child_pid i else inst_pid i)"

lemma sless_eq_zero: "(x :: i32) \<le>s 0 \<longleftrightarrow> \<not> 0 <s x"
  by (simp add: word_sle_eq word_sless_alt not_less)

lemma signal_terms:
  "signal_instance_process kn t pid = (ok, effects) \<Longrightarrow>
     length (filter is_term effects) = (if ok then 1 else 0)"
  by (auto simp: signal_instance_process_def is_term_def Let_def split: sum.splits if_splits)

lemma stop_loop_adds:
  fixes st :: stop_state
  assumes "running = filter (\<lambda>i. inst_app i = Some app_id \<and> inst_is_running i) insts"
  shows "st_matched (stop_loop kn app_id insts st) = st_matched st + length running"
    and "st_targets (stop_loop kn app_id insts st) =
      st_targets st @ filter (\<lambda>t. 0 <s t) (map stop_target running)"
    and "st_signalled st = length (filter is_term (st_effects st)) \<Longrightarrow>
      st_signalled (stop_loop kn app_id insts st) =
      length (filter is_term (st_effects (stop_loop kn app_id insts st)))"
  unfolding assms
  by (induction insts arbitrary: st)
    (auto simp: Let_def sless_eq_zero stop_target_def signal_terms split: prod.splits)

section \<open>Properties\<close>

text \<open>
  C34. On a stat line read_start_time returns field 22, whatever the command name in field 2
  contains, spaces and closing parentheses included.
\<close>

theorem start_time_is_field_22:
  assumes "contents = start @ '')'' @ concat (map (\<lambda>f. '' '' @ f) toks)"
    "CHR 0x00 \<notin> set contents" "\<forall>f \<in> set toks. f \<noteq> [] \<and> CHR '' '' \<notin> set f \<and> CHR '')'' \<notin> set f"
    "20 \<le> length toks" "toks ! 19 = nat_str n" "n < 2 ^ 64"
  shows "read_start_time (Some contents) = Some (of_nat n)"
proof -
  have "concat (map ((#) CHR '' '') toks) = spaced toks"
    by (induction toks) auto
  then have line: "contents = start @ CHR '')'' # spaced toks" by (simp add: assms(1))
  have "c_str contents = contents"
    using assms(2) by (auto simp: c_str_def takeWhile_eq_all_conv)
  moreover have "CHR '')'' \<notin> set (spaced toks)"
    using assms(3) by (induction toks) auto
  ultimately have "read_start_time (Some contents) = scan_fields (spaced toks) 2"
    by (simp add: read_start_time_def line after_last_paren_append)
  also have "\<dots> = strtoull (nat_str n @ spaced (drop 20 toks))"
    using scan_fields_nth [of toks 19 2] assms(3-5) by simp
  also have "\<dots> = Some (of_nat n)"
  proof (rule strtoull_nat_str [OF assms(6)])
    show "spaced (drop 20 toks) = [] \<or> \<not> is_c_digit (hd (spaced (drop 20 toks)))"
      by (cases "drop 20 toks") (simp_all add: is_c_digit_def)
  qed
  finally show ?thesis .
qed

theorem start_time_is_field_22_witness:
  "read_start_time (Some (''7 (a) b'' @ '')'' @ concat (map (\<lambda>f. '' '' @ f)
     [''S'', ''0'', ''0'', ''0'', ''0'', ''0'', ''0'', ''0'', ''0'', ''0'', ''0'', ''0'', ''0'', ''0'',
      ''0'', ''0'', ''0'', ''0'', ''0'', ''8231'', ''0'']))) = Some 8231"
proof -
  have n: "nat_str 8231 = ''8231''" by (simp add: nat_str.simps char_of_def bit_0)
  show ?thesis
    by (subst start_time_is_field_22 [OF refl, where n = 8231]) (simp_all add: n)
qed

text \<open>
  C25. With a pidfd, a process is sent SIGTERM only if it is the one whose start time was read
  first, provided the reads are truthful, processes that follow each other under a pid have
  different start times, and a process keeps its pid until it ends.
\<close>

theorem pinned_signal_hits_the_read_process:
  assumes "\<forall>u s. read_start_time (kn_stat kn u pid) = Some s \<longrightarrow>
      (\<exists>i. kn_who kn u pid = Some i \<and> started i = s)"
    "\<forall>u i. kn_pidfd_open kn u pid = Inr i \<longrightarrow> kn_who kn u pid = Some i"
    "\<forall>u v i j. kn_who kn u pid = Some i \<longrightarrow> kn_who kn v pid = Some j \<longrightarrow> started i = started j \<longrightarrow> i = j"
    "\<forall>u v w i. u \<le> v \<longrightarrow> v \<le> w \<longrightarrow> kn_who kn u pid = Some i \<longrightarrow> kn_who kn w pid = Some i \<longrightarrow>
      kn_who kn v pid = Some i"
    "read_start_time (kn_stat kn t pid) \<noteq> None"
    "TermPinned i \<in> set (snd (signal_instance_process kn t pid))"
  shows "kn_who kn t pid = Some i"
proof -
  obtain s where s: "read_start_time (kn_stat kn t pid) = Some s" using assms(5) by blast
  then have pinned: "kn_pidfd_open kn (t + 1) pid = Inr i"
    and after: "read_start_time (kn_stat kn (t + 2) pid) = Some s"
    using assms(6) by (auto simp: signal_instance_process_def Let_def split: sum.splits if_splits)
  obtain j where j: "kn_who kn t pid = Some j" "started j = s" using assms(1) s by blast
  obtain k where k: "kn_who kn (t + 2) pid = Some k" "started k = s" using assms(1) after by blast
  have "k = j" using assms(3) j k by blast
  then have "kn_who kn (t + 1) pid = Some j"
    using assms(4) [rule_format, of t "t + 1" "t + 2" j] j k by simp
  with assms(2) pinned j show ?thesis by force
qed

definition example_stat :: string where
  "example_stat = ''7 (a) b) S 0 0 0 0 0 0 0 0 0 0 0 0 0 0 0 0 0 0 8231 0''"

definition example_kernel :: kernel where
  "example_kernel =
     \<lparr>kn_who = (\<lambda>t pid. Some 3), kn_stat = (\<lambda>t pid. Some example_stat),
      kn_pidfd_open = (\<lambda>t pid. Inr 3), kn_pidfd_signal = (\<lambda>t i. True), kn_kill = (\<lambda>t pid. True),
      kn_ESRCH = 3\<rparr>"

lemma example_start: "read_start_time (Some example_stat) = Some 8231"
  by (simp add: read_start_time_def c_str_def after_last_paren_def example_stat_def scan_fields.simps
      strtoull_def is_c_space_def is_c_digit_def Let_def)

theorem pinned_signal_hits_the_read_process_witness:
  "kn_who example_kernel 0 7 = Some 3"
  by (rule pinned_signal_hits_the_read_process [where started = "\<lambda>_. 8231"])
    (auto simp: example_kernel_def example_start signal_instance_process_def)

definition recycling_kernel :: kernel where
  "recycling_kernel =
     \<lparr>kn_who = (\<lambda>t pid. if t = 0 then None else Some 4),
      kn_stat = (\<lambda>t pid. if t = 0 then None else Some example_stat),
      kn_pidfd_open = (\<lambda>t pid. if t = 0 then Inl 3 else Inr 4), kn_pidfd_signal = (\<lambda>t i. True),
      kn_kill = (\<lambda>t pid. True), kn_ESRCH = 3\<rparr>"

text \<open>
  The guard is off when the first read fails: if /proc/<pid>/stat cannot be read because
  the process has just ended, and the pid is taken by another process before the pidfd is
  opened, that other process is sent SIGTERM and the signal counts as delivered.
\<close>

lemma unread_start_time_leaves_signal_unguarded:
  "kn_who recycling_kernel 0 7 = None \<and>
   signal_instance_process recycling_kernel 0 7 = (True, [TermPinned 4, EscalatePinned 4])"
  by (simp add: recycling_kernel_def signal_instance_process_def read_start_time_def)

lemma escalate_loop_ends:
  assumes "time_left (k + n) \<le> 0"
  shows "\<exists>j b. k \<le> j \<and> j \<le> k + n \<and> escalate_loop time_left polls k = Some b \<and>
    (\<forall>i. k \<le> i \<and> i < j \<longrightarrow> polls i = PollEintr) \<and> (b \<longleftrightarrow> polls j = PollTimeout) \<and>
    (polls j = PollEintr \<longrightarrow> time_left j \<le> 0)"
  using assms
proof (induction n arbitrary: k)
  case 0
  then show ?case
    by (subst escalate_loop.simps) (auto simp: Let_def intro!: exI [of _ k] split: poll_result.splits)
next
  case (Suc n)
  show ?case
  proof (cases "polls k = PollEintr \<and> time_left k > 0")
    case True
    then have "escalate_loop time_left polls k = escalate_loop time_left polls (Suc k)"
      by (subst escalate_loop.simps) simp
    moreover obtain j b where "Suc k \<le> j" "j \<le> Suc k + n"
      "escalate_loop time_left polls (Suc k) = Some b"
      "\<forall>i. Suc k \<le> i \<and> i < j \<longrightarrow> polls i = PollEintr" "b \<longleftrightarrow> polls j = PollTimeout"
      "polls j = PollEintr \<longrightarrow> time_left j \<le> 0"
      using Suc.IH [of "Suc k"] Suc.prems by auto
    moreover from this True have "\<forall>i. k \<le> i \<and> i < j \<longrightarrow> polls i = PollEintr"
      by (metis Suc_leI le_neq_implies_less)
    ultimately show ?thesis by (intro exI [of _ j] exI [of _ b]) auto
  next
    case False
    then show ?thesis
      by (subst escalate_loop.simps) (auto simp: Let_def intro!: exI [of _ k] split: poll_result.splits)
  qed
qed

text \<open>
  C35. The escalation thread ends by the first poll made at or after the deadline: it polls on
  only while interrupted, sends SIGKILL exactly when the last poll timed out, and always
  closes the pidfd. (An interrupt on a poll at the deadline therefore ends it without SIGKILL.)
\<close>

theorem escalation_ends_by_the_deadline:
  assumes "time_left n \<le> 0"
  shows "\<exists>j b. j \<le> n \<and> stop_escalate_thread time_left polls pidfd = Some (b, [ClosePinned pidfd]) \<and>
    (\<forall>i < j. polls i = PollEintr) \<and> (b \<longleftrightarrow> polls j = PollTimeout) \<and>
    (polls j = PollEintr \<longrightarrow> time_left j \<le> 0)"
  using escalate_loop_ends [of time_left 0 n polls] assms by (auto simp: stop_escalate_thread_def)

theorem escalation_ends_by_the_deadline_witness:
  "stop_escalate_thread (\<lambda>k. 900 - 900 * int k) (\<lambda>k. PollEintr) 4 = Some (False, [ClosePinned 4])"
  using escalation_ends_by_the_deadline [of "\<lambda>k. 900 - 900 * int k" 1 "\<lambda>k. PollEintr" 4] by auto

text \<open>
  stop looks at the running instances of the app only, signals the child pid of each or
  else its outer pid, and no pid that is not positive; it replies 0x02 if there is none, 0x03
  if there are some but no SIGTERM was delivered, and the sentinel otherwise.
\<close>

lemma stop_replies:
  "let insts = (case lf_instance_get_all fp of None \<Rightarrow> [] | Some insts \<Rightarrow> insts);
       running = filter (\<lambda>i. inst_app i = Some app_id \<and> inst_is_running i) insts;
       (posts, st) = stop fp kn p app_id
   in st_targets st = filter (\<lambda>t. 0 <s t)
        (map (\<lambda>i. if 0 <s inst_child_pid i then inst_child_pid i else inst_pid i) running) \<and>
      posts = (if running = [] then [post_error p ''no running instance for app_id'']
        else if filter is_term (st_effects st) = []
          then [post_op_error p ''matched running instance(s) but could not signal any'']
        else [post_sentinel p])"
proof -
  define insts where "insts = (case lf_instance_get_all fp of None \<Rightarrow> [] | Some insts \<Rightarrow> insts)"
  define running where "running = filter (\<lambda>i. inst_app i = Some app_id \<and> inst_is_running i) insts"
  define st where "st = stop_loop kn app_id insts stop_start"
  have stop: "stop fp kn p app_id =
      (if st_matched st = 0 then [post_error p ''no running instance for app_id'']
       else if st_signalled st = 0
         then [post_op_error p ''matched running instance(s) but could not signal any'']
       else [post_sentinel p], st)"
    by (simp add: stop_def st_def insts_def Let_def split: option.splits)
  have "st_matched st = length running"
    "st_targets st = filter (\<lambda>t. 0 <s t) (map stop_target running)"
    "st_signalled st = length (filter is_term (st_effects st))"
    using stop_loop_adds [OF running_def, where kn = kn and st = stop_start] by (simp_all add: st_def stop_start_def)
  then show ?thesis
    unfolding Let_def insts_def [symmetric] running_def [symmetric] stop
    by (simp add: stop_target_def [abs_def])
qed

end
