(* ===== verification/Dart_Session.thy ===== *)
theory Dart_Session
  imports Dart_Client Launch Stop
begin

text \<open>
  Operations seen from the isolate that calls them. Many may be under way at once: threads of
  the bridge post to the ports of all of them while the event loop delivers what the VM has
  queued. The first part shows that each listener ends as it would alone; the others follow
  a launch, a stop and the submission of a transaction to the future the caller holds.
\<close>

section \<open>The isolate and the ports\<close>

text \<open>
  One operation is watched, with its port, its handler and its listener; the others are the rest of the world.
  A thread posts (the watched port takes the message while its listener is open; for another
  one the schedule says), the event loop takes the oldest message, or the VM runs a
  finalizer. A message that is no byte array is ignored, as the handlers do.
\<close>

datatype session_action = ThreadPosts "port \<Rightarrow> bool" post | EventTurn | Finalizer nat

definition event_turn ::
    "('r, 'a) handler \<Rightarrow> port \<Rightarrow> 'f bridge \<times> ('r, 'a) listener \<Rightarrow> 'f bridge \<times> ('r, 'a) listener" where
  "event_turn h p s =
     (case br_queue (fst s) of
        [] \<Rightarrow> s
      | (q, obj) # rest \<Rightarrow>
          ((fst s)\<lparr>br_queue := rest\<rparr>,
           if q = p then (case cobject_bytes obj of None \<Rightarrow> snd s | Some msg \<Rightarrow> deliver h (snd s) msg)
           else snd s))"

fun session_step ::
    "('r, 'a) handler \<Rightarrow> port \<Rightarrow> session_action \<Rightarrow> 'f bridge \<times> ('r, 'a) listener \<Rightarrow>
     ('f bridge \<times> ('r, 'a) listener) option" where
  "session_step h p (ThreadPosts others x) s =
     map_option (\<lambda>st. (st, snd s)) (run_post (\<lambda>q. if q = p then ls_open (snd s) else others q) x (fst s))"
| "session_step h p EventTurn s = Some (event_turn h p s)"
| "session_step h p (Finalizer i) s = map_option (\<lambda>st. (st, snd s)) (vm_finalize i (fst s))"

fun session_run ::
    "('r, 'a) handler \<Rightarrow> port \<Rightarrow> session_action list \<Rightarrow> 'f bridge \<times> ('r, 'a) listener \<Rightarrow>
     ('f bridge \<times> ('r, 'a) listener) option" where
  "session_run h p [] s = Some s"
| "session_run h p (a # as) s = Option.bind (session_step h p a s) (session_run h p as)"

fun thread_posts :: "session_action \<Rightarrow> post list" where
  "thread_posts (ThreadPosts _ x) = [x]"
| "thread_posts _ = []"

definition posts_to :: "port \<Rightarrow> session_action list \<Rightarrow> post list" where
  "posts_to p as = filter (\<lambda>x. post_port x = p) (concat (map thread_posts as))"

text \<open>What the VM still holds for a port.\<close>

definition queued_for :: "port \<Rightarrow> 'f bridge \<Rightarrow> byte list list" where
  "queued_for p st =
     concat (map (\<lambda>(q, obj). if q = p then (case cobject_bytes obj of None \<Rightarrow> [] | Some msg \<Rightarrow> [msg]) else [])
       (br_queue st))"

text \<open>The listener as it will be when all of that has been delivered.\<close>

definition settled_listener :: "('r, 'a) handler \<Rightarrow> port \<Rightarrow> 'f bridge \<times> ('r, 'a) listener \<Rightarrow> ('r, 'a) listener" where
  "settled_listener h p s = foldl (deliver h) (snd s) (queued_for p (fst s))"

lemma deliver_closed: "\<not> ls_open l \<Longrightarrow> foldl (deliver h) l msgs = l"
  by (induction msgs) (simp_all add: deliver_def)

lemma event_turn_settled: "settled_listener h p (event_turn h p s) = settled_listener h p s"
  by (auto simp: event_turn_def settled_listener_def queued_for_def
      split: list.splits option.splits)

text \<open>A finalizer leaves the queue alone.\<close>

lemma vm_finalize_queue: "vm_finalize i st = Some st' \<Longrightarrow> br_queue st' = br_queue st"
  by (auto simp: vm_finalize_def release_buffer_def delete_buffer_def split: if_splits option.splits)

lemma run_post_queue:
  assumes "run_post accepts x st = Some st'" "post_fits x"
  shows "queued_for p st' = queued_for p st @ (if post_port x = p \<and> accepts p then [post_bytes x] else [])"
  using assms
  by (cases x)
    (auto simp: post_owned_def post_copy_def Dart_PostCObject_DL_def delete_buffer_def post_fits_def
      queued_for_def unat_of_nat_lt Let_def split: option.splits if_splits prod.splits)

lemma session_step_settled:
  assumes "own_inv (fst s)" "\<forall>x \<in> set (thread_posts a). post_fits x"
  shows "\<exists>t. session_step h p a s = Some t \<and> own_inv (fst t) \<and>
    settled_listener h p t = listen h (settled_listener h p s) (filter (\<lambda>x. post_port x = p) (thread_posts a))"
proof (cases a)
  case (ThreadPosts others x)
  let ?accepts = "\<lambda>q. if q = p then ls_open (snd s) else others q"
  obtain st where st: "run_post ?accepts x (fst s) = Some st" "own_inv st"
    using own_inv_run_post [OF assms(1)] by blast
  have queue: "queued_for p st =
      queued_for p (fst s) @ (if post_port x = p \<and> ls_open (snd s) then [post_bytes x] else [])"
    using run_post_queue [OF st(1), of p] assms(2) ThreadPosts by simp
  have "settled_listener h p (st, snd s) = listen h (settled_listener h p s) (if post_port x = p then [x] else [])"
    by (cases "ls_open (snd s)") (simp_all add: settled_listener_def queue deliver_closed listen_closed)
  with st show ?thesis by (simp add: ThreadPosts)
next
  case EventTurn
  moreover have "own_inv (fst (event_turn h p s))"
    using assms(1) by (auto simp: event_turn_def own_inv_def dl_ready_def split: list.splits)
  ultimately show ?thesis by (simp add: event_turn_settled)
next
  case (Finalizer i)
  obtain st where st: "vm_finalize i (fst s) = Some st" "own_inv st"
    using own_inv_finalize [OF assms(1)] by blast
  with vm_finalize_queue [OF st(1)] show ?thesis
    by (simp add: Finalizer settled_listener_def queued_for_def)
qed

lemma session_run_settled:
  assumes "own_inv (fst s)" "\<forall>x \<in> set (concat (map thread_posts as)). post_fits x"
  shows "\<exists>t. session_run h p as s = Some t \<and> own_inv (fst t) \<and>
    settled_listener h p t = listen h (settled_listener h p s) (posts_to p as)"
  using assms
proof (induction as arbitrary: s)
  case Nil
  then show ?case by (simp add: posts_to_def)
next
  case (Cons a as)
  obtain t where t: "session_step h p a s = Some t" "own_inv (fst t)"
    "settled_listener h p t = listen h (settled_listener h p s) (filter (\<lambda>x. post_port x = p) (thread_posts a))"
    using session_step_settled [of s a h p] Cons.prems by auto
  from Cons.IH [OF t(2)] Cons.prems(2) t show ?case by (auto simp: posts_to_def)
qed

section \<open>What a launch has to answer\<close>

declare One_nat_def [simp del]

text \<open>What a future becomes of an error frame: its text decides, which may not be UTF-8.\<close>

definition failed_future :: "(dart_string \<Rightarrow> flatpak_exception) \<Rightarrow> string \<Rightarrow> 'a future" where
  "failed_future mk msg = (case dart_text (wire_msg msg) of None \<Rightarrow> Pending | Some s \<Rightarrow> Error (mk s))"

text \<open>A launch that started nothing: one frame, no pid for the reaper, and the future fails.\<close>

definition launch_fails ::
    "port \<Rightarrow> (dart_string \<Rightarrow> flatpak_exception) \<Rightarrow> string \<Rightarrow> launch_result \<Rightarrow> bool" where
  "launch_fails p mk msg res \<longleftrightarrow>
     (\<exists>x. lr_posts res = [x] \<and> post_port x = p) \<and> lr_reaped res = [] \<and>
     ls_future (dart_launch (lr_posts res)) = failed_future mk msg"

text \<open>
  A launch that started \<open>inst\<close>: one item and the sentinel, the outer pid for the reaper if it is
  positive, and the future gets the instance. Its child pid is the one \<open>launch_full\<close> knew, or
  else what the wait for it returned.
\<close>

definition launch_succeeds :: "launcher \<Rightarrow> port \<Rightarrow> FlatpakInstance \<Rightarrow> launch_result \<Rightarrow> bool" where
  "launch_succeeds ln p inst res \<longleftrightarrow>
     (\<exists>x. lr_posts res = [x, post_sentinel p] \<and> post_port x = p) \<and>
     lr_reaped res = (if 0 <s inst_pid inst then [inst_pid inst] else []) \<and>
     (\<exists>child.
        (if 0 <s inst_child_pid inst \<or> inst_id inst \<in> {None, Some ''''} then child = inst_child_pid inst
         else \<exists>probes slept. reread_child_pid (ln_probes ln) (ln_cancelled ln) (the (inst_id inst)) =
                Some (child, probes, slept)) \<and>
        ls_future (dart_launch (lr_posts res)) =
          (case dart_instance (fill_instance inst\<lparr>i_childPid := child\<rparr>) of
             Some x \<Rightarrow> Value x
           | None \<Rightarrow> Error (FlatpakLaunchException (ascii ''launch produced no instance''))))"

text \<open>
  The answer to a launch: an architecture or a branch that is not given is resolved first, and
  \<open>launch_full\<close> is asked only for a target that was.
\<close>

definition launch_answers ::
    "libflatpak \<Rightarrow> launcher \<Rightarrow> port \<Rightarrow> string \<Rightarrow> string \<Rightarrow> string \<Rightarrow> string \<Rightarrow> launch_result \<Rightarrow> bool" where
  "launch_answers fp ln p app_id arch branch commit res \<longleftrightarrow>
     (case (if arch = '''' \<or> branch = ''''
            then resolve_launch_target fp app_id (hint (Some arch)) (hint (Some branch))
            else Some (Resolved arch branch)) of
        None \<Rightarrow> False
      | Some (Unresolved why) \<Rightarrow>
          if why = '''' then launch_fails p FlatpakNotFoundException ''app not installed'' res
          else launch_fails p FlatpakLaunchException why res
      | Some (Resolved a b) \<Rightarrow>
          (case ln_launch_full ln app_id (Some (if arch = '''' then a else arch))
                  (Some (if branch = '''' then b else branch)) (hint (Some commit)) of
             Inl None \<Rightarrow> launch_fails p FlatpakLaunchException ''launch failed'' res
           | Inl (Some e) \<Rightarrow>
               if g_domain e = lf_FLATPAK_ERROR fp \<and> g_code e = lf_FLATPAK_ERROR_NOT_INSTALLED fp
               then launch_fails p FlatpakNotFoundException (g_message e) res
               else launch_fails p FlatpakLaunchException (g_message e) res
           | Inr inst \<Rightarrow> launch_succeeds ln p inst res))"

text \<open>The two kinds of error frame.\<close>

lemma launch_fails_posts:
  "launch_fails p FlatpakNotFoundException msg \<lparr>lr_posts = [post_error p msg], lr_reaped = []\<rparr>"
  "launch_fails p FlatpakLaunchException msg \<lparr>lr_posts = [post_op_error p msg], lr_reaped = []\<rparr>"
proof -
  have failed: "ls_future (failed_listener mk msg None :: (DartInstance option, DartInstance) listener) =
      failed_future mk msg" for mk
    by (simp add: failed_listener_def failed_future_def listener_new_def split: option.splits)
  have "dart_launch [post_error p msg] = failed_listener FlatpakNotFoundException msg None"
    "dart_launch [post_op_error p msg] = failed_listener FlatpakLaunchException msg None"
    unfolding dart_launch_def handlers_fail by (rule refl)+
  then show "launch_fails p FlatpakNotFoundException msg \<lparr>lr_posts = [post_error p msg], lr_reaped = []\<rparr>"
    "launch_fails p FlatpakLaunchException msg \<lparr>lr_posts = [post_op_error p msg], lr_reaped = []\<rparr>"
    by (simp_all add: launch_fails_def failed)
qed

text \<open>The frames of an instance.\<close>

definition instance_frames :: "port \<Rightarrow> FpInstance \<Rightarrow> post list" where
  "instance_frames p info = [post_glaze p 0x01 (FpInstance_val info), post_sentinel p]"

lemma dart_launched:
  assumes "\<forall>x \<in> set (instance_frames p info). length (post_bytes x) \<le> 2 ^ 63"
  shows "ls_future (dart_launch (instance_frames p info)) =
    (case dart_instance info of
       Some x \<Rightarrow> Value x
     | None \<Rightarrow> Error (FlatpakLaunchException (ascii ''launch produced no instance'')))"
proof -
  have "length (enc_value (FpInstance_val info)) < 2 ^ 63"
    using assms by (simp add: instance_frames_def post_bytes_glaze write_binary_enc Suc_le_eq)
  then have "decodeInstance (1 # write_binary (FpInstance_val info)) 1 = dart_result (dart_instance info)"
    by (simp add: write_binary_enc decode_instance_frame)
  moreover have "write_binary (FpInstance_val info) \<noteq> []" by (simp add: FpInstance_val_def wire_simps)
  ultimately show ?thesis
    by (cases "dart_instance info")
      (simp_all add: instance_frames_def dart_launch_def deliver_open post_bytes_glaze launching_def
        dart_result_def)
qed

lemma launch_resolved_frames:
  assumes "launch_resolved fp ln p app_id ua ub uc = Some res" "ln_launch_full ln app_id ua ub uc = Inr inst"
  obtains child where
    "if 0 <s inst_child_pid inst \<or> inst_id inst \<in> {None, Some ''''} then child = inst_child_pid inst
     else \<exists>probes slept. reread_child_pid (ln_probes ln) (ln_cancelled ln) (the (inst_id inst)) =
       Some (child, probes, slept)"
    "res = \<lparr>lr_posts = instance_frames p (fill_instance inst\<lparr>i_childPid := child\<rparr>),
       lr_reaped = (if 0 <s inst_pid inst then [inst_pid inst] else [])\<rparr>"
proof -
  let ?info = "fill_instance inst"
  let ?known = "0 <s inst_child_pid inst \<or> inst_id inst \<in> {None, Some ''''}"
  obtain child where
    child: "(if \<not> 0 <s i_childPid ?info \<and> i_instanceId ?info \<noteq> ''''
        then map_option fst (reread_child_pid (ln_probes ln) (ln_cancelled ln) (i_instanceId ?info))
        else Some (i_childPid ?info)) = Some child"
    and res: "res = \<lparr>lr_posts = instance_frames p (?info\<lparr>i_childPid := child\<rparr>),
      lr_reaped = (if 0 <s inst_pid inst then [inst_pid inst] else [])\<rparr>"
    using assms
    by (auto simp: launch_resolved_def instance_frames_def Let_def simp del: FpInstance.simps
        split: option.splits)
  have id: "i_instanceId ?info = safe_str (inst_id inst)" "i_childPid ?info = inst_child_pid inst"
    by (simp_all add: fill_instance_def)
  have known: "\<not> ?known \<longleftrightarrow> \<not> 0 <s i_childPid ?info \<and> i_instanceId ?info \<noteq> ''''"
    and named: "\<not> ?known \<Longrightarrow> i_instanceId ?info = the (inst_id inst)"
    unfolding id by (cases "inst_id inst"; simp)+
  show thesis
  proof (rule that [OF _ res])
    show "if ?known then child = inst_child_pid inst
      else \<exists>probes slept. reread_child_pid (ln_probes ln) (ln_cancelled ln) (the (inst_id inst)) =
        Some (child, probes, slept)"
    proof (cases ?known)
      case True
      then have "\<not> (\<not> 0 <s i_childPid ?info \<and> i_instanceId ?info \<noteq> '''')" using known by blast
      with child have "i_childPid ?info = child" by (simp only: if_False option.inject)
      with True show ?thesis by (simp add: id(2))
    next
      case False
      with child known named
      have "map_option fst (reread_child_pid (ln_probes ln) (ln_cancelled ln) (the (inst_id inst))) = Some child"
        by metis
      then have "\<exists>probes slept. reread_child_pid (ln_probes ln) (ln_cancelled ln) (the (inst_id inst)) =
          Some (child, probes, slept)"
        by force
      with False show ?thesis by (simp only: if_False)
    qed
  qed
qed

lemma launch_succeeds_posts:
  assumes "launch_resolved fp ln p app_id ua ub uc = Some res"
    "ln_launch_full ln app_id ua ub uc = Inr inst" "\<forall>x \<in> set (lr_posts res). length (post_bytes x) \<le> 2 ^ 63"
  shows "launch_succeeds ln p inst res"
  using assms(1,2)
proof (rule launch_resolved_frames)
  fix child
  assume child: "if 0 <s inst_child_pid inst \<or> inst_id inst \<in> {None, Some ''''} then child = inst_child_pid inst
      else \<exists>probes slept. reread_child_pid (ln_probes ln) (ln_cancelled ln) (the (inst_id inst)) =
        Some (child, probes, slept)"
    and res: "res = \<lparr>lr_posts = instance_frames p (fill_instance inst\<lparr>i_childPid := child\<rparr>),
      lr_reaped = (if 0 <s inst_pid inst then [inst_pid inst] else [])\<rparr>"
  have "ls_future (dart_launch (lr_posts res)) =
      (case dart_instance (fill_instance inst\<lparr>i_childPid := child\<rparr>) of
         Some x \<Rightarrow> Value x
       | None \<Rightarrow> Error (FlatpakLaunchException (ascii ''launch produced no instance'')))"
    using dart_launched assms(3) by (simp add: res)
  moreover have "\<exists>x. lr_posts res = [x, post_sentinel p] \<and> post_port x = p"
    by (simp add: res instance_frames_def)
  moreover have "lr_reaped res = (if 0 <s inst_pid inst then [inst_pid inst] else [])" by (simp add: res)
  ultimately show ?thesis using child unfolding launch_succeeds_def by blast
qed

lemma launch_resolved_answers:
  assumes "launch_resolved fp ln p app_id ua ub uc = Some res"
    "\<forall>x \<in> set (lr_posts res). length (post_bytes x) \<le> 2 ^ 63"
  shows "case ln_launch_full ln app_id ua ub uc of
      Inl None \<Rightarrow> launch_fails p FlatpakLaunchException ''launch failed'' res
    | Inl (Some e) \<Rightarrow>
        if g_domain e = lf_FLATPAK_ERROR fp \<and> g_code e = lf_FLATPAK_ERROR_NOT_INSTALLED fp
        then launch_fails p FlatpakNotFoundException (g_message e) res
        else launch_fails p FlatpakLaunchException (g_message e) res
    | Inr inst \<Rightarrow> launch_succeeds ln p inst res"
proof (cases "ln_launch_full ln app_id ua ub uc")
  case (Inl err)
  with assms(1) show ?thesis
    by (auto simp: launch_resolved_def posted_only_def launch_fails_posts split: option.splits if_splits)
qed (use launch_succeeds_posts [OF assms(1) _ assms(2)] in simp)

lemma launch_impl_answers:
  assumes "launch_impl fp ln p app_id arch branch commit = Some res"
    "\<forall>x \<in> set (lr_posts res). length (post_bytes x) \<le> 2 ^ 63"
  shows "launch_answers fp ln p app_id arch branch commit res"
proof (cases "arch = '''' \<or> branch = ''''")
  case False
  with assms(1) have "launch_resolved fp ln p app_id (Some arch) (Some branch) (hint (Some commit)) = Some res"
    by (simp add: launch_impl_def Let_def)
  from launch_resolved_answers [OF this assms(2)] False show ?thesis by (simp add: launch_answers_def)
next
  case True
  then have unknown: "hint (Some arch) = None \<or> hint (Some branch) = None" by auto
  then consider why where "resolve_launch_target fp app_id (hint (Some arch)) (hint (Some branch)) = Some (Unresolved why)"
    | a b where "resolve_launch_target fp app_id (hint (Some arch)) (hint (Some branch)) = Some (Resolved a b)"
    using assms(1) by (auto simp: launch_impl_def Let_def split: option.splits resolution.splits)
  then show ?thesis
  proof cases
    case 1
    with assms(1) unknown True show ?thesis
      by (auto simp: launch_impl_def launch_answers_def posted_only_def launch_fails_posts Let_def
          split: if_splits)
  next
    case 2
    have "(if hint (Some x) = None then Some y else hint (Some x)) = Some (if x = '''' then y else x)" for x y
      by simp
    with assms(1) unknown 2 have "launch_resolved fp ln p app_id (Some (if arch = '''' then a else arch))
        (Some (if branch = '''' then b else branch)) (hint (Some commit)) = Some res"
      by (simp add: launch_impl_def Let_def)
    from launch_resolved_answers [OF this assms(2)] True 2 show ?thesis by (simp add: launch_answers_def)
  qed
qed

section \<open>Submitting a transaction\<close>

text \<open>
  \<open>_submit\<close>: create a handle, add the operations, submit. A NULL handle is passed on to the
  calls that read through it, which is undefined, \<open>None\<close>. The handle is not destroyed.
\<close>

fun add_ops :: "tx_library \<Rightarrow> tx_op list \<Rightarrow> TxHandle \<Rightarrow> post list \<times> TxHandle" where
  "add_ops lib [] h = ([], h)"
| "add_ops lib (op # ops) h =
     (case flatpak_tx_add lib op h of
        (posts, h) \<Rightarrow> (case add_ops lib ops h of (posts', h) \<Rightarrow> (posts @ posts', h)))"

definition dart_submit ::
    "tx_library \<Rightarrow> nat \<Rightarrow> port \<Rightarrow> tx_op list \<Rightarrow> TransactionWorker \<Rightarrow>
     (post list \<times> TxHandle \<times> TransactionWorker) option" where
  "dart_submit lib fresh p ops w =
     (case flatpak_tx_create lib fresh p of
        (_, None) \<Rightarrow> None
      | (created, Some h) \<Rightarrow>
          (case add_ops lib ops h of
             (added, h) \<Rightarrow>
               (case flatpak_tx_submit h w of
                  (submitted, h, w) \<Rightarrow> Some (created @ added @ submitted, h, w))))"

text \<open>The operations libflatpak takes, one after the other, and its messages for the others.\<close>

fun taken_ops :: "tx_library \<Rightarrow> tx_op list \<Rightarrow> tx_op list \<Rightarrow> tx_op list" where
  "taken_ops lib before [] = before"
| "taken_ops lib before (op # ops) =
     (case tl_add lib before op of
        Inl _ \<Rightarrow> taken_ops lib before ops
      | Inr _ \<Rightarrow> taken_ops lib (before @ [op]) ops)"

fun refused_ops :: "tx_library \<Rightarrow> tx_op list \<Rightarrow> tx_op list \<Rightarrow> string list" where
  "refused_ops lib before [] = []"
| "refused_ops lib before (op # ops) =
     (case tl_add lib before op of
        Inl err \<Rightarrow> err_or err (add_failed_text op) # refused_ops lib before ops
      | Inr _ \<Rightarrow> refused_ops lib (before @ [op]) ops)"

lemma add_ops_eq:
  "h_tx h = Some (tx, before) \<Longrightarrow>
     add_ops lib ops h =
       (map (post_error (h_port h)) (refused_ops lib before ops), h\<lparr>h_tx := Some (tx, taken_ops lib before ops)\<rparr>)"
proof (induction ops arbitrary: h before)
  case (Cons op ops)
  show ?case
  proof (cases "tl_add lib before op")
    case (Inl err)
    with Cons.IH [of h before] Cons.prems show ?thesis by (simp add: flatpak_tx_add_def)
  next
    case (Inr ok)
    with Cons.IH [of "h\<lparr>h_tx := Some (tx, before @ [op])\<rparr>" "before @ [op]"] Cons.prems
    show ?thesis by (simp add: flatpak_tx_add_def)
  qed
qed simp

text \<open>The first error that decodes settles the result, whatever comes after it.\<close>

lemma transaction_fails_first:
  assumes "dart_text (wire_msg msg) = Some s"
  shows "ls_future (transaction_listener (post_error p msg # later)) = Error (FlatpakTransactionException s)"
  using assms post_bytes_error(1) [of p msg] decode_error_posts(1) [of p msg]
  by (auto simp: transaction_listener_def deliver_open transaction_handler_def dart_result_def listen_closed)

section \<open>Properties\<close>

text \<open>
  C5. Operations under way at once do not disturb each other: whatever other threads post to
  other ports, however their posts, the turns of the event loop and the finalizers interleave,
  and although a port refuses messages once its listener has closed it, an operation's listener
  ends, when its messages have been delivered, as if the posts to its port had been handed to
  it one after the other; and no buffer is freed twice or leaked.
\<close>

theorem interleaving_is_invisible:
  assumes "dl ''Dart_PostCObject'' \<noteq> None" "\<forall>x \<in> set (concat (map thread_posts as)). post_fits x"
  shows "\<exists>st l. session_run h p as (bridge_start dl, listener_new r) = Some (st, l) \<and>
    foldl (deliver h) l (queued_for p st) = listen h (listener_new r) (posts_to p as) \<and>
    dom (br_heap st) = set (br_due st) \<and> distinct (br_due st)"
proof -
  have "own_inv (fst (bridge_start dl, listener_new r))" using own_inv_start assms(1) by simp
  from session_run_settled [OF this assms(2), of h p] show ?thesis
    by (auto simp: settled_listener_def own_inv_def queued_for_def bridge_start_def)
qed

definition example_interleaving :: "session_action list" where
  "example_interleaving =
     [ThreadPosts (\<lambda>_. True) (post_string 5 ''a''), ThreadPosts (\<lambda>_. True) (post_string 6 ''b''),
      EventTurn, Finalizer 1, ThreadPosts (\<lambda>_. True) (post_sentinel 5),
      ThreadPosts (\<lambda>_. False) (post_sentinel 6), EventTurn, EventTurn]"

theorem interleaving_is_invisible_witness:
  "\<exists>st l. session_run (collecting decode_error False FlatpakRemoteException) 5 example_interleaving
      (bridge_start (\<lambda>_. Some (VmFunction ())), listener_new []) = Some (st, l) \<and>
    foldl (deliver (collecting decode_error False FlatpakRemoteException)) l (queued_for 5 st) =
      getSupportedArches [post_string 5 ''a'', post_sentinel 5]"
proof -
  have "posts_to 5 example_interleaving = [post_string 5 ''a'', post_sentinel 5]"
    by (simp add: posts_to_def example_interleaving_def)
  moreover have "\<forall>x \<in> set (concat (map thread_posts example_interleaving)). post_fits x"
    by (simp add: example_interleaving_def post_fits_def post_string_def post_bytes_framed_error
        wire_msg_def c_str_def)
  ultimately show ?thesis
    using interleaving_is_invisible [of "\<lambda>_. Some (VmFunction ())" example_interleaving
        "collecting decode_error False FlatpakRemoteException" 5 "[]"]
    unfolding getSupportedArches_def by auto
qed

text \<open>
  C15. A launch from the call to the future. An architecture or branch that is not given is
  resolved; without a target \<open>launch_full\<close> is not asked, and the future fails with
  \<open>FlatpakNotFoundException\<close> and "app not installed", or with \<open>FlatpakLaunchException\<close> and
  libflatpak's text if the apps could not be listed. Where \<open>launch_full\<close> fails, the future fails
  with its text, by the first exception exactly if the error is \<open>FLATPAK_ERROR_NOT_INSTALLED\<close>. In
  all these cases one frame is posted and no pid is handed over, and a text that is not UTF-8
  leaves the future pending. Where it started an instance, its outer pid goes to the reaper
  once if positive, and the future completes with that instance, with the child pid it had or
  the one the wait found; if one of its texts is not UTF-8 it fails with "launch produced
  no instance", although the app runs.
\<close>

theorem dart_launch_outcome:
  assumes "apps_named fp app_id"
    "\<forall>res. launch_impl fp ln p app_id arch branch commit = Some res \<longrightarrow>
      (\<forall>x \<in> set (lr_posts res). length (post_bytes x) \<le> 2 ^ 63)"
  shows "\<exists>res. launch_impl fp ln p app_id arch branch commit = Some res \<and>
    launch_answers fp ln p app_id arch branch commit res"
  using launch_defined [OF assms(1), of ln p arch branch commit] launch_impl_answers assms(2) by blast

definition failing_launcher :: launcher where
  "failing_launcher = example_launcher\<lparr>ln_launch_full := (\<lambda>_ _ _ _.
     Inl (Some \<lparr>g_domain = 3, g_code = 7, g_message = ''no runtime''\<rparr>))\<rparr>"

theorem dart_launch_outcome_witness:
  "(\<exists>res. launch_impl example_not_current example_launcher 5 ''a.B'' '''' '''' '''' = Some res \<and>
     lr_reaped res = [40] \<and> (\<exists>x. ls_future (dart_launch (lr_posts res)) = Value x \<and> di_pid x = 40)) \<and>
   (\<exists>res. launch_impl example_not_current failing_launcher 5 ''a.B'' '''' '''' '''' = Some res \<and>
     lr_reaped res = [] \<and>
     ls_future (dart_launch (lr_posts res)) = Error (FlatpakLaunchException (ascii ''no runtime'')))"
proof -
  have named: "apps_named example_not_current ''a.B''"
    by (auto simp: apps_named_def named_target_def example_not_current_def example_runtime_def
        example_other_arch_def example_app_def)
  have target: "resolve_launch_target example_not_current ''a.B'' None None = Some (Resolved ''x86_64'' ''stable'')"
    by (simp add: resolve_launch_target_def example_not_current_def example_runtime_def
        example_other_arch_def example_app_def example_lib_def Let_def)
  then have resolved: "launch_impl example_not_current ln 5 ''a.B'' '''' '''' '''' =
      launch_resolved example_not_current ln 5 ''a.B'' (Some ''x86_64'') (Some ''stable'') None" for ln
    by (simp add: launch_impl_def Let_def)
  have info: "fill_instance example_instance\<lparr>i_childPid := child\<rparr> =
      \<lparr>i_appId = ''a.B'', i_instanceId = ''77'', i_arch = ''x86_64'', i_branch = ''stable'', i_commit = '''',
       i_runtime = '''', i_pid = 40, i_childPid = child, i_isRunning = True\<rparr>" for child
    by (simp add: fill_instance_def example_instance_def)
  have len: "\<forall>x \<in> set (instance_frames 5 (fill_instance example_instance\<lparr>i_childPid := child\<rparr>)).
      length (post_bytes x) \<le> 2 ^ 63" for child
    by (simp add: instance_frames_def info post_bytes_glaze wire_simps FpInstance_val_def enc_string_def)
  have "\<forall>x \<in> set (lr_posts res). length (post_bytes x) \<le> 2 ^ 63"
    if "launch_impl example_not_current example_launcher 5 ''a.B'' '''' '''' '''' = Some res" for res
  proof -
    have "ln_launch_full example_launcher ''a.B'' (Some ''x86_64'') (Some ''stable'') None = Inr example_instance"
      by (simp add: example_launcher_def)
    from that [unfolded resolved] this obtain child
      where "lr_posts res = instance_frames 5 (fill_instance example_instance\<lparr>i_childPid := child\<rparr>)"
      by (rule launch_resolved_frames) simp
    then show ?thesis using len by simp
  qed
  then have "\<forall>res. launch_impl example_not_current example_launcher 5 ''a.B'' '''' '''' '''' = Some res \<longrightarrow>
      (\<forall>x \<in> set (lr_posts res). length (post_bytes x) \<le> 2 ^ 63)" by blast
  from dart_launch_outcome [OF named this] target
  have started: "\<exists>res. launch_impl example_not_current example_launcher 5 ''a.B'' '''' '''' '''' = Some res \<and>
      launch_succeeds example_launcher 5 example_instance res"
    by (simp add: launch_answers_def example_launcher_def)
  have "\<forall>res. launch_impl example_not_current failing_launcher 5 ''a.B'' '''' '''' '''' = Some res \<longrightarrow>
      (\<forall>x \<in> set (lr_posts res). length (post_bytes x) \<le> 2 ^ 63)"
    unfolding resolved
    by (simp add: launch_resolved_def failing_launcher_def posted_only_def post_error_def post_op_error_def
        post_bytes_framed_error wire_msg_def c_str_def)
  from dart_launch_outcome [OF named this] target
  have failed: "\<exists>res. launch_impl example_not_current failing_launcher 5 ''a.B'' '''' '''' '''' = Some res \<and>
      launch_fails 5 FlatpakLaunchException ''no runtime'' res"
    by (simp add: launch_answers_def failing_launcher_def example_not_current_def example_lib_def)
  have "\<exists>x. dart_instance (fill_instance example_instance\<lparr>i_childPid := child\<rparr>) = Some x \<and> di_pid x = 40" for child
    by (simp add: info dart_instance_def dart_text_def utf8_decode_ascii)
  then have "\<exists>x. ls_future (dart_launch (lr_posts res)) = Value x \<and> di_pid x = 40"
    if "launch_succeeds example_launcher 5 example_instance res" for res
    using that unfolding launch_succeeds_def by (metis option.simps(5))
  moreover have "0 <s inst_pid example_instance" "inst_pid example_instance = 40"
    by (simp_all add: example_instance_def word_sless_alt)
  then have "lr_reaped res = [40]" if "launch_succeeds example_launcher 5 example_instance res" for res
    using that by (simp add: launch_succeeds_def)
  moreover have "failed_future mk ''no runtime'' = Error (mk (ascii ''no runtime''))" for mk
    by (simp add: failed_future_def wire_msg_short dart_text_def utf8_decode_ascii)
  ultimately show ?thesis using started failed unfolding launch_fails_def by metis
qed

text \<open>
  C23. A stop from the call to the future: among the instances libflatpak lists, the running
  ones of the app are signalled, each at its child pid or else at its outer pid and at no pid
  that is not positive. The future completes if at least one SIGTERM was delivered; it fails
  with \<open>FlatpakNotFoundException\<close> if no such instance exists, and with \<open>FlatpakStopException\<close> if
  none could be signalled. It never stays pending, and its port is closed.
\<close>

theorem dart_stop_outcome:
  "let insts = (case lf_instance_get_all fp of None \<Rightarrow> [] | Some insts \<Rightarrow> insts);
       running = filter (\<lambda>i. inst_app i = Some app_id \<and> inst_is_running i) insts;
       (posts, st) = stop fp kn p app_id;
       l = dart_stop posts
   in st_targets st = filter (\<lambda>t. 0 <s t)
        (map (\<lambda>i. if 0 <s inst_child_pid i then inst_child_pid i else inst_pid i) running) \<and>
      ls_future l = (if running = []
          then Error (FlatpakNotFoundException (ascii ''no running instance for app_id''))
        else if filter is_term (st_effects st) = []
          then Error (FlatpakStopException (ascii ''matched running instance(s) but could not signal any''))
        else Value ()) \<and>
      \<not> ls_open l \<and> ls_thrown l = []"
proof -
  have texts: "dart_text (wire_msg ''no running instance for app_id'') = Some (ascii ''no running instance for app_id'')"
    "dart_text (wire_msg ''matched running instance(s) but could not signal any'') =
      Some (ascii ''matched running instance(s) but could not signal any'')"
    by (simp_all add: wire_msg_short dart_text_def utf8_decode_ascii)
  have "dart_stop [post_sentinel p] = \<lparr>ls_local = (), ls_future = Value (), ls_open = False, ls_thrown = []\<rparr>"
    by (simp add: dart_stop_def deliver_open stopping_def complete_def port_close_def listener_new_def)
  moreover have "dart_stop [post_error p ''no running instance for app_id''] =
      \<lparr>ls_local = (), ls_future = Error (FlatpakNotFoundException (ascii ''no running instance for app_id'')),
       ls_open = False, ls_thrown = []\<rparr>"
    unfolding dart_stop_def handlers_fail by (simp add: failed_listener_def texts listener_new_def)
  moreover have "dart_stop [post_op_error p ''matched running instance(s) but could not signal any''] =
      \<lparr>ls_local = (), ls_future = Error (FlatpakStopException
         (ascii ''matched running instance(s) but could not signal any'')), ls_open = False, ls_thrown = []\<rparr>"
    unfolding dart_stop_def handlers_fail by (simp add: failed_listener_def texts listener_new_def)
  ultimately show ?thesis
    using stop_replies [of fp app_id kn p] by (auto simp: Let_def split: prod.splits)
qed


end
