(* ===== verification/Reader_Queues.thy ===== *)
theory Reader_Queues
  imports Launch Installations
begin

text \<open>
  The two background threads of InstallationReader (native/src/installation_reader.cpp and
  native/include/installation_reader.h) and its destructor: the launch thread with its own
  loop, the appstream \<open>SerialQueue\<close>, and the order in which the destructor stops both and
  releases the installation. Both threads meet the worker contracts of \<open>Work_Queue\<close>.
\<close>

section \<open>The appstream queue\<close>

record AppstreamRequest =
  ap_port :: port
  ap_remote :: string
  ap_arch :: string

definition refresh_appstream_impl :: "libflatpak \<Rightarrow> port \<Rightarrow> string \<Rightarrow> string \<Rightarrow> post list" where
  "refresh_appstream_impl fp p remote arch =
     (case lf_update_appstream_sync fp remote (hint (Some arch)) of
        Inl err \<Rightarrow> [post_error p (err_or err ''appstream refresh failed'')]
      | Inr _ \<Rightarrow> [post_sentinel p])"

text \<open>The two handlers the queue was built with.\<close>

fun refresh_event :: "libflatpak \<Rightarrow> AppstreamRequest sq_event \<Rightarrow> post list" where
  "refresh_event fp (Ran req) = refresh_appstream_impl fp (ap_port req) (ap_remote req) (ap_arch req)"
| "refresh_event fp (Cancelled req) =
     [post_error (ap_port req) ''reader closed before appstream refresh started'']"

definition refresh_appstream ::
    "port \<Rightarrow> cstr \<Rightarrow> cstr \<Rightarrow> AppstreamRequest serial_queue \<Rightarrow> post list \<times> AppstreamRequest serial_queue" where
  "refresh_appstream p remote arch q =
     (case sq_push \<lparr>ap_port = p, ap_remote = safe_str remote, ap_arch = safe_str arch\<rparr> q of
        (taken, q') \<Rightarrow> (if taken then [] else [post_error p ''reader is closed''], q'))"

section \<open>The launch thread\<close>

record LaunchRequest =
  lq_port :: port
  lq_appId :: string
  lq_arch :: string
  lq_branch :: string
  lq_commit :: string

text \<open>\<open>launch\<close> queues without looking at the stop flag.\<close>

definition launch ::
    "port \<Rightarrow> cstr \<Rightarrow> cstr \<Rightarrow> cstr \<Rightarrow> cstr \<Rightarrow> LaunchRequest serial_queue \<Rightarrow> LaunchRequest serial_queue" where
  "launch p app_id arch branch commit q =
     (let req = \<lparr>lq_port = p, lq_appId = safe_str app_id, lq_arch = safe_str arch,
                 lq_branch = safe_str branch, lq_commit = safe_str commit\<rparr>
      in q\<lparr>sq_queue := sq_queue q @ [req], sq_taken := sq_taken q @ [req]\<rparr>)"

definition launch_loop :: "LaunchRequest serial_queue \<Rightarrow> LaunchRequest serial_queue option" where
  "launch_loop q =
     (case sq_pc q of
        SqWait \<Rightarrow>
          (if sq_stop q then Some (q\<lparr>sq_pc := SqDrain (sq_queue q), sq_queue := []\<rparr>)
           else (case sq_queue q of
               [] \<Rightarrow> None
             | req # rest \<Rightarrow> Some (q\<lparr>sq_pc := SqRun req, sq_queue := rest\<rparr>)))
      | SqRun req \<Rightarrow> Some (q\<lparr>sq_pc := SqWait, sq_log := sq_log q @ [Ran req]\<rparr>)
      | SqDrain pending \<Rightarrow>
          (case pending of
             [] \<Rightarrow> Some (q\<lparr>sq_pc := SqDone\<rparr>)
           | req # rest \<Rightarrow> Some (q\<lparr>sq_pc := SqDrain rest, sq_log := sq_log q @ [Cancelled req]\<rparr>))
      | SqDone \<Rightarrow> None)"

fun launch_event :: "libflatpak \<Rightarrow> launcher \<Rightarrow> LaunchRequest sq_event \<Rightarrow> post list option" where
  "launch_event fp ln (Ran req) =
     map_option lr_posts
       (launch_impl fp ln (lq_port req) (lq_appId req) (lq_arch req) (lq_branch req) (lq_commit req))"
| "launch_event fp ln (Cancelled req) =
     Some [post_op_error (lq_port req) ''reader closed before launch started'']"

text \<open>The hand-written loop is the loop of \<open>SerialQueue\<close>.\<close>

lemma launch_loop_eq: "launch_loop q = sq_loop q"
  by (auto simp: launch_loop_def sq_loop_def split: sq_pc.splits list.splits)

section \<open>The reader and its destructor\<close>

text \<open>
  The destructor's progress: not called; launch stop flag set; appstream queue told to stop;
  appstream thread joined; launch thread joined and the installation released.
\<close>

datatype dtor_pc = Alive | LaunchFlagged | AppstreamFlagged | AppstreamJoined | Released

record InstallationReader =
  rd_launch :: "LaunchRequest serial_queue"
  rd_appstream :: "AppstreamRequest serial_queue"
  rd_dtor :: dtor_pc

definition reader_new :: InstallationReader where
  "reader_new = \<lparr>rd_launch = sq_new, rd_appstream = sq_new, rd_dtor = Alive\<rparr>"

definition flatpak_reader_create :: "'i installations \<Rightarrow> cstr \<Rightarrow> ('i \<times> InstallationReader) option" where
  "flatpak_reader_create fs installation =
     map_option (\<lambda>inst. (inst, reader_new)) (open_installation fs installation)"

text \<open>One step of the destructor; \<open>None\<close> while a join waits, and after the end.\<close>

definition dtor_step :: "InstallationReader \<Rightarrow> InstallationReader option" where
  "dtor_step r =
     (case rd_dtor r of
        Alive \<Rightarrow> Some (r\<lparr>rd_launch := sq_request_stop (rd_launch r), rd_dtor := LaunchFlagged\<rparr>)
      | LaunchFlagged \<Rightarrow>
          Some (r\<lparr>rd_appstream := sq_request_stop (rd_appstream r), rd_dtor := AppstreamFlagged\<rparr>)
      | AppstreamFlagged \<Rightarrow>
          map_option (\<lambda>q. r\<lparr>rd_appstream := q, rd_dtor := AppstreamJoined\<rparr>) (sq_join (rd_appstream r))
      | AppstreamJoined \<Rightarrow>
          map_option (\<lambda>q. r\<lparr>rd_launch := q, rd_dtor := Released\<rparr>) (sq_join (rd_launch r))
      | Released \<Rightarrow> None)"

text \<open>
  The interleavings. The handle is not used any more once \<open>flatpak_reader_destroy\<close> was
  called on it, as for any destroyed object; the threads run on.
\<close>

inductive reader_step :: "InstallationReader \<Rightarrow> InstallationReader \<Rightarrow> bool" where
  call_launch: "rd_dtor r = Alive \<Longrightarrow>
    reader_step r (r\<lparr>rd_launch := launch p app_id arch branch commit (rd_launch r)\<rparr>)"
| call_refresh: "rd_dtor r = Alive \<Longrightarrow> refresh_appstream p remote arch (rd_appstream r) = (ps, q) \<Longrightarrow>
    reader_step r (r\<lparr>rd_appstream := q\<rparr>)"
| launch_thread: "launch_loop (rd_launch r) = Some q \<Longrightarrow> reader_step r (r\<lparr>rd_launch := q\<rparr>)"
| appstream_thread: "sq_loop (rd_appstream r) = Some q \<Longrightarrow> reader_step r (r\<lparr>rd_appstream := q\<rparr>)"
| destructor: "dtor_step r = Some r' \<Longrightarrow> reader_step r r'"

inductive_cases reader_stepE: "reader_step r r'"

section \<open>Each thread keeps its accounts\<close>

definition reader_inv :: "InstallationReader \<Rightarrow> bool" where
  "reader_inv r \<longleftrightarrow>
     sq_inv (rd_launch r) \<and> sq_inv (rd_appstream r) \<and>
     sq_taken (rd_launch r) = sq_answered (rd_launch r) @ sq_in_hand (rd_launch r) @ sq_queue (rd_launch r) \<and>
     sq_taken (rd_appstream r) =
       sq_answered (rd_appstream r) @ sq_in_hand (rd_appstream r) @ sq_queue (rd_appstream r) \<and>
     (sq_stop (rd_launch r) \<longleftrightarrow> rd_dtor r \<noteq> Alive) \<and>
     (sq_stop (rd_appstream r) \<longleftrightarrow> rd_dtor r \<notin> {Alive, LaunchFlagged}) \<and>
     (rd_dtor r \<in> {AppstreamJoined, Released} \<longrightarrow> sq_pc (rd_appstream r) = SqDone) \<and>
     (rd_dtor r = Released \<longrightarrow> sq_pc (rd_launch r) = SqDone)"

lemma launch_is_push: "\<not> sq_stop q \<Longrightarrow> \<exists>req. sq_push req q = (True, launch p app_id arch branch commit q)"
  by (auto simp: sq_push_def launch_def Let_def)

lemma sq_loop_stop: "sq_loop q = Some q' \<Longrightarrow> sq_stop q' = sq_stop q"
  by (auto simp: sq_loop_def split: sq_pc.splits list.splits if_splits)

lemma sq_loop_not_done: "sq_loop q = Some q' \<Longrightarrow> sq_pc q \<noteq> SqDone"
  by (auto simp: sq_loop_def)

lemma sq_join_facts:
  "sq_join q = Some q' \<Longrightarrow> sq_inv q \<Longrightarrow> sq_pc q' = SqDone \<and> sq_stop q' = sq_stop q"
  by (auto simp: sq_join_def sq_inv_def split: if_splits)

lemma sq_one_step:
  assumes "sq_step q q'" "sq_inv q" "sq_taken q = sq_answered q @ sq_in_hand q @ sq_queue q"
  shows "sq_inv q' \<and> sq_taken q' = sq_answered q' @ sq_in_hand q' @ sq_queue q'"
  using assms sq_step_inv sq_step_accounts by blast

lemma sq_push_stop: "sq_push x q = (b, q') \<Longrightarrow> sq_stop q' = sq_stop q"
  by (auto simp: sq_push_def split: if_splits)

lemma reader_inv_new: "reader_inv reader_new"
  by (simp add: reader_inv_def reader_new_def sq_new_def sq_inv_def sq_draining_def sq_answered_def
      sq_in_hand_def)

lemma refresh_is_step:
  assumes "refresh_appstream p remote arch q = (ps, q')"
  shows "sq_step q q' \<and> sq_stop q' = sq_stop q"
  using assms
  by (auto simp: refresh_appstream_def split: prod.splits intro: sq_step.push dest: sq_push_stop)

lemma launch_is_step:
  assumes "\<not> sq_stop q"
  shows "sq_step q (launch p app_id arch branch commit q) \<and>
    sq_stop (launch p app_id arch branch commit q) = sq_stop q"
  using launch_is_push [OF assms, of p app_id arch branch commit]
  by (auto intro: sq_step.push dest: sq_push_stop)

lemma dtor_step_inv:
  assumes "dtor_step r = Some r'" "reader_inv r"
  shows "reader_inv r'"
proof (cases "rd_dtor r")
  case Alive
  with assms show ?thesis
    using sq_one_step [OF sq_step.request_stop, of "rd_launch r"]
    by (auto simp: dtor_step_def reader_inv_def sq_request_stop_def)
next
  case LaunchFlagged
  with assms show ?thesis
    using sq_one_step [OF sq_step.request_stop, of "rd_appstream r"]
    by (auto simp: dtor_step_def reader_inv_def sq_request_stop_def)
next
  case AppstreamFlagged
  with assms show ?thesis
    using sq_one_step [OF sq_step.join, of "rd_appstream r"] sq_join_facts [of "rd_appstream r"]
    by (auto simp: dtor_step_def reader_inv_def)
next
  case AppstreamJoined
  with assms show ?thesis
    using sq_one_step [OF sq_step.join, of "rd_launch r"] sq_join_facts [of "rd_launch r"]
    by (auto simp: dtor_step_def reader_inv_def)
qed (use assms in \<open>simp add: dtor_step_def\<close>)

lemma reader_step_inv: "reader_step r r' \<Longrightarrow> reader_inv r \<Longrightarrow> reader_inv r'"
proof (induction rule: reader_step.induct)
  case (call_launch r p app_id arch branch commit)
  then have "\<not> sq_stop (rd_launch r)" by (simp add: reader_inv_def)
  with call_launch show ?case
    using launch_is_step [of "rd_launch r" p app_id arch branch commit] sq_one_step
    by (auto simp: reader_inv_def)
next
  case (call_refresh r p remote arch ps q)
  then show ?case
    using refresh_is_step [OF call_refresh(2)] sq_one_step by (auto simp: reader_inv_def)
next
  case (launch_thread r q)
  then have *: "sq_loop (rd_launch r) = Some q" by (simp add: launch_loop_eq)
  with launch_thread show ?case
    using sq_one_step [OF sq_step.work [OF *]] sq_loop_stop [OF *] sq_loop_not_done [OF *]
    by (auto simp: reader_inv_def)
next
  case (appstream_thread r q)
  then show ?case
    using sq_one_step [OF sq_step.work [OF appstream_thread(1)]] sq_loop_stop [OF appstream_thread(1)]
      sq_loop_not_done [OF appstream_thread(1)]
    by (auto simp: reader_inv_def)
next
  case (destructor r r')
  then show ?case by (rule dtor_step_inv)
qed

lemma reader_run_inv: "reader_step\<^sup>*\<^sup>* reader_new r \<Longrightarrow> reader_inv r"
  by (induction rule: rtranclp_induct) (auto intro: reader_inv_new reader_step_inv)

section \<open>The destructor ends\<close>

definition sq_work_left :: "'a serial_queue \<Rightarrow> nat" where
  "sq_work_left q =
     (case sq_pc q of
        SqRun _ \<Rightarrow> 2 * length (sq_queue q) + 4
      | SqWait \<Rightarrow> 2 * length (sq_queue q) + 3
      | SqDrain pending \<Rightarrow> length pending + 1
      | SqDone \<Rightarrow> 0)"

lemma sq_loop_work_left: "sq_loop q = Some q' \<Longrightarrow> sq_work_left q' < sq_work_left q"
proof (cases "sq_pc q")
  case SqWait
  then show "sq_loop q = Some q' \<Longrightarrow> sq_work_left q' < sq_work_left q"
    by (auto simp: sq_loop_def sq_work_left_def split: if_splits) (auto split: list.splits)
qed (auto simp: sq_loop_def sq_work_left_def split: list.splits)

fun dtor_left :: "dtor_pc \<Rightarrow> nat" where
  "dtor_left Alive = 4"
| "dtor_left LaunchFlagged = 3"
| "dtor_left AppstreamFlagged = 2"
| "dtor_left AppstreamJoined = 1"
| "dtor_left Released = 0"

definition reader_distance :: "InstallationReader \<Rightarrow> nat" where
  "reader_distance r = sq_work_left (rd_launch r) + sq_work_left (rd_appstream r) + dtor_left (rd_dtor r)"

lemma sq_work_left_same [simp]:
  "sq_work_left (sq_request_stop q) = sq_work_left q"
  "sq_join q = Some q' \<Longrightarrow> sq_work_left q' = sq_work_left q"
  by (auto simp: sq_work_left_def sq_request_stop_def sq_join_def split: if_splits sq_pc.splits)

lemma reader_step_distance:
  assumes "reader_step r r'" "rd_dtor r \<noteq> Alive"
  shows "reader_distance r' < reader_distance r \<and> rd_dtor r' \<noteq> Alive"
  using assms
proof (induction rule: reader_step.induct)
  case (destructor r r')
  then show ?case
    by (cases "rd_dtor r") (auto simp: dtor_step_def reader_distance_def)
qed (auto simp: reader_distance_def launch_loop_eq dest: sq_loop_work_left)

lemma reader_not_stuck:
  assumes "reader_inv r" "rd_dtor r \<noteq> Released"
  shows "\<exists>r'. reader_step r r'"
proof -
  have thread: "\<exists>q'. sq_loop q = Some q'" if "sq_inv q" "sq_stop q" "sq_join q = None" for q
    using sq_loop_progress [OF that(1,2)] that(3) by (auto simp: sq_join_def split: if_splits)
  show ?thesis
  proof (cases "dtor_step r")
    case None
    then consider "rd_dtor r = AppstreamFlagged" "sq_join (rd_appstream r) = None"
      | "rd_dtor r = AppstreamJoined" "sq_join (rd_launch r) = None"
      using assms(2) by (auto simp: dtor_step_def split: dtor_pc.splits)
    then show ?thesis
      using assms(1) thread [of "rd_appstream r"] thread [of "rd_launch r"]
      by cases (auto simp: reader_inv_def
        intro: reader_step.launch_thread [unfolded launch_loop_eq] reader_step.appstream_thread)
  qed (auto intro: reader_step.destructor)
qed

lemma reader_steps_bounded:
  "(reader_step ^^ n) r r' \<Longrightarrow> rd_dtor r \<noteq> Alive \<Longrightarrow> n + reader_distance r' \<le> reader_distance r"
proof (induction n arbitrary: r)
  case (Suc n)
  then obtain s where s: "reader_step r s" "(reader_step ^^ n) s r'"
    by (meson relpowp_Suc_D2)
  with Suc reader_step_distance [OF s(1)] show ?case by fastforce
qed simp

section \<open>The launch thread meets the worker contract\<close>

inductive launch_step :: "LaunchRequest serial_queue \<Rightarrow> LaunchRequest serial_queue \<Rightarrow> bool" where
  "\<not> sq_stop q \<Longrightarrow> launch_step q (launch p app_id arch branch commit q)"
| "launch_step q (sq_request_stop q)"
| "sq_join q = Some q' \<Longrightarrow> launch_step q q'"
| "launch_loop q = Some q' \<Longrightarrow> launch_step q q'"

lemma launch_step_sq: "launch_step q q' \<Longrightarrow> sq_step q q'"
  by (induction rule: launch_step.induct)
    (auto simp: launch_loop_eq intro: sq_step.intros dest: launch_is_step)

interpretation launch_thread: draining_worker "\<lambda>q. q = sq_new" launch_step sq_taken sq_answered
    sq_in_hand sq_queue launch_loop sq_stop "\<lambda>q. sq_pc q = SqDone" sq_distance sq_inv
  by unfold_locales
    (auto intro: sq_new_accounts sq_step_accounts launch_step_sq launch_step.intros sq_new_inv
      sq_step_inv sq_step_stop dest: sq_done_empty sq_loop_progress simp: launch_loop_eq)

lemma refresh_event_framed:
  "well_framed (ap_port (event_item e)) (refresh_event fp e)"
  by (cases e) (auto simp: refresh_appstream_impl_def split: sum.splits)

interpretation refreshing: reply_stream "\<lambda>p. Some (refresh_appstream_impl fp p remote arch)"
    for fp remote arch
  by unfold_locales (auto simp: refresh_appstream_impl_def split: sum.splits)

lemma launch_event_framed:
  "launch_event fp ln e = Some ps \<Longrightarrow> well_framed (lq_port (event_item e)) ps"
  by (cases e) (auto dest: launch_impl_posts)

section \<open>Schedules\<close>

text \<open>A call on a destroyed reader, a blocked join and a waiting thread leave the state as it is.\<close>

datatype reader_action =
    CallLaunch port cstr cstr cstr cstr | CallRefresh port cstr cstr
  | LaunchWork | AppstreamWork | Destroy

fun reader_exec :: "reader_action \<Rightarrow> InstallationReader \<Rightarrow> InstallationReader" where
  "reader_exec (CallLaunch p app_id arch branch commit) r =
     (if rd_dtor r = Alive
      then r\<lparr>rd_launch := launch p app_id arch branch commit (rd_launch r)\<rparr> else r)"
| "reader_exec (CallRefresh p remote arch) r =
     (if rd_dtor r = Alive
      then r\<lparr>rd_appstream := snd (refresh_appstream p remote arch (rd_appstream r))\<rparr> else r)"
| "reader_exec LaunchWork r =
     (case launch_loop (rd_launch r) of None \<Rightarrow> r | Some q \<Rightarrow> r\<lparr>rd_launch := q\<rparr>)"
| "reader_exec AppstreamWork r =
     (case sq_loop (rd_appstream r) of None \<Rightarrow> r | Some q \<Rightarrow> r\<lparr>rd_appstream := q\<rparr>)"
| "reader_exec Destroy r = (case dtor_step r of None \<Rightarrow> r | Some r' \<Rightarrow> r')"

definition reader_run_schedule :: "reader_action list \<Rightarrow> InstallationReader \<Rightarrow> InstallationReader" where
  "reader_run_schedule as r = fold reader_exec as r"

lemma reader_exec_step: "reader_step\<^sup>*\<^sup>* r (reader_exec a r)"
proof (cases a)
  case (CallRefresh p remote arch)
  then show ?thesis
    by (cases "refresh_appstream p remote arch (rd_appstream r)")
      (auto intro: reader_step.call_refresh)
qed (auto intro: reader_step.intros split: option.splits)

lemma reader_schedule_from: "reader_step\<^sup>*\<^sup>* r (reader_run_schedule as r)"
proof (induction as arbitrary: r)
  case (Cons a as)
  then show ?case
    unfolding reader_run_schedule_def by (auto intro: rtranclp_trans [OF reader_exec_step])
qed (simp add: reader_run_schedule_def)

lemmas reader_schedule_reachable = reader_schedule_from [of reader_new]

lemmas reader_exec_defs = reader_run_schedule_def dtor_step_def launch_loop_def launch_def Let_def
  refresh_appstream_def sq_state_defs sq_new_def reader_new_def

section \<open>Properties\<close>

text \<open>
  C28. Destroying a reader always ends, under every schedule of the two threads: once the
  destructor has begun, only boundedly many steps of any kind remain, and no state without a
  next step is short of the release of the installation.
\<close>

theorem reader_destroy_terminates:
  assumes "reader_step\<^sup>*\<^sup>* reader_new r" "rd_dtor r \<noteq> Alive"
  shows "(\<forall>n r'. (reader_step ^^ n) r r' \<longrightarrow> n \<le> reader_distance r) \<and>
    (\<forall>r'. reader_step\<^sup>*\<^sup>* r r' \<longrightarrow> (\<exists>r''. reader_step r' r'') \<or> rd_dtor r' = Released)"
proof -
  have "rd_dtor r' = Released" if "reader_step\<^sup>*\<^sup>* r r'" "\<nexists>r''. reader_step r' r''" for r'
    using reader_run_inv [OF rtranclp_trans [OF assms(1) that(1)]] reader_not_stuck that(2) by blast
  with reader_steps_bounded [OF _ assms(2)] show ?thesis by fastforce
qed

definition example_reader :: InstallationReader where
  "example_reader = reader_run_schedule
     [CallLaunch 5 (Some ''a'') None None None, CallRefresh 6 (Some ''hub'') None, AppstreamWork,
      CallRefresh 7 (Some ''hub'') None, Destroy] reader_new"

theorem reader_destroy_terminates_witness:
  "(\<nexists>r'. (reader_step ^^ 15) example_reader r') \<and>
   ((\<exists>r'. reader_step example_reader r') \<or> rd_dtor example_reader = Released)"
proof -
  have reach: "reader_step\<^sup>*\<^sup>* reader_new example_reader"
    by (simp add: example_reader_def reader_schedule_reachable)
  have alive: "rd_dtor example_reader \<noteq> Alive" and dist: "reader_distance example_reader = 14"
    by (simp_all add: example_reader_def reader_exec_defs reader_distance_def sq_work_left_def)
  from reader_destroy_terminates [OF reach alive] dist show ?thesis by fastforce
qed

text \<open>
  When the destructor has released the installation, both threads have returned, and each of
  them has run the first of the requests it took and cancelled the others, once and in order.
\<close>

lemma reader_step_log:
  assumes "reader_step r r'" "reader_inv r" "sq_log_inv (rd_launch r)" "sq_log_inv (rd_appstream r)"
  shows "sq_log_inv (rd_launch r') \<and> sq_log_inv (rd_appstream r')"
  using assms
proof (induction rule: reader_step.induct)
  case (call_launch r p app_id arch branch commit)
  then have "\<not> sq_stop (rd_launch r)" by (simp add: reader_inv_def)
  with call_launch show ?case
    using launch_is_step [of "rd_launch r" p app_id arch branch commit] sq_step_log_inv by auto
next
  case (call_refresh r p remote arch ps q)
  then show ?case using refresh_is_step [OF call_refresh(2)] sq_step_log_inv by auto
next
  case (launch_thread r q)
  then show ?case using sq_step_log_inv [OF sq_step.work] by (simp add: launch_loop_eq)
next
  case (appstream_thread r q)
  then show ?case using sq_step_log_inv [OF sq_step.work] by simp
next
  case (destructor r r')
  then show ?case
    by (auto simp: dtor_step_def split: dtor_pc.splits
      intro: sq_step_log_inv [OF sq_step.request_stop] sq_step_log_inv [OF sq_step.join])
qed

lemma reader_run_log:
  "reader_step\<^sup>*\<^sup>* reader_new r \<Longrightarrow> sq_log_inv (rd_launch r) \<and> sq_log_inv (rd_appstream r)"
proof (induction rule: rtranclp_induct)
  case base
  show ?case by (simp add: reader_new_def sq_new_def sq_log_inv_def)
next
  case (step r r')
  with reader_run_inv [OF step(1)] reader_step_log show ?case by blast
qed

lemma released_reader_answered:
  assumes "reader_step\<^sup>*\<^sup>* reader_new r" "rd_dtor r = Released"
  shows "sq_pc (rd_launch r) = SqDone" "sq_pc (rd_appstream r) = SqDone"
    "\<exists>ran cancelled. sq_log (rd_launch r) = map Ran ran @ map Cancelled cancelled \<and>
       sq_taken (rd_launch r) = ran @ cancelled"
    "\<exists>ran cancelled. sq_log (rd_appstream r) = map Ran ran @ map Cancelled cancelled \<and>
       sq_taken (rd_appstream r) = ran @ cancelled"
proof -
  have inv: "reader_inv r" by (rule reader_run_inv [OF assms(1)])
  then show "sq_pc (rd_launch r) = SqDone" "sq_pc (rd_appstream r) = SqDone"
    using assms(2) by (simp_all add: reader_inv_def)
  have split: "\<exists>ran cancelled. sq_log q = map Ran ran @ map Cancelled cancelled \<and> sq_taken q = ran @ cancelled"
    if log: "sq_log_inv q" and taken: "sq_taken q = map event_item (sq_log q)" for q :: "'q serial_queue"
  proof -
    obtain rs cs where "sq_log q = map Ran rs @ map Cancelled cs" using log unfolding sq_log_inv_def by blast
    with taken show ?thesis by (intro exI [of _ rs] exI [of _ cs]) (simp add: comp_def)
  qed
  have "sq_taken (rd_launch r) = map event_item (sq_log (rd_launch r))"
    "sq_taken (rd_appstream r) = map event_item (sq_log (rd_appstream r))"
    using inv assms(2) sq_done_empty [of "rd_launch r"] sq_done_empty [of "rd_appstream r"]
    by (auto simp: reader_inv_def sq_answered_def)
  then show "\<exists>ran cancelled. sq_log (rd_launch r) = map Ran ran @ map Cancelled cancelled \<and>
       sq_taken (rd_launch r) = ran @ cancelled"
    "\<exists>ran cancelled. sq_log (rd_appstream r) = map Ran ran @ map Cancelled cancelled \<and>
       sq_taken (rd_appstream r) = ran @ cancelled"
    using reader_run_log [OF assms(1)] split by blast+
qed

end
