(* ===== verification/Dart_Requests.thy ===== *)
theory Dart_Requests
  imports Dart_Session Reader_Queues
begin

text \<open>
  The requests that wait in a reader, launches and appstream refreshes, from the queue that
  took them to the futures of their callers: what the reader's threads post for a request that
  ran and for one that was cancelled, through the listeners of lib/src/installation.dart.
\<close>

text \<open>What the listener of a refresh makes of the two replies it may get.\<close>

lemma refresh_ends:
  "ls_future (refreshAppstream [post_sentinel p]) = Value ()"
  "ls_future (refreshAppstream [post_error p msg]) = failed_future FlatpakRemoteException msg"
proof -
  show "ls_future (refreshAppstream [post_sentinel p]) = Value ()"
    by (simp add: refreshAppstream_def deliver_open refreshing_def)
  show "ls_future (refreshAppstream [post_error p msg]) = failed_future FlatpakRemoteException msg"
    unfolding refreshAppstream_def handlers_fail
    by (simp add: failed_listener_def failed_future_def listener_new_def split: option.splits)
qed

lemma failed_future_ascii:
  "dart_text (wire_msg msg) = Some (ascii msg) \<Longrightarrow> failed_future mk msg = Error (mk (ascii msg))"
  by (simp add: failed_future_def)

lemma closing_texts:
  "dart_text (wire_msg ''reader closed before launch started'') = Some (ascii ''reader closed before launch started'')"
  "dart_text (wire_msg ''reader closed before appstream refresh started'') =
     Some (ascii ''reader closed before appstream refresh started'')"
  "dart_text (wire_msg ''reader is closed'') = Some (ascii ''reader is closed'')"
  by (simp_all add: wire_msg_short dart_text_def utf8_decode_ascii)

text \<open>A refresh the queue refuses fails at once; the queue refuses it only when it was stopped.\<close>

lemma refused_refresh_fails:
  assumes "refresh_appstream p remote arch q = (ps, q')" "sq_stop q"
  shows "q' = q \<and> ls_future (refreshAppstream ps) = Error (FlatpakRemoteException (ascii ''reader is closed''))"
  using assms
  by (auto simp: refresh_appstream_def sq_push_def refresh_ends failed_future_ascii closing_texts)

text \<open>
  C18. When the destructor releases the installation both threads have returned, so no call into
  it is running, and every launch and every refresh the reader had taken has got its reply,
  those that ran before those that were cancelled and in the order taken. A launch that ran got
  the answer of its launch. A refresh that ran got one frame on its port, and its future
  completes, or fails with libflatpak's text (or stays pending if that is not UTF-8). A cancelled one
  got one frame on its port, and its future fails, a launch's with \<open>FlatpakLaunchException\<close> and
  a refresh's with \<open>FlatpakRemoteException\<close>, saying that the reader was closed before it started.
\<close>

theorem queued_requests_are_answered:
  assumes "reader_step\<^sup>*\<^sup>* reader_new r" "rd_dtor r = Released" "\<forall>app_id. apps_named fp app_id"
    "\<forall>req res. req \<in> set (sq_taken (rd_launch r)) \<longrightarrow>
       launch_impl fp ln (lq_port req) (lq_appId req) (lq_arch req) (lq_branch req) (lq_commit req) = Some res \<longrightarrow>
       (\<forall>x \<in> set (lr_posts res). length (post_bytes x) \<le> 2 ^ 63)"
  shows "sq_pc (rd_launch r) = SqDone \<and> sq_pc (rd_appstream r) = SqDone \<and>
    (\<exists>ran cancelled.
       sq_taken (rd_launch r) = ran @ cancelled \<and>
       sq_log (rd_launch r) = map Ran ran @ map Cancelled cancelled \<and>
       (\<forall>req \<in> set ran. \<exists>res. launch_event fp ln (Ran req) = Some (lr_posts res) \<and>
          launch_answers fp ln (lq_port req) (lq_appId req) (lq_arch req) (lq_branch req) (lq_commit req) res) \<and>
       (\<forall>req \<in> set cancelled. \<exists>x. launch_event fp ln (Cancelled req) = Some [x] \<and> post_port x = lq_port req \<and>
          ls_future (dart_launch [x]) =
            Error (FlatpakLaunchException (ascii ''reader closed before launch started'')))) \<and>
    (\<exists>ran cancelled.
       sq_taken (rd_appstream r) = ran @ cancelled \<and>
       sq_log (rd_appstream r) = map Ran ran @ map Cancelled cancelled \<and>
       (\<forall>req \<in> set ran. \<exists>x. refresh_event fp (Ran req) = [x] \<and> post_port x = ap_port req \<and>
          ls_future (refreshAppstream [x]) =
            (case lf_update_appstream_sync fp (ap_remote req) (hint (Some (ap_arch req))) of
               Inr _ \<Rightarrow> Value ()
             | Inl err \<Rightarrow> failed_future FlatpakRemoteException (err_or err ''appstream refresh failed''))) \<and>
       (\<forall>req \<in> set cancelled. \<exists>x. refresh_event fp (Cancelled req) = [x] \<and> post_port x = ap_port req \<and>
          ls_future (refreshAppstream [x]) =
            Error (FlatpakRemoteException (ascii ''reader closed before appstream refresh started''))))"
proof -
  note over = released_reader_answered [OF assms(1,2)]
  have "\<exists>res. launch_event fp ln (Ran req) = Some (lr_posts res) \<and>
      launch_answers fp ln (lq_port req) (lq_appId req) (lq_arch req) (lq_branch req) (lq_commit req) res"
    if "req \<in> set (sq_taken (rd_launch r))" for req
  proof -
    obtain res where res: "launch_impl fp ln (lq_port req) (lq_appId req) (lq_arch req) (lq_branch req)
        (lq_commit req) = Some res"
      using launch_defined assms(3) by blast
    with launch_impl_answers [OF res] assms(4) that show ?thesis by auto
  qed
  moreover have "\<exists>x. launch_event fp ln (Cancelled req) = Some [x] \<and> post_port x = lq_port req \<and>
      ls_future (dart_launch [x]) = Error (FlatpakLaunchException (ascii ''reader closed before launch started''))"
    for req
    using launch_fails_posts(2) [of "lq_port req" "''reader closed before launch started''"]
    by (simp add: launch_fails_def failed_future_ascii closing_texts)
  moreover have "\<exists>x. refresh_event fp (Ran req) = [x] \<and> post_port x = ap_port req \<and>
      ls_future (refreshAppstream [x]) =
        (case lf_update_appstream_sync fp (ap_remote req) (hint (Some (ap_arch req))) of
           Inr _ \<Rightarrow> Value ()
         | Inl err \<Rightarrow> failed_future FlatpakRemoteException (err_or err ''appstream refresh failed''))" for req
    by (simp add: refresh_appstream_impl_def refresh_ends split: sum.splits)
  moreover have "\<exists>x. refresh_event fp (Cancelled req) = [x] \<and> post_port x = ap_port req \<and>
      ls_future (refreshAppstream [x]) =
        Error (FlatpakRemoteException (ascii ''reader closed before appstream refresh started''))" for req
    by (simp add: refresh_ends failed_future_ascii closing_texts)
  ultimately show ?thesis using over(3,4) by (simp add: over(1,2)) (metis Un_iff set_append)
qed

definition example_closing :: "reader_action list" where
  "example_closing =
     [CallRefresh 6 (Some ''hub'') None, CallRefresh 7 (Some ''hub'') None, CallLaunch 8 (Some ''a.B'') None None None,
      AppstreamWork, Destroy, Destroy, AppstreamWork, AppstreamWork, AppstreamWork, AppstreamWork,
      Destroy, LaunchWork, LaunchWork, LaunchWork, Destroy]"

theorem queued_requests_are_answered_witness:
  "let r = reader_run_schedule example_closing reader_new
   in \<exists>x y. map (refresh_event example_not_current) (sq_log (rd_appstream r)) = [[x], [y]] \<and>
     ls_future (refreshAppstream [x]) = Value () \<and>
     ls_future (refreshAppstream [y]) =
       Error (FlatpakRemoteException (ascii ''reader closed before appstream refresh started''))"
proof -
  let ?r = "reader_run_schedule example_closing reader_new"
  let ?req = "\<lambda>p. \<lparr>ap_port = p, ap_remote = ''hub'', ap_arch = ''''\<rparr>"
  have released: "rd_dtor ?r = Released" and log: "sq_log (rd_appstream ?r) = [Ran (?req 6), Cancelled (?req 7)]"
    by (simp_all add: reader_exec_defs example_closing_def)
  have named: "\<forall>app_id. apps_named example_not_current app_id"
    by (auto simp: apps_named_def named_target_def example_not_current_def example_runtime_def
        example_other_arch_def example_app_def)
  have fits: "\<forall>req res. req \<in> set (sq_taken (rd_launch ?r)) \<longrightarrow>
      launch_impl example_not_current failing_launcher (lq_port req) (lq_appId req) (lq_arch req) (lq_branch req)
        (lq_commit req) = Some res \<longrightarrow> (\<forall>x \<in> set (lr_posts res). length (post_bytes x) \<le> 2 ^ 63)"
    by (simp add: reader_exec_defs example_closing_def launch_impl_def launch_resolved_def posted_only_def
        failing_launcher_def resolve_launch_target_def example_not_current_def example_runtime_def
        example_other_arch_def example_app_def example_lib_def post_error_def post_op_error_def
        post_bytes_framed_error wire_msg_def c_str_def)
  have "\<exists>ran cancelled.
      sq_taken (rd_appstream ?r) = ran @ cancelled \<and>
      sq_log (rd_appstream ?r) = map Ran ran @ map Cancelled cancelled \<and>
      (\<forall>req \<in> set ran. \<exists>x. refresh_event example_not_current (Ran req) = [x] \<and> post_port x = ap_port req \<and>
         ls_future (refreshAppstream [x]) =
           (case lf_update_appstream_sync example_not_current (ap_remote req) (hint (Some (ap_arch req))) of
              Inr _ \<Rightarrow> Value ()
            | Inl err \<Rightarrow> failed_future FlatpakRemoteException (err_or err ''appstream refresh failed''))) \<and>
      (\<forall>req \<in> set cancelled. \<exists>x. refresh_event example_not_current (Cancelled req) = [x] \<and> post_port x = ap_port req \<and>
         ls_future (refreshAppstream [x]) =
           Error (FlatpakRemoteException (ascii ''reader closed before appstream refresh started'')))"
    by (rule queued_requests_are_answered [OF reader_schedule_reachable released named fits,
          THEN conjunct2, THEN conjunct2, THEN conjunct2])
  then obtain ran cancelled where
    split: "sq_log (rd_appstream ?r) = map Ran ran @ map Cancelled cancelled"
    and ends: "\<forall>req \<in> set ran. \<exists>x. refresh_event example_not_current (Ran req) = [x] \<and> post_port x = ap_port req \<and>
         ls_future (refreshAppstream [x]) =
           (case lf_update_appstream_sync example_not_current (ap_remote req) (hint (Some (ap_arch req))) of
              Inr _ \<Rightarrow> Value ()
            | Inl err \<Rightarrow> failed_future FlatpakRemoteException (err_or err ''appstream refresh failed''))"
      "\<forall>req \<in> set cancelled. \<exists>x. refresh_event example_not_current (Cancelled req) = [x] \<and> post_port x = ap_port req \<and>
         ls_future (refreshAppstream [x]) =
           Error (FlatpakRemoteException (ascii ''reader closed before appstream refresh started''))"
    by (elim exE conjE) (rule that)
  have parts: "ran = [?req 6] \<and> cancelled = [?req 7]"
    using split unfolding log by (cases ran; cases cancelled) (auto simp: Cons_eq_append_conv)
  have "lf_update_appstream_sync example_not_current x y = Inr ()" for x y
    by (simp add: example_not_current_def example_lib_def)
  with parts obtain x where x: "refresh_event example_not_current (Ran (?req 6)) = [x]"
      "ls_future (refreshAppstream [x]) = Value ()"
    using bspec [OF ends(1), of "?req 6"] by (simp del: refresh_event.simps) blast
  obtain y where y: "refresh_event example_not_current (Cancelled (?req 7)) = [y]"
    "ls_future (refreshAppstream [y]) =
       Error (FlatpakRemoteException (ascii ''reader closed before appstream refresh started''))"
    using bspec [OF ends(2), of "?req 7"] parts by (simp del: refresh_event.simps) blast
  have "map (refresh_event example_not_current) (sq_log (rd_appstream ?r)) = [[x], [y]]"
    unfolding log list.map x(1) y(1) by (rule refl)
  with x(2) y(2) show ?thesis unfolding Let_def by (intro exI conjI)
qed

end
