(* ===== verification/Dart_Transactions.thy ===== *)
theory Dart_Transactions
  imports Dart_Session
begin

text \<open>
  A worker and the client that uses it: batches submitted from Dart, cancellations and the
  turns of the worker's thread in any order, with everything that is posted. The properties
  follow one batch from its submission to the future its caller holds, on a worker that goes on
  and on one that is closed.
\<close>

section \<open>The client and the worker\<close>

text \<open>
  One turn of the thread, with what it posts: the run of the item in hand sees the cancellables
  signalled by then. \<open>tc_ran\<close> keeps the executed items with those, as a ghost.
\<close>

record tx_client =
  tc_worker :: TransactionWorker
  tc_fresh :: nat
  tc_posts :: "post list"
  tc_ran :: "(PendingTx \<times> nat set) list"

definition tc_new :: tx_client where
  "tc_new = \<lparr>tc_worker = tw_new, tc_fresh = 0, tc_posts = [], tc_ran = []\<rparr>"

datatype tx_client_action = Submits port "tx_op list" | Cancels | Closes | WorkerTurn

definition tx_turn :: "tx_library \<Rightarrow> tx_client \<Rightarrow> tx_client option" where
  "tx_turn lib s =
     (let w = tc_worker s
      in case tw_loop w of
           None \<Rightarrow> Some s
         | Some w' \<Rightarrow>
             (case tw_pc w of
                TwRun item \<Rightarrow>
                  map_option (\<lambda>posts. s\<lparr>tc_worker := w', tc_posts := tc_posts s @ posts,
                      tc_ran := tc_ran s @ [(item, tw_cancelled w)]\<rparr>)
                    (tx_execute lib (tw_cancelled w) item)
              | _ \<Rightarrow> Some (s\<lparr>tc_worker := w'\<rparr>)))"

text \<open>
  \<open>_submit\<close>, the \<open>cancel\<close> of a \<open>FlatpakTransaction\<close>, and the flag that \<open>close\<close> sets before it waits
  for the thread.
\<close>

fun tc_step :: "tx_library \<Rightarrow> tx_client_action \<Rightarrow> tx_client \<Rightarrow> tx_client option" where
  "tc_step lib (Submits p ops) s =
     map_option (\<lambda>(posts, _, w). s\<lparr>tc_worker := w, tc_fresh := Suc (tc_fresh s), tc_posts := tc_posts s @ posts\<rparr>)
       (dart_submit lib (tc_fresh s) p ops (tc_worker s))"
| "tc_step lib Cancels s = Some (s\<lparr>tc_worker := tw_cancel_current (tc_worker s)\<rparr>)"
| "tc_step lib Closes s = Some (s\<lparr>tc_worker := tw_request_stop (tc_worker s)\<rparr>)"
| "tc_step lib WorkerTurn s = tx_turn lib s"

fun tc_run :: "tx_library \<Rightarrow> tx_client_action list \<Rightarrow> tx_client \<Rightarrow> tx_client option" where
  "tc_run lib [] s = Some s"
| "tc_run lib (a # as) s = Option.bind (tc_step lib a s) (tc_run lib as)"

lemma tc_run_append: "tc_run lib (as @ bs) s = Option.bind (tc_run lib as s) (tc_run lib bs)"
  by (induction as arbitrary: s) (auto split: bind_splits)

text \<open>The batch a submission enqueues.\<close>

definition submitted :: "tx_library \<Rightarrow> nat \<Rightarrow> port \<Rightarrow> tx_op list \<Rightarrow> PendingTx" where
  "submitted lib n p ops =
     \<lparr>px_tx = n, px_ops = taken_ops lib [] ops, px_cancel = Some n, px_port = p\<rparr>"

text \<open>
  What is relied on: libflatpak can create a transaction, and a run that fails sets its error.
\<close>

definition tx_library_ok :: "tx_library \<Rightarrow> bool" where
  "tx_library_ok lib \<longleftrightarrow>
     (\<exists>u. tl_new lib = Inr u) \<and>
     (\<forall>ops cancelled c. sets_error (snd (tl_run lib on_ready on_choose_remote_for_ref ops cancelled c)))"

lemma submit_ok:
  assumes "tx_library_ok lib"
  shows "\<exists>h. dart_submit lib n p ops w =
    Some (map (post_error p) (refused_ops lib [] ops), h, tw_enqueue (submitted lib n p ops) w)"
proof -
  let ?h = "\<lparr>h_tx = Some (n, []), h_cancel = Some n, h_port = p\<rparr>"
  have "add_ops lib ops ?h =
      (map (post_error p) (refused_ops lib [] ops), ?h\<lparr>h_tx := Some (n, taken_ops lib [] ops)\<rparr>)"
    using add_ops_eq [of ?h n "[]" lib ops] by simp
  with assms show ?thesis
    by (auto simp: tx_library_ok_def dart_submit_def flatpak_tx_create_def flatpak_tx_submit_def submitted_def)
qed

lemma tc_submit:
  "tx_library_ok lib \<Longrightarrow> tc_step lib (Submits p ops) s =
     Some (s\<lparr>tc_worker := tw_enqueue (submitted lib (tc_fresh s) p ops) (tc_worker s),
       tc_fresh := Suc (tc_fresh s), tc_posts := tc_posts s @ map (post_error p) (refused_ops lib [] ops)\<rparr>)"
  using submit_ok [of lib "tc_fresh s" p ops "tc_worker s"] by auto

lemma execute_ok:
  assumes "tx_library_ok lib"
  shows "\<exists>ps. tx_execute lib cancelled item = Some ps \<and> (\<forall>x \<in> set ps. post_port x = px_port item)"
proof -
  obtain sigs result where run:
    "tl_run lib on_ready on_choose_remote_for_ref (px_ops item) cancelled (px_cancel item) = (sigs, result)"
    by (cases "tl_run lib on_ready on_choose_remote_for_ref (px_ops item) cancelled (px_cancel item)")
  moreover from this assms have "sets_error result" unfolding tx_library_ok_def by (metis snd_conv)
  moreover have "\<forall>x \<in> set (run_signals (px_port item) (\<lambda>_. []) sigs). post_port x = px_port item"
    using run_signals_frames [of "\<lambda>_. []"] by auto
  ultimately show ?thesis
    by (auto simp: tx_execute_def sets_error_def tx_post_sentinel_def Let_def split: sum.splits option.splits)
qed

section \<open>The worker among the calls\<close>

text \<open>The calls and turns as the worker sees them.\<close>

fun worker_actions :: "tx_library \<Rightarrow> nat \<Rightarrow> tx_client_action list \<Rightarrow> tw_action list" where
  "worker_actions lib n [] = []"
| "worker_actions lib n (Submits p ops # as) =
     TwEnqueue (submitted lib n p ops) # worker_actions lib (Suc n) as"
| "worker_actions lib n (Cancels # as) = TwCancel # worker_actions lib n as"
| "worker_actions lib n (Closes # as) = TwStop # worker_actions lib n as"
| "worker_actions lib n (WorkerTurn # as) = TwWork # worker_actions lib n as"

lemma worker_actions_counts:
  "length (filter (\<lambda>a. a = TwWork) (worker_actions lib n as)) = length (filter (\<lambda>a. a = WorkerTurn) as)"
  "TwStop \<in> set (worker_actions lib n as) \<longleftrightarrow> Closes \<in> set as"
  by (induction lib n as rule: worker_actions.induct) auto

lemma tx_turn_ok:
  assumes "tx_library_ok lib"
  shows "\<exists>s'. tx_turn lib s = Some s' \<and> tc_worker s' = tw_exec TwWork (tc_worker s) \<and> tc_fresh s' = tc_fresh s"
  using execute_ok [OF assms]
  by (fastforce simp: tx_turn_def Let_def split: option.splits tw_pc.splits)

lemma tc_run_worker:
  assumes "tx_library_ok lib"
  shows "\<exists>s'. tc_run lib as s = Some s' \<and>
    tc_worker s' = tw_run (worker_actions lib (tc_fresh s) as) (tc_worker s)"
proof (induction as arbitrary: s)
  case Nil
  then show ?case by (simp add: tw_run_def)
next
  case (Cons a as)
  obtain t where t: "tc_step lib a s = Some t"
    "worker_actions lib (tc_fresh s) (a # as) = worker_actions lib (tc_fresh s) [a] @ worker_actions lib (tc_fresh t) as"
    "tc_worker t = tw_run (worker_actions lib (tc_fresh s) [a]) (tc_worker s)"
    using submit_ok [OF assms] tx_turn_ok [OF assms, of s] by (cases a) (fastforce simp: tw_run_def)+
  from Cons.IH [of t] t show ?case by (auto simp: tw_run_def)
qed

section \<open>The posts of one port\<close>

text \<open>
  What went to a port: \<open>errs\<close>, and then the frames of the executed batches of that port.
\<close>

definition port_posts :: "port \<Rightarrow> post list \<Rightarrow> post list" where
  "port_posts p = filter (\<lambda>x. post_port x = p)"

definition port_accounts :: "tx_library \<Rightarrow> port \<Rightarrow> post list \<Rightarrow> tx_client \<Rightarrow> bool" where
  "port_accounts lib p errs s \<longleftrightarrow>
     port_posts p (tc_posts s) =
       errs @ concat (map (\<lambda>(item, c). the (tx_execute lib c item)) (filter (\<lambda>(item, c). px_port item = p) (tc_ran s))) \<and>
     map fst (tc_ran s) = tw_executed (tc_worker s)"

lemma port_posts_simps [simp]:
  "port_posts p [] = []" "port_posts p (xs @ ys) = port_posts p xs @ port_posts p ys"
  "port_posts p (map (post_error q) msgs) = (if q = p then map (post_error q) msgs else [])"
  by (auto simp: port_posts_def filter_empty_conv)

lemma turn_port_accounts:
  assumes "tx_library_ok lib" "tx_turn lib s = Some t" "port_accounts lib p errs s"
  shows "port_accounts lib p errs t"
proof -
  have "port_posts p ps = (if px_port item = p then ps else [])"
    if "tx_execute lib c item = Some ps" for c item ps
    using execute_ok [OF assms(1), of c item] that by (auto simp: port_posts_def filter_empty_conv)
  with assms(2,3) show ?thesis
    by (auto simp: tx_turn_def Let_def port_accounts_def tw_loop_def split: option.splits tw_pc.splits list.splits if_splits)
qed

lemma step_port_accounts:
  assumes "tx_library_ok lib" "tc_step lib a s = Some t" "port_accounts lib p errs s" "\<forall>ops. a \<noteq> Submits p ops"
  shows "port_accounts lib p errs t"
proof (cases a)
  case (Submits q ops)
  with assms(2) have
    "t = s\<lparr>tc_worker := tw_enqueue (submitted lib (tc_fresh s) q ops) (tc_worker s),
       tc_fresh := Suc (tc_fresh s), tc_posts := tc_posts s @ map (post_error q) (refused_ops lib [] ops)\<rparr>"
    by (simp add: tc_submit [OF assms(1)] del: tc_step.simps(1))
  moreover have "q \<noteq> p" using Submits assms(4) by blast
  ultimately show ?thesis using assms(3) by (simp add: port_accounts_def tw_enqueue_def)
next
  case WorkerTurn
  with assms turn_port_accounts show ?thesis by simp
qed (use assms(2,3) in \<open>auto simp: port_accounts_def tw_cancel_current_def tw_request_stop_def split: option.splits\<close>)

lemma run_port_accounts:
  assumes "tx_library_ok lib" "tc_run lib as s = Some t" "port_accounts lib p errs s"
    "\<forall>ops. Submits p ops \<notin> set as"
  shows "port_accounts lib p errs t"
  using assms(2-)
proof (induction as arbitrary: s)
  case (Cons a as)
  then obtain u where u: "tc_step lib a s = Some u" "tc_run lib as u = Some t"
    by (auto simp: bind_eq_Some_conv)
  have "port_accounts lib p errs u"
    using step_port_accounts [OF assms(1) u(1) Cons.prems(2)] Cons.prems(3) by auto
  with Cons.IH [OF u(2)] Cons.prems(3) show ?case by simp
qed simp

text \<open>The batches taken for a port are those submitted for it.\<close>

definition taken_for :: "port \<Rightarrow> TransactionWorker \<Rightarrow> PendingTx list" where
  "taken_for p w = filter (\<lambda>item. px_port item = p) (tw_taken w)"

lemma tw_exec_taken:
  "tw_taken (tw_exec a w) = tw_taken w @ (case a of TwEnqueue item \<Rightarrow> [item] | _ \<Rightarrow> [])"
  by (cases a) (auto simp: tw_defs split: option.splits tw_pc.splits list.splits)

lemma taken_for_run:
  "\<forall>ops. Submits p ops \<notin> set as \<Longrightarrow>
     taken_for p (tw_run (worker_actions lib n as) w) = taken_for p w"
proof (induction lib n as arbitrary: w rule: worker_actions.induct)
  case (2 lib n q ops as)
  then have "q \<noteq> p" by auto
  with 2 show ?case by (auto simp: tw_run_def taken_for_def tw_exec_taken submitted_def simp del: tw_exec.simps)
qed (auto simp: tw_run_def taken_for_def tw_exec_taken simp del: tw_exec.simps)

section \<open>One batch from its submission to its end\<close>

lemma port_accounts_new: "port_accounts lib p [] tc_new"
  by (simp add: port_accounts_def tc_new_def tw_new_def)

lemma tw_run_live: "TwStop \<notin> set as \<Longrightarrow> tw_live w \<Longrightarrow> tw_live (tw_run as w)"
  by (induction as arbitrary: w) (auto simp: tw_run_def tw_exec_live simp del: tw_exec.simps)

lemma tc_reachable:
  assumes "tx_library_ok lib" "tc_run lib before tc_new = Some s"
  shows "tc_worker s = tw_run (worker_actions lib 0 before) tw_new"
  using tc_run_worker [OF assms(1), of before tc_new] assms(2) by (simp add: tc_new_def)

text \<open>The executed batches of a port: the first of those taken, and all of them after enough turns.\<close>

definition executed_for :: "port \<Rightarrow> TransactionWorker \<Rightarrow> PendingTx list" where
  "executed_for p w = filter (\<lambda>item. px_port item = p) (tw_executed w)"

lemma executed_for_taken: "tw_step\<^sup>*\<^sup>* tw_new w \<Longrightarrow> \<exists>rest. taken_for p w = executed_for p w @ rest"
  using transactions_run_in_order [of w] by (simp add: taken_for_def executed_for_def)

lemma executed_for_served:
  assumes "tw_step\<^sup>*\<^sup>* tw_new w" "\<not> tw_stop w" "TwStop \<notin> set as"
    "3 * (length (tw_taken w) - length (tw_executed w)) \<le> length (filter (\<lambda>a. a = TwWork) as)"
    "taken_for p (tw_run as w) = taken_for p w"
  shows "executed_for p (tw_run as w) = taken_for p w"
proof -
  obtain later where "tw_executed (tw_run as w) = tw_taken w @ later"
    using enqueued_transactions_are_executed [OF assms(1-4)] by blast
  then have "executed_for p (tw_run as w) = taken_for p w @ filter (\<lambda>item. px_port item = p) later"
    by (simp add: executed_for_def taken_for_def)
  moreover obtain rest where "taken_for p (tw_run as w) = executed_for p (tw_run as w) @ rest"
    using executed_for_taken [OF rtranclp_trans [OF assms(1) tw_run_reachable]] by blast
  ultimately show ?thesis using assms(5) by simp
qed

lemma ran_for:
  assumes "port_accounts lib p errs s"
  shows "map fst (filter (\<lambda>(item, c). px_port item = p) (tc_ran s)) = executed_for p (tc_worker s)"
proof -
  have "map fst (filter (\<lambda>(item, c). px_port item = p) xs) = filter (\<lambda>item. px_port item = p) (map fst xs)"
    for xs :: "(PendingTx \<times> nat set) list"
    by (induction xs) auto
  with assms show ?thesis by (simp add: port_accounts_def executed_for_def)
qed

text \<open>A submission on a port that had none: what the worker and the port have then.\<close>

lemma submit_port_accounts:
  assumes ok: "tx_library_ok lib" and before: "tc_run lib before tc_new = Some s"
    and only: "\<forall>ops. Submits p ops \<notin> set before"
  shows "\<exists>u. tc_step lib (Submits p ops) s = Some u \<and>
    tc_worker u = tw_enqueue (submitted lib (tc_fresh s) p ops) (tc_worker s) \<and>
    tw_step\<^sup>*\<^sup>* tw_new (tc_worker u) \<and>
    taken_for p (tc_worker u) = [submitted lib (tc_fresh s) p ops] \<and>
    port_accounts lib p (map (post_error p) (refused_ops lib [] ops)) u"
proof -
  let ?item = "submitted lib (tc_fresh s) p ops" and ?errs = "map (post_error p) (refused_ops lib [] ops)"
  define u where "u = s\<lparr>tc_worker := tw_enqueue ?item (tc_worker s), tc_fresh := Suc (tc_fresh s),
    tc_posts := tc_posts s @ ?errs\<rparr>"
  have u: "tc_step lib (Submits p ops) s = Some u"
    unfolding u_def by (rule tc_submit [OF ok])
  have worker: "tc_worker s = tw_run (worker_actions lib 0 before) tw_new" using tc_reachable [OF ok before] .
  then have reach: "tw_step\<^sup>*\<^sup>* tw_new (tc_worker s)" using tw_run_reachable by simp
  have none: "taken_for p (tc_worker s) = []"
    using taken_for_run [OF only, of lib 0 tw_new] by (simp add: worker taken_for_def tw_new_def)
  moreover have "port_accounts lib p [] s" using run_port_accounts [OF ok before port_accounts_new only] .
  moreover have "filter (\<lambda>(item, c). px_port item = p) (tc_ran s) = []"
    using ran_for [OF \<open>port_accounts lib p [] s\<close>] executed_for_taken [OF reach, of p] none by simp
  moreover have "tw_step\<^sup>*\<^sup>* tw_new (tw_enqueue ?item (tc_worker s))"
    using reach by (rule rtranclp.rtrancl_into_rtrancl) (rule tw_step.enqueue)
  moreover have same: "tc_worker u = tw_enqueue ?item (tc_worker s)" "tc_ran u = tc_ran s"
    "tc_posts u = tc_posts s @ ?errs" by (simp_all add: u_def)
  moreover have "tw_taken (tc_worker u) = tw_taken (tc_worker s) @ [?item]"
    "tw_executed (tc_worker u) = tw_executed (tc_worker s)" "px_port ?item = p"
    by (simp_all add: same tw_enqueue_def submitted_def)
  ultimately show ?thesis
    using u by (intro exI [of _ u]) (simp add: taken_for_def port_accounts_def)
qed

lemma submit_live:
  assumes "tx_library_ok lib" "tc_run lib before tc_new = Some s" "Closes \<notin> set before"
  shows "\<not> tw_stop (tw_enqueue item (tc_worker s))"
proof -
  have "tw_live (tc_worker s)"
    unfolding tc_reachable [OF assms(1,2)]
    by (rule tw_run_live) (simp_all add: worker_actions_counts assms(3) tw_live_def tw_new_def)
  then show ?thesis by (simp add: tw_live_def tw_enqueue_def)
qed

text \<open>After its turns the batch was executed once, and its port got its frames and nothing more.\<close>

lemma submitted_runs_once:
  assumes ok: "tx_library_ok lib" and before: "tc_run lib before tc_new = Some s"
    and only: "\<forall>ops. Submits p ops \<notin> set before" "\<forall>ops. Submits p ops \<notin> set as"
    and kept: "Closes \<notin> set before" "Closes \<notin> set as"
    and turns: "3 * Suc (length (tw_taken (tc_worker s)) - length (tw_executed (tc_worker s)))
      \<le> length (filter (\<lambda>a. a = WorkerTurn) as)"
  shows "\<exists>t c ps. tc_run lib (before @ Submits p ops # as) tc_new = Some t \<and>
    filter (\<lambda>(item, c). px_port item = p) (tc_ran t) = [(submitted lib (tc_fresh s) p ops, c)] \<and>
    tx_execute lib c (submitted lib (tc_fresh s) p ops) = Some ps \<and>
    port_posts p (tc_posts t) = map (post_error p) (refused_ops lib [] ops) @ ps"
proof -
  let ?item = "submitted lib (tc_fresh s) p ops" and ?errs = "map (post_error p) (refused_ops lib [] ops)"
  obtain u where u: "tc_step lib (Submits p ops) s = Some u" "tc_worker u = tw_enqueue ?item (tc_worker s)"
    "tw_step\<^sup>*\<^sup>* tw_new (tc_worker u)" "\<not> tw_stop (tc_worker u)" "taken_for p (tc_worker u) = [?item]"
    "port_accounts lib p ?errs u"
    using submit_port_accounts [OF ok before only(1), of ops] submit_live [OF ok before kept(1)] by metis
  obtain t where t: "tc_run lib as u = Some t"
    "tc_worker t = tw_run (worker_actions lib (tc_fresh u) as) (tc_worker u)"
    using tc_run_worker [OF ok] by blast
  have "3 * (length (tw_taken (tc_worker u)) - length (tw_executed (tc_worker u)))
      \<le> length (filter (\<lambda>a. a = TwWork) (worker_actions lib (tc_fresh u) as))"
    using turns by (simp add: worker_actions_counts u(2) tw_enqueue_def)
  from executed_for_served [OF u(3,4) _ this] taken_for_run [OF only(2)]
  have executed: "executed_for p (tc_worker t) = [?item]"
    by (simp add: worker_actions_counts kept(2) t(2) u(5))
  have accounts: "port_accounts lib p ?errs t" using run_port_accounts [OF ok t(1) u(6) only(2)] .
  with executed ran_for have "map fst (filter (\<lambda>(item, c). px_port item = p) (tc_ran t)) = [?item]" by metis
  then obtain c where c: "filter (\<lambda>(item, c). px_port item = p) (tc_ran t) = [(?item, c)]"
    by (auto simp: map_eq_Cons_conv)
  obtain ps where "tx_execute lib c ?item = Some ps" using execute_ok [OF ok] by blast
  with c accounts t(1) u(1) before show ?thesis
    by (auto simp: port_accounts_def tc_run_append)
qed

text \<open>How the run's reports and its result show in the progress stream and the future.\<close>

definition transaction_settled ::
    "TransactionProgress list \<Rightarrow> unit gresult \<Rightarrow> (progress_stream, unit) listener \<Rightarrow> bool" where
  "transaction_settled reports result l \<longleftrightarrow>
     (let seen = map Inr (List.map_filter dart_progress reports)
      in case result of
           Inr _ \<Rightarrow> ls_future l = Value () \<and> ps_events (ls_local l) = seen \<and> ps_closed (ls_local l)
         | Inl err \<Rightarrow>
             \<not> ps_closed (ls_local l) \<and>
             (case dart_text (wire_msg (g_message (the err))) of
                None \<Rightarrow> ls_future l = Pending \<and> ps_events (ls_local l) = seen
              | Some msg \<Rightarrow> ls_future l = Error (FlatpakTransactionException msg) \<and>
                  ps_events (ls_local l) = seen @ [Inl (FlatpakTransactionException msg)]))"

text \<open>A worker that is told to stop leaves what is queued in the queue.\<close>

lemma tw_stop_keeps_queue:
  "tw_stop w \<Longrightarrow> tw_stop (tw_run as w) \<and> (\<exists>more. tw_queue (tw_run as w) = tw_queue w @ more)"
proof (induction as arbitrary: w)
  case (Cons a as)
  have "tw_stop (tw_exec a w) \<and> (\<exists>more. tw_queue (tw_exec a w) = tw_queue w @ more)"
    using Cons.prems by (cases a) (auto simp: tw_defs split: option.splits tw_pc.splits list.splits)
  with Cons.IH [of "tw_exec a w"] show ?case by (auto simp: tw_run_def)
qed (simp add: tw_run_def)

lemma queued_is_not_executed:
  assumes "tw_step\<^sup>*\<^sup>* tw_new w" "taken_for p w = [item]" "item \<in> set (tw_queue w)" "px_port item = p"
  shows "executed_for p w = []"
proof -
  have "taken_for p w = executed_for p w @
      filter (\<lambda>item. px_port item = p) (case tw_pc w of TwRun item \<Rightarrow> [item] | _ \<Rightarrow> []) @
      filter (\<lambda>item. px_port item = p) (tw_queue w)"
    using transactions_run_in_order [OF assms(1)] by (simp add: taken_for_def executed_for_def)
  moreover have "filter (\<lambda>item. px_port item = p) (tw_queue w) \<noteq> []"
    using assms(3,4) by (auto simp: filter_empty_conv)
  ultimately show ?thesis using assms(2) by (auto simp: Cons_eq_append_conv append_eq_Cons_conv)
qed

section \<open>Properties\<close>


definition example_before :: "tx_client_action list" where
  "example_before = [Submits 6 [AddUninstall ''c.D''], WorkerTurn, Cancels]"

definition example_after :: "tx_client_action list" where
  "example_after = [WorkerTurn, WorkerTurn, Submits 7 [], WorkerTurn, Cancels, WorkerTurn, WorkerTurn, WorkerTurn]"


text \<open>
  C38. Closing a worker leaves the callers of its backlog without an answer: a batch that is still
  queued when the worker is told to stop is never run, whatever is submitted, cancelled or
  scheduled later. Its port gets the errors of the operations libflatpak had refused and nothing
  else; if none was refused it gets nothing at all, so the future stays pending and the
  progress stream open and empty.
\<close>

theorem closed_worker_abandons_its_backlog:
  assumes "tx_library_ok lib" "tc_run lib before tc_new = Some s"
    "tc_run lib (before @ Submits p ops # as) tc_new = Some u"
    "submitted lib (tc_fresh s) p ops \<in> set (tw_queue (tc_worker u))"
    "\<forall>ops'. Submits p ops' \<notin> set before \<union> set as \<union> set later"
  shows "\<exists>t. tc_run lib (before @ Submits p ops # as @ Closes # later) tc_new = Some t \<and>
    filter (\<lambda>(item, c). px_port item = p) (tc_ran t) = [] \<and>
    port_posts p (tc_posts t) = map (post_error p) (refused_ops lib [] ops) \<and>
    (refused_ops lib [] ops = [] \<longrightarrow>
      (let l = transaction_listener (port_posts p (tc_posts t))
       in ls_future l = Pending \<and> ls_open l \<and> ps_events (ls_local l) = [] \<and> \<not> ps_closed (ls_local l)))"
proof -
  let ?item = "submitted lib (tc_fresh s) p ops" and ?errs = "map (post_error p) (refused_ops lib [] ops)"
  obtain v where v: "tc_step lib (Submits p ops) s = Some v" "tw_step\<^sup>*\<^sup>* tw_new (tc_worker v)"
    "taken_for p (tc_worker v) = [?item]" "port_accounts lib p ?errs v"
    using submit_port_accounts [OF assms(1,2), of p ops] assms(5) by blast
  have u: "tc_run lib as v = Some u" using assms(2,3) v(1) by (simp add: tc_run_append del: tc_step.simps(1))
  obtain t where t: "tc_run lib (Closes # later) u = Some t"
    "tc_worker t = tw_run (worker_actions lib (tc_fresh u) (Closes # later)) (tc_worker u)"
    using tc_run_worker [OF assms(1)] by blast
  have only: "\<forall>ops. Submits p ops \<notin> set (as @ Closes # later)" using assms(5) by auto
  have run: "tc_run lib (as @ Closes # later) v = Some t" using u t(1) by (simp add: tc_run_append)
  have worker: "tc_worker t = tw_run (worker_actions lib (tc_fresh v) (as @ Closes # later)) (tc_worker v)"
    using tc_run_worker [OF assms(1), of "as @ Closes # later" v] run by auto
  have "\<exists>more. tw_queue (tc_worker t) = tw_queue (tc_worker u) @ more"
    using tw_stop_keeps_queue [of "tw_request_stop (tc_worker u)" "worker_actions lib (tc_fresh u) later"]
    unfolding t(2) by (auto simp: tw_run_def tw_request_stop_def)
  then have "?item \<in> set (tw_queue (tc_worker t))" using assms(4) by auto
  moreover have "tw_step\<^sup>*\<^sup>* tw_new (tc_worker t)"
    unfolding worker using v(2) tw_run_reachable by (rule rtranclp_trans)
  moreover have "taken_for p (tc_worker t) = [?item]" unfolding worker taken_for_run [OF only] by (rule v(3))
  moreover have "px_port ?item = p" by (simp add: submitted_def)
  ultimately have "executed_for p (tc_worker t) = []" using queued_is_not_executed by blast
  moreover have accounts: "port_accounts lib p ?errs t" using run_port_accounts [OF assms(1) run v(4) only] .
  ultimately have none: "filter (\<lambda>(item, c). px_port item = p) (tc_ran t) = []" using ran_for by fastforce
  moreover have "port_posts p (tc_posts t) = ?errs" using accounts none by (simp add: port_accounts_def)
  moreover have "tc_run lib (before @ Submits p ops # as @ Closes # later) tc_new = Some t"
    using assms(2) v(1) run by (simp add: tc_run_append del: tc_step.simps(1))
  ultimately show ?thesis by (simp add: transaction_listener_def listener_new_def)
qed

theorem closed_worker_abandons_its_backlog_witness:
  "\<exists>t. tc_run example_tx_library
      [Submits 6 [AddUninstall ''c.D''], WorkerTurn, Submits 5 [AddUpdate ''a.B''], Cancels, Closes, WorkerTurn,
       WorkerTurn, WorkerTurn, Submits 7 [], WorkerTurn] tc_new = Some t \<and>
    port_posts 6 (tc_posts t) = [post_error 6 ''cancelled''] \<and> port_posts 5 (tc_posts t) = [] \<and>
    ls_future (transaction_listener (port_posts 5 (tc_posts t))) = Pending"
proof -
  let ?before = "[Submits 6 [AddUninstall ''c.D''], WorkerTurn]"
  let ?later = "[WorkerTurn, WorkerTurn, WorkerTurn, Submits 7 [], WorkerTurn]"
  have ok: "tx_library_ok example_tx_library"
    by (simp add: tx_library_ok_def example_tx_library_def sets_error_def)
  have taken: "taken_ops example_tx_library [] [AddUpdate ''a.B''] = [AddUpdate ''a.B'']"
    "refused_ops example_tx_library [] [AddUpdate ''a.B''] = []"
    "refused_ops example_tx_library [] [AddUninstall ''c.D''] = []"
    "taken_ops example_tx_library [] [AddUninstall ''c.D''] = [AddUninstall ''c.D'']"
    "taken_ops example_tx_library [] [] = []" "refused_ops example_tx_library [] [] = []"
    by (simp_all add: example_tx_library_def)
  have ran: "tx_execute example_tx_library c item = Some [post_error (px_port item) ''cancelled'']"
    if "set_option (px_cancel item) \<inter> c \<noteq> {}" for c item
    using that by (simp add: tx_execute_def example_tx_library_def Let_def)
  note tc_submit [OF ok, simp] tc_step.simps(1) [simp del] taken_ops.simps [simp del] refused_ops.simps [simp del]
  obtain s where s: "tc_run example_tx_library ?before tc_new = Some s" "tc_fresh s = 1"
    by (simp add: tc_new_def tw_new_def tx_turn_def tw_defs Let_def taken submitted_def)
  obtain u where u: "tc_run example_tx_library (?before @ Submits 5 [AddUpdate ''a.B''] # [Cancels]) tc_new = Some u"
    "tw_queue (tc_worker u) = [submitted example_tx_library 1 5 [AddUpdate ''a.B'']]"
    by (simp add: tc_new_def tw_new_def tx_turn_def tw_defs Let_def taken submitted_def)
  obtain t where t: "tc_run example_tx_library
      (?before @ Submits 5 [AddUpdate ''a.B''] # [Cancels] @ Closes # ?later) tc_new = Some t"
    "port_posts 6 (tc_posts t) = [post_error 6 ''cancelled'']"
    by (simp add: tc_new_def tw_new_def tx_turn_def tw_defs Let_def taken submitted_def ran port_posts_def
        post_error_def post_framed_error_def One_nat_def)
  have queued: "submitted example_tx_library (tc_fresh s) 5 [AddUpdate ''a.B''] \<in> set (tw_queue (tc_worker u))"
    by (simp add: s(2) u(2))
  have only: "\<forall>ops'. Submits 5 ops' \<notin> set ?before \<union> set [Cancels] \<union> set ?later" by simp
  from closed_worker_abandons_its_backlog [OF ok s(1) u(1) queued only] t show ?thesis
    by (auto simp: taken Let_def simp del: tc_run.simps)
qed

end
