(* ===== verification/Spec2Isabelle.thy ===== *)
theory Spec2Isabelle
  imports Reaper_Wake Remote_Bridge Monitor_Loop Queue_Sync Worker_Sync Dart_Requests Dart_Transactions
begin

text \<open>
  The native bridge of flatpak_dart: the C and C++ code under native/ through which a Dart
  program queries and changes Flatpak installations. The Dart side calls exported functions
  with a port number; the bridge calls libflatpak and posts byte frames to that port, and a
  future on the Dart side collects the frames and completes at the last one. Slow work runs on
  threads of the bridge: one launch thread and one appstream queue per reader, one worker per
  transaction queue, one process-wide thread that reaps launched children, and one thread per
  update monitor.

  Theories, in the order of their dependencies, and the code each models:

  \<^item> \<open>Bridge_Prelude\<close>: bytes, ports, integers at their width, results of calls, loops that may
    fail, and the lemmas on lists, words and partial results that the components share.
  \<^item> \<open>Glaze_Codec\<close>: native/include/glaze_meta.h. The writer, and the reader as code on 64-bit
    pointers into memory regions. The lemmas relate the pointer code to a parser on byte lists
    and show that the parser inverts the writer. Regions are assumed to lie in user memory and
    allocations to be bounded (\<open>allocator\<close>, \<open>region_ok\<close>); what the
    zero-copy readers accept where their sums wrap is stated apart.
  \<^item> \<open>Flatpak_Types\<close>: native/include/flatpak_types.h, its structs as records and each \<open>glz::meta\<close>
    registration as an encoding.
  \<^item> \<open>Dart_Api\<close>: native/src/dart_api_dl.c and the headers it uses, the binding of the VM's functions.
  \<^item> \<open>Posting\<close>: native/include/flatpak_post.h and \<open>flatpak_bridge_init\<close>: who owns a posted buffer, and
    what a port's queue holds. Which ports are open, and when finalizers run, are parameters.
  \<^item> \<open>App_Metadata\<close>: native/src/app_metadata.cpp, over the accessors of a parsed \<open>GKeyFile\<close>.
  \<^item> \<open>Libflatpak\<close>: no code of the bridge; the records of values libflatpak returns, and its
    functions as one record of parameters (\<open>libflatpak\<close>).
  \<^item> \<open>Installations\<close>: the opening of an installation by name, which three files repeat.
  \<^item> \<open>Work_Queue\<close>: native/include/serial_queue.h, as steps of callers and of the worker, and the
    locales \<open>serial_worker\<close>, \<open>draining_worker\<close> and \<open>live_worker\<close> for what a worker promises.
  \<^item> \<open>Step_Simulation\<close>: the locales \<open>simulation\<close>, between a detailed and an abstract machine, and
    \<open>measured\<close>, for machines whose moves run out.
  \<^item> \<open>Thread_Places\<close>: threads at places in the code of a class with a mutex: who holds it, and the
    locale \<open>calling_threads\<close> for what a step of one caller leaves of the others.
  \<^item> \<open>Queue_Sync\<close>: serial_queue.h line by line, with its two mutexes, the condition variable, spurious
    wakeups and any number of callers; it simulates \<open>Work_Queue\<close>, so what is
    proved there of atomic calls holds of the code's locking.
  \<^item> \<open>Reply_Stream\<close>: the frames of a reply, and the locale \<open>reply_stream\<close> for what an
    operation promises the listener of its port.
  \<^item> \<open>Installation_Reader\<close>: the synchronous reads of native/src/installation_reader.cpp.
  \<^item> \<open>Launch\<close>: target resolution, the wait for the child pid and \<open>launch_impl\<close> of the same file.
  \<^item> \<open>Reader_Queues\<close>: its two threads, creation and the destructor.
  \<^item> \<open>Stop\<close>: \<open>stop\<close>, the start-time guard and both escalation threads.
  \<^item> \<open>Child_Reaper\<close>: native/src/child_reaper.cpp; \<open>Reaper_Wake\<close>: the same with its wake pipe and a poll
    that blocks, which simulates it. Children may be added while the destructor runs; the thread
    starts that earlier adds owe have returned by then.
  \<^item> \<open>Transaction_Bridge\<close>: native/src/transaction_bridge.cpp.
  \<^item> \<open>Transaction_Handles\<close>: who releases the GObjects of that file.
  \<^item> \<open>Worker_Sync\<close>: \<open>TransactionWorker\<close> of that file line by line, with its mutex, the condition
    variable, the current cancellable and the two references of each batch; it simulates the
    worker of \<open>Transaction_Bridge\<close>, with calls at any time, the destructor once. Only that
    every call returns, and that no caller is in a deleted worker, needs callers that make no call
    beside or after the destructor (\<open>tv_contract\<close>); the Dart client is not one of them.
  \<^item> \<open>Remote_Bridge\<close>: native/src/user_remote_bridge.cpp, user and system functions.
  \<^item> \<open>Update_Monitor\<close>: the monitor of native/src/flatpak_bridge.cpp, and \<open>Monitor_Loop\<close> its thread and
    the closing of a handle while that thread runs.
  \<^item> \<open>Dart_Utf8\<close>: the UTF-8 codec of the Dart library, part of the language the client is written in.
  \<^item> \<open>Dart_Codec\<close>: lib/src/ffi/codec.dart, the decoders of every payload and the encoder of a remote's
    configuration, with the classes they fill. The lemmas follow each decoder along the native
    encoding it reads.
  \<^item> \<open>Dart_Client\<close>: the listeners of lib/src/installation.dart, transaction.dart and
    remote_manager.dart, with the exceptions a handler may throw, and the properties that go from
    libflatpak's answer to the Dart future.
  \<^item> \<open>Dart_Session\<close>: an isolate with many operations under way, its event loop and the posts of the
    bridge's threads interleaved; launching, stopping and submitting from the call to the future.
  \<^item> \<open>Dart_Requests\<close>: the launches and refreshes queued in a reader, up to their futures, when the
    reader is closed over them.
  \<^item> \<open>Dart_Transactions\<close>: a worker with the batches, cancellations and turns of its thread in any
    order, and one batch from its submission to its future, or to the closing that abandons it.

  Conventions. Definitions have the names of the code (a suffix where HOL has the name, a
  prefix of the class for methods). A value \<open>None\<close> of an operation is undefined behaviour of
  the code (a NULL dereferenced or copied), never an error reply: errors are frames. A \<open>cstr\<close> is
  a possibly NULL C string. Operations return what they post; \<open>emit_all\<close> runs posts on the VM
  state. A thread is a program counter and a function that makes its next step; a call, a
  critical section and a blocking wait are one step each, and an inductive relation interleaves
  them with the calls of other threads. Ghost members (what was taken, answered, executed,
  added, reaped) are written and never read by the operations.

  What the groups of lemmas show: encodings and pointer code against their specification;
  each read's reply, by branch, and that it is well framed; that each worker answers what it
  took, in order, that it does so under fair scheduling, and that it returns when told; that the
  locking of the queue and of the transaction worker is atomic, loses no wakeup and cannot
  deadlock, and that no cancellable is used after its reference was dropped; that interleaved replies do not mix; that a reader is destroyed only after its threads;
  that a child is reaped once and an exited one does not stay a zombie; that a transaction ends once and a cancellation reaches the
  running one only; that remote operations reply once and apply what was sent; that the
  Dart decoders invert the native encodings, and what each Dart future becomes. Some properties
  state what the code fails to guarantee, and say so.

  Bounds. \<open>reread_loop\<close> and \<open>escalate_loop\<close> have no fuel: they are partial functions, and their
  properties prove that they return (14 enumerations and 500 ms; the first poll at or after the
  deadline). The other loops are total. \<open>reader_distance\<close> bounds the steps left in a destruction, and
  \<open>sy_left\<close>, \<open>tv_left\<close> and \<open>wk_left\<close> the moves the threads inside a serial queue, inside a transaction
  worker and of the reaper have left.

  Not modelled: the Dart bindings and the host, portal and appstream code of the Dart library, the SDK's
  dart_api.h beyond what the bridge uses, reference counts of GObjects other than the
  transactions' and the monitor's, a handler that stops its own queue, GLib's main loop beyond its running flag, file paths and D-Bus inside libflatpak, tests, example and build hook.
\<close>

section \<open>From a read to the future that waits for it\<close>

text \<open>
  C1. Every synchronous read of the reader, over a libflatpak whose failing lists set their
  error, posted through a bound \<open>Dart_PostCObject\<close> to an open port, reaches the listener of that
  read in Dart: every post is defined, the port receives the reply's frames in order after what
  it already had and nothing goes elsewhere, and these frames settle the future the caller
  holds. It stays pending only after an error whose text is not UTF-8, and for the reads of one
  payload if anything was thrown. Those reads settle at their first frame, every other one at
  its last frame and at none before.
\<close>

theorem reads_reach_the_client:
  assumes "lists_set_errors fp" "dl_ready st" "accepts p"
    "\<forall>ps. reader_run version fp call p = Some ps \<longrightarrow> (\<forall>x \<in> set ps. post_fits x)"
  shows "\<exists>ps st'. reader_run version fp call p = Some ps \<and>
    emit_all (run_post accepts) ps st = Some st' \<and>
    queued_bytes st' = queued_bytes st @ map (\<lambda>x. (p, Some (post_bytes x))) ps \<and>
    (\<not> fst (dart_reader call ps) \<longleftrightarrow>
       (\<exists>msg. ps = [post_error p msg] \<and> dart_text (wire_msg msg) = None) \<or>
       one_payload call \<and> snd (dart_reader call ps) \<noteq> []) \<and>
    (\<forall>k. fst (dart_reader call (take k ps)) \<longleftrightarrow>
       fst (dart_reader call ps) \<and> (if one_payload call then 1 else length ps) \<le> k)"
proof -
  obtain ps where ps: "reader_run version fp call p = Some ps"
    using reader_defined [OF assms(1), of version call p] by blast
  then have fits: "\<forall>x \<in> set ps. post_fits x \<and> post_port x = p"
    using assms(4) reader.reply_port by blast
  from dart.emit_all_one_port [where accepts = accepts, OF assms(2) this assms(3)]
  obtain st' where "emit_all (run_post accepts) ps st = Some st'"
    "queued_bytes st' = queued_bytes st @ map (\<lambda>x. (p, Some (post_bytes x))) ps"
    by blast
  moreover have "\<forall>x \<in> set ps. length (post_bytes x) \<le> 2 ^ 63"
    using fits by (auto simp: post_fits_def)
  from dart_reader_settles_at [OF ps this] have
    "\<not> fst (dart_reader call ps) \<longleftrightarrow>
       (\<exists>msg. ps = [post_error p msg] \<and> dart_text (wire_msg msg) = None) \<or>
       one_payload call \<and> snd (dart_reader call ps) \<noteq> []"
    "\<forall>k. fst (dart_reader call (take k ps)) \<longleftrightarrow>
       fst (dart_reader call ps) \<and> (if one_payload call then 1 else length ps) \<le> k"
    unfolding settles_at_def by blast+
  ultimately show ?thesis using ps by blast
qed

theorem reads_reach_the_client_witness:
  "\<exists>ps st'. reader_run (1, 15, 8) example_lib GetDefaultArch 5 = Some ps \<and>
    emit_all (run_post (\<lambda>_. True)) ps (bridge_start (\<lambda>_. Some (VmFunction ()))) = Some st' \<and>
    queued_bytes st' = map (\<lambda>x. (5, Some (post_bytes x))) ps \<and>
    fst (dart_reader GetDefaultArch ps) \<and> \<not> fst (dart_reader GetDefaultArch (take 1 ps))"
proof -
  let ?ps = "[post_string 5 ''x86_64'', post_sentinel 5]"
  have run: "reader_run (1, 15, 8) example_lib GetDefaultArch 5 = Some ?ps"
    by (simp add: example_lib_def get_default_arch_def)
  have "lists_set_errors example_lib" by (auto simp: lists_set_errors_def example_lib_def)
  moreover have "dl_ready (bridge_start (\<lambda>_. Some (VmFunction ())))"
    by (simp add: dl_ready_def bridge_start_def)
  moreover have "\<forall>ps. reader_run (1, 15, 8) example_lib GetDefaultArch 5 = Some ps \<longrightarrow>
      (\<forall>x \<in> set ps. post_fits x)"
    unfolding run by (simp add: post_fits_def post_string_def post_bytes_framed_error wire_msg_def c_str_def)
  ultimately obtain st' where sent:
    "emit_all (run_post (\<lambda>_. True)) ?ps (bridge_start (\<lambda>_. Some (VmFunction ()))) = Some st'"
    "queued_bytes st' = queued_bytes (bridge_start (\<lambda>_. Some (VmFunction ()))) @
      map (\<lambda>x. (5, Some (post_bytes x))) ?ps"
    and settled:
    "\<not> fst (dart_reader GetDefaultArch ?ps) \<longleftrightarrow> (\<exists>msg. ?ps = [post_error 5 msg] \<and> dart_text (wire_msg msg) = None)"
    "\<forall>k. fst (dart_reader GetDefaultArch (take k ?ps)) \<longleftrightarrow> fst (dart_reader GetDefaultArch ?ps) \<and> length ?ps \<le> k"
    using reads_reach_the_client [of example_lib _ "\<lambda>_. True" 5 "(1, 15, 8)" GetDefaultArch] run by fastforce
  have "fst (dart_reader GetDefaultArch ?ps)" using settled(1) by blast
  moreover have "\<not> fst (dart_reader GetDefaultArch (take 1 ?ps))"
    using settled(2) by (metis length_Cons list.size(3) not_less_eq_eq numeral_nat(7) order_refl)
  moreover have "queued_bytes (bridge_start (\<lambda>_. Some (VmFunction ()))) = []"
    by (simp add: queued_bytes_def bridge_start_def)
  ultimately show ?thesis using run sent by (intro exI [of _ ?ps] exI [of _ st']) simp_all
qed

end
